(* ===== verification/Prelude.thy ===== *)
theory Prelude
  imports Complex_Main "HOL-Library.Word" "HOL-Library.Sublist"
begin

text \<open>
  What every component shares: the integer widths of the code, the error numbers and results of
  system calls, the exceptions of the C++ library, the collections of facts that carry the
  component proofs, and generic lemmas on lists, words and options.
\<close>

unbundle bit_operations_syntax

named_theorems std_string_simps \<open>reading back what the \<open>std::string\<close> operations print\<close>
named_theorems loop_simps \<open>the steps of registering with the event loop\<close>
named_theorems kernel_calls \<open>the system calls of the environments that compute\<close>

section \<open>Types\<close>

type_synonym u8 = "8 word"
type_synonym u16 = "16 word"
type_synonym u32 = "32 word"
type_synonym u64 = "64 word"
type_synonym bytes = "u8 list"

text \<open>\<open>hbk::sys::event\<close> under Linux: a file descriptor, \<open>-1\<close> for none.\<close>

type_synonym fd = int

text \<open>
  The values of \<open>errno\<close> the code distinguishes. Under Linux \<open>EWOULDBLOCK\<close> and
  \<open>EAGAIN\<close> are the same number.
\<close>

datatype errno = EINTR | EAGAIN | EINPROGRESS | EADDRINUSE | EADDRNOTAVAIL | EOTHER nat

abbreviation EWOULDBLOCK :: errno where "EWOULDBLOCK \<equiv> EAGAIN"

text \<open>A system call fails with an error number or succeeds with a value.\<close>

type_synonym 'a sysres = "errno + 'a"

text \<open>What the C++ library throws where the code does not catch it.\<close>

datatype std_exn = out_of_range | invalid_argument | runtime_error string

section \<open>Lists\<close>

lemma prefix_take_drop: "prefix p (drop i s) \<Longrightarrow> i \<le> length s \<Longrightarrow>
  s = take i s @ p @ drop (i + length p) s"
  by (auto simp: prefix_def) (metis append_take_drop_id drop_drop add.commute append_eq_conv_conj)

lemma prefix_single: "prefix [c] s \<longleftrightarrow> s \<noteq> [] \<and> hd s = c"
  by (cases s) auto

lemma take_length_prefix: "take (length p) s = p \<longleftrightarrow> prefix p s"
  by (metis append_eq_conv_conj append_take_drop_id prefix_def)

section \<open>Words\<close>

lemma unat_u32 [simp]: "unat (a :: u32) < 4294967296"
proof -
  have "unat a < 2 ^ LENGTH(32)" by (rule unsigned_less)
  then show ?thesis by simp
qed

lemma take_bit_u32 [simp]: "take_bit 32 (unat (a :: u32)) = unat a"
  by (simp add: take_bit_nat_eq_self)

section \<open>Results\<close>

lemma sum_split_bind:
  "(case (case x of Inl e \<Rightarrow> Inl e | Inr a \<Rightarrow> f a) of Inl e \<Rightarrow> g e | Inr b \<Rightarrow> h b) =
   (case x of Inl e \<Rightarrow> g e | Inr a \<Rightarrow> (case f a of Inl e \<Rightarrow> g e | Inr b \<Rightarrow> h b))"
  by (cases x) auto

end
