(* ===== verification/Std_String.thy ===== *)
theory Std_String
  imports Prelude
begin

text \<open>
  The operations of \<open>std::string\<close> and the number conversions of the C++ library that the
  sources use: searching (\<open>npos\<close> is \<^term>\<open>None\<close>), \<open>substr\<close>, \<open>std::count\<close>,
  \<open>std::stoul\<close> and the decimal and hexadecimal output of unsigned values. The lemmas give
  the position a search returns, and that reading a printed number gives the number back.
\<close>

section \<open>Searching\<close>

text \<open>Least position of the text at which the rest of the text satisfies a test.\<close>

fun find_suffix :: "('a list \<Rightarrow> bool) \<Rightarrow> 'a list \<Rightarrow> nat option" where
  "find_suffix P [] = (if P [] then Some 0 else None)"
| "find_suffix P (x # xs) =
     (if P (x # xs) then Some 0 else map_option Suc (find_suffix P xs))"

text \<open>\<open>text.find(sub, pos)\<close>\<close>

definition find_from :: "string \<Rightarrow> string \<Rightarrow> nat \<Rightarrow> nat option" where
  "find_from text sub pos =
     (if pos \<le> length text then map_option ((+) pos) (find_suffix (prefix sub) (drop pos text))
      else None)"

text \<open>\<open>text.find_first_not_of(set)\<close> and \<open>text.find_last_not_of(set)\<close>\<close>

definition find_first_not_of :: "string \<Rightarrow> char set \<Rightarrow> nat option" where
  "find_first_not_of text cs = find_suffix (\<lambda>r. r \<noteq> [] \<and> hd r \<notin> cs) text"

definition find_last_not_of :: "string \<Rightarrow> char set \<Rightarrow> nat option" where
  "find_last_not_of text cs =
     map_option (\<lambda>i. length text - 1 - i) (find_first_not_of (rev text) cs)"

text \<open>\<open>text.substr(pos, n)\<close>, with \<^term>\<open>None\<close> for an \<open>n\<close> past the end.\<close>

definition substr :: "string \<Rightarrow> nat \<Rightarrow> nat option \<Rightarrow> std_exn + string" where
  "substr text pos n =
     (if length text < pos then Inl out_of_range
      else Inr (case n of None \<Rightarrow> drop pos text | Some k \<Rightarrow> take k (drop pos text)))"

text \<open>\<open>std::count\<close>\<close>

definition std_count :: "string \<Rightarrow> char \<Rightarrow> nat" where
  "std_count text c = length (filter (\<lambda>x. x = c) text)"

lemma find_suffix_Some:
  "find_suffix P s = Some i \<Longrightarrow> i \<le> length s \<and> P (drop i s) \<and> (\<forall>j<i. \<not> P (drop j s))"
proof (induction s arbitrary: i)
  case Nil
  then show ?case by (auto split: if_splits)
next
  case (Cons x xs)
  show ?case
  proof (cases "P (x # xs)")
    case True
    with Cons.prems show ?thesis by simp
  next
    case False
    with Cons.prems obtain k where k: "i = Suc k" "find_suffix P xs = Some k" by auto
    note IH = Cons.IH [OF k(2)]
    have "\<not> P (drop j (x # xs))" if "j < i" for j
      using that IH k(1) False by (cases j) auto
    with IH k(1) show ?thesis by simp
  qed
qed

lemma find_suffix_None: "find_suffix P s = None \<Longrightarrow> i \<le> length s \<Longrightarrow> \<not> P (drop i s)"
proof (induction s arbitrary: i)
  case Nil
  then show ?case by (auto split: if_splits)
next
  case (Cons x xs)
  then show ?case by (cases i) (auto split: if_splits)
qed

lemma find_suffix_intro:
  "P (drop i s) \<Longrightarrow> i \<le> length s \<Longrightarrow> (\<And>j. j < i \<Longrightarrow> \<not> P (drop j s)) \<Longrightarrow> find_suffix P s = Some i"
  by (metis find_suffix_None find_suffix_Some linorder_neqE_nat not_None_eq)

lemma find_suffix_prefix_bound:
  "find_suffix (prefix sub) s = Some i \<Longrightarrow> i + length sub \<le> length s"
  using find_suffix_Some [of "prefix sub" s i] prefix_length_le [of sub "drop i s"] by auto

lemma find_suffix_prefix_split:
  "find_suffix (prefix sub) s = Some i \<Longrightarrow> s = take i s @ sub @ drop (i + length sub) s"
  using find_suffix_Some [of "prefix sub" s i] prefix_take_drop by blast

lemma find_from_Some_bound:
  "find_from text sub pos = Some e \<Longrightarrow> pos \<le> e \<and> e + length sub \<le> length text"
  using find_suffix_prefix_bound by (fastforce simp: find_from_def split: if_splits)

lemma find_from_empty [simp]: "pos \<le> length text \<Longrightarrow> find_from text [] pos = Some pos"
  by (cases "drop pos text") (auto simp: find_from_def)

lemma find_suffix_prefix_None_iff:
  "find_suffix (prefix sub) s = None \<longleftrightarrow> \<not> sublist sub s"
proof
  assume none: "find_suffix (prefix sub) s = None"
  show "\<not> sublist sub s"
  proof
    assume "sublist sub s"
    then obtain a b where "s = a @ sub @ b" by (auto simp: sublist_def)
    with find_suffix_None [OF none, of "length a"] show False by simp
  qed
next
  assume ns: "\<not> sublist sub s"
  show "find_suffix (prefix sub) s = None"
  proof (cases "find_suffix (prefix sub) s")
    case (Some i)
    from find_suffix_prefix_split [OF this] ns show ?thesis
      by (metis sublist_def)
  qed simp
qed

lemma find_suffix_char: "find_suffix (prefix [c]) s = None \<longleftrightarrow> c \<notin> set s"
  by (induction s) (auto simp: prefix_single)

lemma find_suffix_char_None [simp]: "c \<notin> set s \<Longrightarrow> find_suffix (prefix [c]) s = None"
  by (simp add: find_suffix_char)

lemma std_count_simps [simp]:
  "std_count [] c = 0"
  "std_count (x # xs) c = (if x = c then Suc (std_count xs c) else std_count xs c)"
  "std_count (xs @ ys) c = std_count xs c + std_count ys c"
  by (auto simp: std_count_def)

lemma std_count_zero: "std_count s c = 0 \<longleftrightarrow> c \<notin> set s"
  by (induction s) auto

text \<open>A text that is read as a C string ends before the first zero.\<close>

definition c_str :: "string \<Rightarrow> string" where
  "c_str s = takeWhile (\<lambda>c. c \<noteq> CHR 0x00) s"

lemma c_str_id [std_string_simps]: "CHR 0x00 \<notin> set s \<Longrightarrow> c_str s = s"
  by (induction s) (auto simp: c_str_def)

section \<open>Numbers\<close>

definition digit_char :: "nat \<Rightarrow> char" where
  "digit_char d = (if d < 10 then char_of (48 + d) else char_of (87 + d))"

text \<open>The value of a digit, for bases up to 36 and either case of the letters.\<close>

definition digit_val :: "char \<Rightarrow> nat option" where
  "digit_val c = (let n = of_char c in
     if 48 \<le> n \<and> n \<le> 57 then Some (n - 48)
     else if 97 \<le> n \<and> n \<le> 122 then Some (n - 87)
     else if 65 \<le> n \<and> n \<le> 90 then Some (n - 55) else None)"

definition is_digit :: "nat \<Rightarrow> char \<Rightarrow> bool" where
  "is_digit b c = (case digit_val c of None \<Rightarrow> False | Some d \<Rightarrow> d < b)"

text \<open>What \<open>operator<<\<close> and \<open>std::to_string\<close> print for an unsigned value.\<close>

fun radix :: "nat \<Rightarrow> nat \<Rightarrow> string" where
  "radix b n = (if b < 2 \<or> n < b then [digit_char n]
                else radix b (n div b) @ [digit_char (n mod b)])"

declare radix.simps [simp del]

abbreviation to_string :: "nat \<Rightarrow> string" where "to_string \<equiv> radix 10"

abbreviation to_hex :: "nat \<Rightarrow> string" where "to_hex \<equiv> radix 16"

definition digits_value :: "nat \<Rightarrow> string \<Rightarrow> nat" where
  "digits_value b s = foldl (\<lambda>acc c. acc * b + the (digit_val c)) 0 s"

definition isspace :: "char \<Rightarrow> bool" where
  "isspace c = (c \<in> set [CHR '' '', CHR 0x09, CHR 0x0A, CHR 0x0B, CHR 0x0C, CHR 0x0D])"

text \<open>
  \<open>std::stoul(str, nullptr, base)\<close>: leading white space, a sign, for base 16 an optional
  \<open>0x\<close>, then the longest run of digits; what follows is ignored. No digit is an
  \<open>invalid_argument\<close>, a value that does not fit 64 bits an \<open>out_of_range\<close>; a minus sign
  negates modulo \<open>2^64\<close>.
\<close>

definition stoul :: "nat \<Rightarrow> string \<Rightarrow> std_exn + u64" where
  "stoul b str = (let s = dropWhile isspace str;
     neg = (s \<noteq> [] \<and> hd s = CHR ''-'');
     t = (if s \<noteq> [] \<and> (hd s = CHR ''-'' \<or> hd s = CHR ''+'') then tl s else s);
     u = (if b = 16 \<and> 2 < length t \<and> hd t = CHR ''0'' \<and> (t ! 1 = CHR ''x'' \<or> t ! 1 = CHR ''X'')
             \<and> is_digit 16 (t ! 2) then drop 2 t else t);
     ds = takeWhile (is_digit b) u
   in if ds = [] then Inl invalid_argument
      else if 2 ^ 64 \<le> digits_value b ds then Inl out_of_range
      else Inr (if neg then - of_nat (digits_value b ds) else of_nat (digits_value b ds)))"

lemma digits_value_append [simp]:
  "digits_value b (s @ [c]) = digits_value b s * b + the (digit_val c)"
  by (simp add: digits_value_def)

lemma digits_value_Nil [simp]: "digits_value b [] = 0"
  by (simp add: digits_value_def)

lemma digit_val_char: "d < 36 \<Longrightarrow> digit_val (digit_char d) = Some d"
  by (auto simp: digit_val_def digit_char_def Let_def)

lemma is_digit_char [simp]: "d < b \<Longrightarrow> b \<le> 36 \<Longrightarrow> is_digit b (digit_char d)"
  by (simp add: is_digit_def digit_val_char)

lemma radix_nonempty [simp]: "radix b n \<noteq> []"
  by (subst radix.simps) simp

lemma radix_digits: "2 \<le> b \<Longrightarrow> b \<le> 36 \<Longrightarrow> c \<in> set (radix b n) \<Longrightarrow> is_digit b c"
proof (induction b n rule: radix.induct)
  case (1 b n)
  then show ?case by (auto simp: radix.simps [of b n] split: if_splits)
qed

lemma digits_value_radix [std_string_simps]: "2 \<le> b \<Longrightarrow> b \<le> 36 \<Longrightarrow> digits_value b (radix b n) = n"
proof (induction b n rule: radix.induct)
  case (1 b n)
  show ?case
  proof (cases "n < b")
    case True
    with "1.prems" show ?thesis
      using digits_value_append [of b "[]"] by (simp add: radix.simps [of b n] digit_val_char)
  next
    case False
    have mb: "n mod b < 36" using "1.prems" by (meson less_le_trans mod_less_divisor not_less_zero zero_less_numeral)
    from False "1.prems" "1.IH" have "digits_value b (radix b (n div b)) = n div b" by simp
    with False "1.prems" mb show ?thesis by (simp add: radix.simps [of b n] digit_val_char)
  qed
qed

lemma is_digit_not_special:
  "is_digit b c \<Longrightarrow> \<not> isspace c \<and> c \<noteq> CHR ''-'' \<and> c \<noteq> CHR ''+'' \<and> c \<noteq> CHR ''.'' \<and> c \<noteq> CHR '':''"
  by (auto simp: is_digit_def digit_val_def isspace_def Let_def split: option.splits)

lemma dropWhile_id: "s \<noteq> [] \<Longrightarrow> \<not> P (hd s) \<Longrightarrow> dropWhile P s = s"
  by (cases s) auto

lemma is_digit_10_not_x: "is_digit 10 c \<Longrightarrow> c \<noteq> CHR ''x'' \<and> c \<noteq> CHR ''X''"
  by (auto simp: is_digit_def digit_val_def split: option.splits)

lemma is_digit_16_not_x: "is_digit 16 c \<Longrightarrow> c \<noteq> CHR ''x'' \<and> c \<noteq> CHR ''X''"
  by (auto simp: is_digit_def digit_val_def split: option.splits)

text \<open>A run of digits, of base 10 or 16, is read as its value.\<close>

lemma stoul_digits:
  assumes "s \<noteq> []" "\<forall>c\<in>set s. is_digit b c" "b = 10 \<or> b = 16" "digits_value b s < 2 ^ 64"
  shows "stoul b s = Inr (of_nat (digits_value b s))"
proof -
  have hd: "is_digit b (hd s)" using assms(1,2) by simp
  have tw: "takeWhile (is_digit b) s = s" using assms(2) by (simp add: takeWhile_eq_all_conv)
  have nth: "s ! 1 \<noteq> CHR ''x'' \<and> s ! 1 \<noteq> CHR ''X''" if "2 < length s"
    using assms(2,3) that is_digit_10_not_x is_digit_16_not_x by (metis Suc_1 Suc_lessD nth_mem)
  show ?thesis
    using assms(1,4) is_digit_not_special [OF hd] nth
    by (auto simp: stoul_def Let_def tw dropWhile_id)
qed

lemma stoul_to_string [std_string_simps]: "n < 2 ^ 64 \<Longrightarrow> stoul 10 (to_string n) = Inr (of_nat n)"
  using stoul_digits [of "to_string n" 10] radix_digits [of 10]
  by (simp add: digits_value_radix)

lemma to_string_no_sep: "CHR ''.'' \<notin> set (to_string n)"
  using radix_digits [of 10 _ n] is_digit_not_special by fastforce

end
