(* ===== verification/Str_Split.thy ===== *)
theory Str_Split
  imports Std_String
begin

text \<open>
  \<open>hbk::string::split\<close> (\<^verbatim>\<open>lib/string/split.cpp\<close>). The two overloads are the loops
  \<open>split_char_loop\<close> and \<open>split_str_loop\<close> over \<open>pos_start\<close>; \<open>substr\<close> may throw in the model,
  and the lemmas show that it never does, that the tokens joined by the separator are the text,
  that no token contains the separator, and that splitting undoes joining.
\<close>

function split_char_loop :: "string \<Rightarrow> char \<Rightarrow> nat \<Rightarrow> std_exn + string list" where
  "split_char_loop text separator pos_start =
     (let pos_end = find_from text [separator] pos_start
      in case substr text pos_start (map_option (\<lambda>e. e - pos_start) pos_end) of
           Inl e \<Rightarrow> Inl e
         | Inr token \<Rightarrow>
             (case pos_end of
                None \<Rightarrow> Inr [token]
              | Some e \<Rightarrow> map_sum id ((#) token) (split_char_loop text separator (e + 1))))"
  by pat_completeness auto
termination
  by (relation "measure (\<lambda>(text, _, pos). Suc (length text) - pos)")
     (auto dest!: find_from_Some_bound [OF sym])

definition split_char :: "string \<Rightarrow> char \<Rightarrow> std_exn + string list" where
  "split_char text separator = split_char_loop text separator 0"

text \<open>
  The loop of the second overload runs only for a separator of positive length: the test is made
  before the loop, and the guard here repeats it so that the recursion ends.
\<close>

function split_str_loop :: "string \<Rightarrow> string \<Rightarrow> nat \<Rightarrow> std_exn + string list" where
  "split_str_loop text separator pos_start =
     (if length separator = 0 then Inr []
      else let pos_end = find_from text separator pos_start
      in case substr text pos_start (map_option (\<lambda>e. e - pos_start) pos_end) of
           Inl e \<Rightarrow> Inl e
         | Inr token \<Rightarrow>
             (case pos_end of
                None \<Rightarrow> Inr [token]
              | Some e \<Rightarrow>
                  map_sum id ((#) token) (split_str_loop text separator (e + length separator))))"
  by pat_completeness auto
termination
  by (relation "measure (\<lambda>(text, _, pos). Suc (length text) - pos)")
     (auto dest!: find_from_Some_bound [OF sym] simp flip: length_greater_0_conv)

definition split_str :: "string \<Rightarrow> string \<Rightarrow> std_exn + string list" where
  "split_str text separator =
     (if length separator = 0 then Inr [text] else split_str_loop text separator 0)"

declare split_char_loop.simps [simp del] split_str_loop.simps [simp del]

section \<open>The pieces of a text, without positions\<close>

function pieces :: "string \<Rightarrow> string \<Rightarrow> string list" where
  "pieces sep s = (if sep = [] then [s] else
     case find_suffix (prefix sep) s of
       None \<Rightarrow> [s]
     | Some i \<Rightarrow> take i s # pieces sep (drop (i + length sep) s))"
  by pat_completeness auto
termination
  by (relation "measure (\<lambda>(_, s). length s)") (auto dest!: find_suffix_prefix_bound simp flip: length_greater_0_conv)

declare pieces.simps [simp del]

definition join :: "string \<Rightarrow> string list \<Rightarrow> string" where
  "join sep ts = (case ts of [] \<Rightarrow> [] | t # us \<Rightarrow> t @ concat (map (\<lambda>u. sep @ u) us))"

lemma join_simps [simp]:
  "join sep [] = []" "join sep [t] = t" "ts \<noteq> [] \<Longrightarrow> join sep (t # ts) = t @ sep @ join sep ts"
  by (auto simp: join_def split: list.splits)

lemma pieces_nonempty [simp]: "pieces sep s \<noteq> []"
  by (subst pieces.simps) (auto split: option.splits)

lemma join_pieces: "join sep (pieces sep s) = s"
proof (induction sep s rule: pieces.induct)
  case (1 sep s)
  show ?case
  proof (cases "sep = [] \<or> find_suffix (prefix sep) s = None")
    case True
    then show ?thesis by (subst pieces.simps) auto
  next
    case False
    then obtain i where i: "find_suffix (prefix sep) s = Some i" by auto
    with "1" False have "join sep (pieces sep (drop (i + length sep) s)) = drop (i + length sep) s"
      by simp
    with i False find_suffix_prefix_split [OF i] show ?thesis by (subst pieces.simps) simp
  qed
qed

lemma sublist_take_first:
  assumes i: "find_suffix (prefix sep) s = Some i" and ne: "sep \<noteq> []"
  shows "\<not> sublist sep (take i s)"
proof
  assume "sublist sep (take i s)"
  then obtain a b where ab: "take i s = a @ sep @ b" by (auto simp: sublist_def)
  then have lt: "length a < i" using ne by (metis length_append length_greater_0_conv length_take
    less_add_same_cancel1 min_less_iff_conj add_gr_0)
  have "drop (length a) s = sep @ b @ drop i s"
    using ab append_take_drop_id [of i s] by (metis append.assoc append_eq_conv_conj)
  then have "prefix sep (drop (length a) s)" by simp
  with find_suffix_Some [OF i] lt show False by blast
qed

lemma pieces_no_sep: "sep \<noteq> [] \<Longrightarrow> t \<in> set (pieces sep s) \<Longrightarrow> \<not> sublist sep t"
proof (induction sep s rule: pieces.induct)
  case (1 sep s)
  show ?case
  proof (cases "find_suffix (prefix sep) s")
    case None
    with "1.prems" show ?thesis
      by (auto simp: pieces.simps [of sep s] find_suffix_prefix_None_iff)
  next
    case (Some i)
    with "1.prems" sublist_take_first [OF Some] "1.IH" [OF _ Some] show ?thesis
      by (auto simp: pieces.simps [of sep s])
  qed
qed

section \<open>The loops compute the pieces\<close>

lemma split_str_loop_pieces:
  "separator \<noteq> [] \<Longrightarrow> pos \<le> length text \<Longrightarrow>
   split_str_loop text separator pos = Inr (pieces separator (drop pos text))"
proof (induction "text" separator pos rule: split_str_loop.induct)
  case (1 s sep pos)
  show ?case
  proof (cases "find_suffix (prefix sep) (drop pos s)")
    case None
    with "1.prems" show ?thesis
      by (subst split_str_loop.simps, subst pieces.simps) (simp add: find_from_def substr_def)
  next
    case (Some i)
    then have e: "find_from s sep pos = Some (pos + i)" using "1.prems" by (simp add: find_from_def)
    have b: "pos + i + length sep \<le> length s" using find_from_Some_bound [OF e] by simp
    have sub: "substr s pos (map_option (\<lambda>e. e - pos) (Some (pos + i))) =
        Inr (take i (drop pos s))"
      using "1.prems" by (simp add: substr_def)
    have "split_str_loop s sep (pos + i + length sep) =
        Inr (pieces sep (drop (pos + i + length sep) s))"
      using "1.IH" [OF _ e [symmetric] sub refl] "1.prems" b by simp
    moreover have "drop (i + length sep) (drop pos s) = drop (pos + i + length sep) s"
      by (simp add: ac_simps)
    ultimately show ?thesis using "1.prems" e Some sub
      by (simp add: split_str_loop.simps [of s sep pos] pieces.simps [of sep "drop pos s"])
  qed
qed

lemma split_char_loop_str: "split_char_loop text c pos = split_str_loop text [c] pos"
proof (induction "text" c pos rule: split_char_loop.induct)
  case (1 s c pos)
  show ?case
    by (subst split_char_loop.simps, subst split_str_loop.simps)
       (use "1.IH" in \<open>auto simp: Let_def split: sum.splits option.splits\<close>)
qed

lemma split_str_pieces: "split_str text sep = Inr (if sep = [] then [text] else pieces sep text)"
  using split_str_loop_pieces [of sep 0 "text"] by (simp add: split_str_def)

lemma split_char_str: "split_char text c = split_str text [c]"
  by (simp add: split_char_def split_str_def split_char_loop_str)

lemma split_char_pieces: "split_char text c = Inr (pieces [c] text)"
  by (simp add: split_char_str split_str_pieces)

section \<open>Splitting a joined text\<close>

lemma find_suffix_char_append:
  "c \<notin> set t \<Longrightarrow> find_suffix (prefix [c]) (t @ c # r) = Some (length t)"
  by (induction t) (auto simp: prefix_single)

lemma pieces_char_Cons:
  "c \<notin> set t \<Longrightarrow> pieces [c] (t @ c # r) = t # pieces [c] r"
  by (subst pieces.simps) (simp add: find_suffix_char_append)

lemma pieces_char_none: "c \<notin> set t \<Longrightarrow> pieces [c] t = [t]"
  by (subst pieces.simps) simp

lemma pieces_join: "ts \<noteq> [] \<Longrightarrow> \<forall>t\<in>set ts. c \<notin> set t \<Longrightarrow> pieces [c] (join [c] ts) = ts"
proof (induction ts)
  case (Cons t ts)
  then show ?case
    by (cases "ts = []") (auto simp: pieces_char_none pieces_char_Cons)
qed simp

lemma length_pieces_char: "length (pieces [c] s) = std_count s c + 1"
proof (induction "[c]" s rule: pieces.induct)
  case (1 s)
  show ?case
  proof (cases "find_suffix (prefix [c]) s")
    case None
    then have "c \<notin> set s" by (simp add: find_suffix_char)
    then show ?thesis by (simp add: pieces_char_none std_count_zero)
  next
    case (Some i)
    have s: "s = take i s @ c # drop (Suc i) s" using find_suffix_prefix_split [OF Some] by simp
    have "c \<notin> set (take i s)" using sublist_take_first [OF Some]
      by (metis find_suffix_char find_suffix_prefix_None_iff not_Cons_self2)
    then have "std_count s c = 1 + std_count (drop (Suc i) s) c"
      by (subst s) (simp add: std_count_zero)
    with Some "1" show ?thesis by (simp add: pieces.simps [of _ s])
  qed
qed

section \<open>Properties\<close>

text \<open>
  C1: splitting never throws and loses nothing. The tokens joined by the separator are the text,
  and no token contains a separator that is not empty.
\<close>

theorem split_str_lossless:
  "\<exists>ts. split_str s separator = Inr ts \<and> join separator ts = s \<and>
     (separator \<noteq> [] \<longrightarrow> (\<forall>t\<in>set ts. \<not> sublist separator t))"
  by (simp add: split_str_pieces join_pieces pieces_no_sep)

theorem split_str_lossless_witness:
  "\<exists>ts. split_str ''a::b::'' ''::'' = Inr ts \<and> join ''::'' ts = ''a::b::'' \<and>
     (\<forall>t\<in>set ts. \<not> sublist ''::'' t)"
  using split_str_lossless [of "''a::b::''" "''::''"] by simp

text \<open>
  Splitting at a character undoes joining: any tokens without the separator, empty ones and
  the last one included, come back in order.
\<close>

theorem split_char_join:
  "ts \<noteq> [] \<Longrightarrow> \<forall>t\<in>set ts. separator \<notin> set t \<Longrightarrow> split_char (join [separator] ts) separator = Inr ts"
  by (simp add: split_char_pieces pieces_join)

theorem split_char_join_witness:
  "split_char (join '';'' [''a'', [], ''bc'', []]) CHR '';'' = Inr [''a'', [], ''bc'', []]"
  by (rule split_char_join) simp_all

text \<open>
  The overload for a character gives what the overload for a text of one character gives, and
  one token more than the separator occurs.
\<close>

theorem split_overloads_agree:
  "split_char s c = split_str s [c] \<and> (\<exists>ts. split_char s c = Inr ts \<and> length ts = std_count s c + 1)"
  by (simp add: split_char_str split_str_pieces length_pieces_char)

end
