(* ===== verification/Str_Replace.thy ===== *)
theory Str_Replace
  imports Str_Split
begin

text \<open>
  \<open>hbk::string::replace\<close> (\<^verbatim>\<open>lib/string/replace.cpp\<close>). The overload on strings edits the text in
  place while it searches, so its loop is a \<^theory_text>\<open>partial_function\<close>: \<^term>\<open>None\<close> is a
  loop that never ends. The lemmas show when it ends, what it computes for a substitute as long as
  the search string, and that it does not end for an empty search string or for a substitute that
  contains the search string again past the position the loop moves to.
\<close>

text \<open>\<open>std::replace\<close> on the characters of the text.\<close>

definition replace_char :: "string \<Rightarrow> char \<Rightarrow> char \<Rightarrow> string" where
  "replace_char text search substitute = map (\<lambda>x. if x = search then substitute else x) text"

text \<open>\<open>text.replace(pos, n, by)\<close> for a \<open>pos\<close> inside the text.\<close>

definition str_replace_at :: "string \<Rightarrow> nat \<Rightarrow> nat \<Rightarrow> string \<Rightarrow> string" where
  "str_replace_at text pos n by_text = take pos text @ by_text @ drop (pos + n) text"

partial_function (option) replace_loop :: "string \<Rightarrow> string \<Rightarrow> string \<Rightarrow> nat \<Rightarrow> string option" where
  "replace_loop text search substitute position =
     (case find_from text search position of
        None \<Rightarrow> Some text
      | Some p \<Rightarrow> replace_loop (str_replace_at text p (length search) substitute) search substitute
                     (p + length search))"

definition replace_str :: "string \<Rightarrow> string \<Rightarrow> string \<Rightarrow> string option" where
  "replace_str text search substitute = replace_loop text search substitute 0"

lemma length_str_replace_at:
  "pos + n \<le> length text \<Longrightarrow> length (str_replace_at text pos n b) = length text - n + length b"
  by (simp add: str_replace_at_def)

section \<open>Termination\<close>

text \<open>
  Each turn leaves \<open>2 \<cdot> length search - length substitute\<close> characters less behind the position,
  at least.
\<close>

lemma replace_loop_returns:
  "length substitute < 2 * length search \<Longrightarrow> \<exists>r. replace_loop s search substitute position = Some r"
proof (induction "length s - position" arbitrary: s position rule: less_induct)
  case less
  show ?case
  proof (cases "find_from s search position")
    case None
    then show ?thesis by (subst replace_loop.simps) simp
  next
    case (Some p)
    note b = find_from_Some_bound [OF Some]
    let ?s = "str_replace_at s p (length search) substitute"
    have "length ?s - (p + length search) < length s - position"
      using b less.prems by (simp add: length_str_replace_at) arith
    from less.hyps [OF this less.prems] Some show ?thesis by (subst replace_loop.simps) simp
  qed
qed

section \<open>The result, for a substitute as long as the search string\<close>

lemma join_pieces_Cons:
  "find_suffix (prefix sep) s = Some i \<Longrightarrow> sep \<noteq> [] \<Longrightarrow>
   join u (pieces sep s) = take i s @ u @ join u (pieces sep (drop (i + length sep) s))"
  by (subst pieces.simps) simp

lemma replace_loop_same_length:
  "length substitute = length search \<Longrightarrow> search \<noteq> [] \<Longrightarrow> position \<le> length s \<Longrightarrow>
   replace_loop s search substitute position =
     Some (take position s @ join substitute (pieces search (drop position s)))"
proof (induction "length s - position" arbitrary: s position rule: less_induct)
  case less
  show ?case
  proof (cases "find_suffix (prefix search) (drop position s)")
    case None
    then have "find_from s search position = None" by (simp add: find_from_def)
    with None less.prems show ?thesis
      by (subst replace_loop.simps, subst pieces.simps) simp
  next
    case (Some i)
    then have f: "find_from s search position = Some (position + i)"
      using less.prems by (simp add: find_from_def)
    note b = find_from_Some_bound [OF f]
    let ?p = "position + i + length search"
    let ?s = "str_replace_at s (position + i) (length search) substitute"
    have len: "length ?s = length s" using b less.prems by (simp add: length_str_replace_at)
    have "0 < length search" using less.prems by simp
    with b have dec: "length ?s - ?p < length s - position" unfolding len by linarith
    have tk: "take ?p ?s = take position s @ take i (drop position s) @ substitute"
      using b less.prems by (simp add: str_replace_at_def take_add)
    have dr: "drop ?p ?s = drop (i + length search) (drop position s)"
      using b less.prems by (simp add: str_replace_at_def ac_simps)
    have "replace_loop ?s search substitute ?p =
        Some (take ?p ?s @ join substitute (pieces search (drop ?p ?s)))"
      using less.hyps [OF dec] less.prems b len by simp
    with f Some less.prems tk dr show ?thesis
      by (subst replace_loop.simps) (simp add: join_pieces_Cons)
  qed
qed

lemma replace_str_same_length:
  "length substitute = length search \<Longrightarrow> search \<noteq> [] \<Longrightarrow>
   replace_str s search substitute = Some (join substitute (pieces search s))"
  using replace_loop_same_length [of substitute search 0 s] by (simp add: replace_str_def)

lemma replace_char_concat: "replace_char s a b = join [b] (pieces [a] s)"
proof (induction "[a]" s rule: pieces.induct)
  case (1 s)
  show ?case
  proof (cases "find_suffix (prefix [a]) s")
    case None
    then have "a \<notin> set s" by (simp add: find_suffix_char)
    then show ?thesis by (auto simp: replace_char_def pieces_char_none intro: map_idI)
  next
    case (Some i)
    note s = find_suffix_prefix_split [OF Some]
    have na: "a \<notin> set (take i s)" using sublist_take_first [OF Some]
      by (metis find_suffix_char find_suffix_prefix_None_iff not_Cons_self2)
    then have "replace_char (take i s) a b = take i s"
      by (auto simp: replace_char_def intro: map_idI)
    moreover have "replace_char s a b =
        replace_char (take i s) a b @ [b] @ replace_char (drop (i + length [a]) s) a b"
      by (subst s) (simp add: replace_char_def)
    ultimately show ?thesis using Some "1" by (simp add: join_pieces_Cons)
  qed
qed

section \<open>Loops that do not end\<close>

text \<open>An empty search string is found again at the same position after every insertion.\<close>

lemma replace_loop_empty_search: "replace_loop s [] u pos = Some r \<Longrightarrow> pos \<le> length s \<Longrightarrow> False"
proof (rule replace_loop.raw_induct
    [where P = "\<lambda>s se u pos r. se = [] \<longrightarrow> pos \<le> length s \<longrightarrow> False", rule_format])
  fix f s se u pos r
  assume IH: "\<And>s se u pos r. f s se u pos = Some r \<Longrightarrow> se = [] \<Longrightarrow> pos \<le> length s \<Longrightarrow> False"
    and eq: "(case find_from s se pos of None \<Rightarrow> Some s
       | Some p \<Rightarrow> f (str_replace_at s p (length se) u) se u (p + length se)) = Some r"
    and se: "se = []" "pos \<le> length s"
  then have "f (str_replace_at s pos 0 u) [] u pos = Some r" by simp
  from IH [OF this] se show False by (simp add: str_replace_at_def)
qed auto

lemma replace_str_empty_search: "replace_str s [] u = None"
  using replace_loop_empty_search [of s u 0] by (cases "replace_str s [] u") (auto simp: replace_str_def)

text \<open>
  A substitute whose second half starts with the search string again keeps the loop busy: after
  each turn there is an occurrence at the new position.
\<close>

lemma replace_loop_doubling:
  "replace_loop s se u pos = Some r \<Longrightarrow> u = se @ se \<Longrightarrow> pos \<le> length s \<Longrightarrow> prefix se (drop pos s) \<Longrightarrow> False"
proof (rule replace_loop.raw_induct
    [where P = "\<lambda>s se u pos r. u = se @ se \<longrightarrow> pos \<le> length s \<longrightarrow> prefix se (drop pos s) \<longrightarrow> False",
      rule_format])
  fix f s se u pos r
  assume IH: "\<And>s se u pos r. f s se u pos = Some r \<Longrightarrow> u = se @ se \<Longrightarrow> pos \<le> length s \<Longrightarrow>
      prefix se (drop pos s) \<Longrightarrow> False"
    and eq: "(case find_from s se pos of None \<Rightarrow> Some s
       | Some p \<Rightarrow> f (str_replace_at s p (length se) u) se u (p + length se)) = Some r"
    and u: "u = se @ se" and le: "pos \<le> length s" and pre: "prefix se (drop pos s)"
  have "find_suffix (prefix se) (drop pos s) = Some 0"
    using pre by (cases "drop pos s") auto
  then have "find_from s se pos = Some pos" using le by (simp add: find_from_def)
  with eq have "f (str_replace_at s pos (length se) u) se u (pos + length se) = Some r" by simp
  from IH [OF this u] le u show False
    by (simp add: str_replace_at_def)
qed auto

lemma replace_str_doubling: "prefix se s \<Longrightarrow> replace_str s se (se @ se) = None"
  using replace_loop_doubling [of s se "se @ se" 0]
  by (cases "replace_str s se (se @ se)") (auto simp: replace_str_def)

section \<open>Properties\<close>

text \<open>
  C2: with a substitute as long as the search string, \<open>replace\<close> returns the tokens \<open>split\<close> finds,
  joined by the substitute: every occurrence, from the left, is replaced and nothing else changes.
  The overload on characters is the case of length one.
\<close>

theorem replace_str_split_join:
  "length substitute = length search \<Longrightarrow> search \<noteq> [] \<Longrightarrow>
   \<exists>ts. split_str s search = Inr ts \<and> replace_str s search substitute = Some (join substitute ts) \<and>
     (search = [a] \<and> substitute = [b] \<longrightarrow> replace_char s a b = join substitute ts)"
  by (auto simp: replace_str_same_length split_str_pieces replace_char_concat)

theorem replace_str_split_join_witness:
  "\<exists>ts. split_str ''a,b'' '','' = Inr ts \<and> replace_str ''a,b'' '','' '';'' = Some (join '';'' ts) \<and>
     replace_char ''a,b'' CHR '','' CHR '';'' = join '';'' ts"
  using replace_str_split_join [of "'';''" "'',''" "''a,b''" "CHR '',''" "CHR '';''"] by simp

text \<open>The loop ends for every substitute shorter than twice the search string.\<close>

theorem replace_str_terminates:
  "length substitute < 2 * length search \<Longrightarrow> \<exists>r. replace_str s search substitute = Some r"
  by (simp add: replace_str_def replace_loop_returns)

theorem replace_str_terminates_witness: "\<exists>r. replace_str ''aabaab'' ''aa'' ''xyz'' = Some r"
  by (rule replace_str_terminates) simp

text \<open>
  C3: the bound is sharp, and the loop never ends where the search string is empty: a text that
  starts with the search string grows for ever when it is to be replaced by its own double.
\<close>

theorem replace_str_diverges:
  "replace_str s [] substitute = None \<and> replace_str (search @ s) search (search @ search) = None"
  by (simp add: replace_str_empty_search replace_str_doubling)

end
