(* ===== verification/Str_Trim.thy ===== *)
theory Str_Trim
  imports Std_String
begin

text \<open>
  The trimming functions (\<^verbatim>\<open>lib/string/trim.cpp\<close>) and \<open>readLineFromFile\<close>
  (\<^verbatim>\<open>lib/string/readlinefromfile.cpp\<close>). The functions that change their argument in place return
  the new text; \<^term>\<open>None\<close> is undefined behaviour: \<open>text.front()\<close> of an empty text. The lemmas
  relate the searches to dropping characters at either end, compare \<open>trim\<close> with \<open>trim_copy\<close>,
  and say where \<open>trim_right\<close> leaves white space behind.
\<close>

text \<open>\<open>trim_ws\<close>: space, \<open>\\t\<close>, \<open>\\n\<close>, \<open>\\r\<close>, \<open>\\f\<close>, \<open>\\v\<close>\<close>

definition trim_ws :: "char list" where
  "trim_ws = [CHR '' '', CHR 0x09, CHR 0x0A, CHR 0x0D, CHR 0x0C, CHR 0x0B]"

text \<open>\<open>text.front()\<close>\<close>

definition front :: "string \<Rightarrow> char option" where
  "front text = (case text of [] \<Rightarrow> None | c # _ \<Rightarrow> Some c)"

text \<open>\<open>text.erase(pos, n)\<close>, where \<^term>\<open>None\<close> is an \<open>n\<close> that reaches past the end.\<close>

definition erase :: "string \<Rightarrow> nat \<Rightarrow> nat option \<Rightarrow> string" where
  "erase text pos n = take pos text @ (case n of None \<Rightarrow> [] | Some k \<Rightarrow> drop (pos + k) text)"

definition trim_copy :: "string \<Rightarrow> std_exn + string" where
  "trim_copy text =
     (case find_first_not_of text (set trim_ws) of
        None \<Rightarrow> Inr []
      | Some start \<Rightarrow>
          (case find_last_not_of text (set trim_ws) of
             None \<Rightarrow> substr text start None  \<comment> \<open>not reached: the first search has succeeded\<close>
           | Some end_pos \<Rightarrow> substr text start (Some (end_pos + 1 - start))))"

definition trim_left :: "string \<Rightarrow> string" where
  "trim_left text = erase text 0 (find_first_not_of text (set trim_ws))"

definition trim_right :: "string \<Rightarrow> string option" where
  "trim_right text =
     (case find_last_not_of text (set trim_ws) of
        None \<Rightarrow> (case front text of
                   None \<Rightarrow> None
                 | Some c \<Rightarrow> Some (if c = CHR '' '' then [] else text))
      | Some e \<Rightarrow> Some (erase text (e + 1) None))"

definition trim :: "string \<Rightarrow> string option" where
  "trim text = trim_right (trim_left text)"

definition trim_left_if :: "string \<Rightarrow> char \<Rightarrow> string" where
  "trim_left_if text ch = erase text 0 (find_first_not_of text {ch})"

definition trim_right_if :: "string \<Rightarrow> char \<Rightarrow> string option" where
  "trim_right_if text ch =
     (case find_last_not_of text {ch} of
        None \<Rightarrow> (case front text of
                   None \<Rightarrow> None
                 | Some c \<Rightarrow> Some (if c = ch then [] else text))
      | Some e \<Rightarrow> Some (erase text (e + 1) None))"

text \<open>
  The argument is the content of the file, \<^term>\<open>None\<close> where it cannot be opened:
  \<open>std::getline\<close> takes the characters up to the first newline, and \<open>line.erase\<close> cuts at the
  first \<open>'\0'\<close>.
\<close>

definition readLineFromFile :: "string \<Rightarrow> string option \<Rightarrow> std_exn + string" where
  "readLineFromFile path file =
     (case file of
        None \<Rightarrow> Inl (runtime_error (''Could not open file %s for reading'' @ path))
      | Some content \<Rightarrow>
          let line = takeWhile (\<lambda>c. c \<noteq> CHR 0x0A) content in
          Inr (takeWhile (\<lambda>c. c \<noteq> CHR 0x00) line))"

section \<open>Searches and dropped ends\<close>

definition drop_last_while :: "('a \<Rightarrow> bool) \<Rightarrow> 'a list \<Rightarrow> 'a list" where
  "drop_last_while P xs = rev (dropWhile P (rev xs))"

lemma dropWhile_all [simp]: "\<forall>c\<in>set s. P c \<Longrightarrow> dropWhile P s = []"
  by (simp add: dropWhile_eq_Nil_conv)

lemma length_dropWhile: "length (dropWhile P s) \<le> length s"
  by (induction s) auto

lemma find_first_not_of_eq:
  "find_first_not_of s cs =
     (if \<forall>c\<in>set s. c \<in> cs then None else Some (length (takeWhile (\<lambda>c. c \<in> cs) s)))"
  unfolding find_first_not_of_def by (induction s) auto

lemma length_takeWhile_rev:
  "length (takeWhile P (rev s)) = length s - length (drop_last_while P s)"
proof -
  have "length (takeWhile P (rev s)) + length (dropWhile P (rev s)) = length s"
    by (metis length_append length_rev takeWhile_dropWhile_id)
  then show ?thesis by (simp add: drop_last_while_def)
qed

lemma drop_last_while_nonempty: "\<not> (\<forall>c\<in>set s. P c) \<Longrightarrow> drop_last_while P s \<noteq> []"
  by (auto simp: drop_last_while_def dropWhile_eq_Nil_conv)

lemma length_drop_last_while: "length (drop_last_while P s) \<le> length s"
  by (metis drop_last_while_def length_dropWhile length_rev)

lemma find_last_not_of_eq:
  "find_last_not_of s cs =
     (if \<forall>c\<in>set s. c \<in> cs then None
      else Some (length (drop_last_while (\<lambda>c. c \<in> cs) s) - 1))"
proof (cases "\<forall>c\<in>set s. c \<in> cs")
  case True
  then show ?thesis by (simp add: find_last_not_of_def find_first_not_of_eq)
next
  case False
  have "0 < length (drop_last_while (\<lambda>c. c \<in> cs) s)"
    using drop_last_while_nonempty [of s "\<lambda>c. c \<in> cs"] False by simp
  with length_drop_last_while [of "\<lambda>c. c \<in> cs" s] False show ?thesis
    by (auto simp: find_last_not_of_def find_first_not_of_eq length_takeWhile_rev)
qed

lemma drop_last_while_take: "drop_last_while P s = take (length (drop_last_while P s)) s"
proof -
  have "s = drop_last_while P s @ rev (takeWhile P (rev s))"
    unfolding drop_last_while_def by (metis rev_append rev_rev_ident takeWhile_dropWhile_id)
  then show ?thesis by (metis append_eq_conv_conj)
qed

lemma drop_takeWhile_length: "drop (length (takeWhile P s)) s = dropWhile P s"
  by (induction s) auto

text \<open>Trimming on the left and then on the right, as the two searches compute it.\<close>

definition strip :: "('a \<Rightarrow> bool) \<Rightarrow> 'a list \<Rightarrow> 'a list" where
  "strip P s = drop_last_while P (dropWhile P s)"

lemma strip_all: "\<forall>c\<in>set s. P c \<Longrightarrow> strip P s = []"
  by (simp add: strip_def drop_last_while_def)

lemma drop_last_while_append:
  "\<not> (\<forall>c\<in>set t. P c) \<Longrightarrow> drop_last_while P (s @ t) = s @ drop_last_while P t"
  by (auto simp: drop_last_while_def dropWhile_append)

lemma drop_last_while_dropWhile:
  assumes "\<not> (\<forall>c\<in>set s. P c)"
  shows "drop_last_while P s = takeWhile P s @ drop_last_while P (dropWhile P s)"
proof -
  have "\<not> (\<forall>c\<in>set (dropWhile P s). P c)"
    using assms dropWhile_eq_Nil_conv hd_dropWhile hd_in_set by metis
  from drop_last_while_append [OF this, of "takeWhile P s"] show ?thesis by simp
qed

lemma strip_ends: "strip P s \<noteq> [] \<Longrightarrow> \<not> P (hd (strip P s)) \<and> \<not> P (last (strip P s))"
proof
  assume ne: "strip P s \<noteq> []"
  let ?d = "dropWhile P s"
  have dne: "?d \<noteq> []" using ne unfolding strip_def drop_last_while_def by (metis dropWhile.simps(1) rev.simps(1))
  have "hd (strip P s) = hd ?d"
    using ne drop_last_while_take [of P ?d] hd_take [of "length (drop_last_while P ?d)" ?d]
    by (metis length_greater_0_conv strip_def)
  with hd_dropWhile [of P s] dne show "\<not> P (hd (strip P s))" by simp
  show "\<not> P (last (strip P s))"
    using ne hd_dropWhile [of P "rev ?d"] by (simp add: strip_def drop_last_while_def last_rev)
qed

section \<open>What the functions compute\<close>

abbreviation is_ws :: "char \<Rightarrow> bool" where "is_ws c \<equiv> c \<in> set trim_ws"

lemma trim_copy_strip: "trim_copy s = Inr (strip is_ws s)"
proof (cases "\<forall>c\<in>set s. is_ws c")
  case True
  then show ?thesis by (simp add: trim_copy_def find_first_not_of_eq strip_all)
next
  case False
  let ?t = "takeWhile is_ws s" and ?r = "drop_last_while is_ws (dropWhile is_ws s)"
  have r: "?r \<noteq> []" using False drop_last_while_nonempty [of "dropWhile is_ws s" is_ws]
      dropWhile_eq_Nil_conv hd_dropWhile hd_in_set by metis
  have e: "find_last_not_of s (set trim_ws) = Some (length ?t + length ?r - 1)"
    using drop_last_while_dropWhile [OF False] False by (simp add: find_last_not_of_eq)
  have len: "length ?t + length ?r - 1 + 1 - length ?t = length ?r"
    using r by (cases ?r) auto
  have "take (length ?r) (drop (length ?t) s) = ?r"
    using drop_last_while_take [of is_ws "dropWhile is_ws s"] by (simp add: drop_takeWhile_length)
  moreover have "find_first_not_of s (set trim_ws) = Some (length ?t)"
    using False by (simp add: find_first_not_of_eq)
  ultimately show ?thesis
    unfolding trim_copy_def using e len length_takeWhile_le [of is_ws s]
    by (simp add: substr_def strip_def not_less)
qed

lemma trim_left_dropWhile: "trim_left s = dropWhile is_ws s"
  by (simp add: trim_left_def erase_def find_first_not_of_eq drop_takeWhile_length)

lemma trim_right_drop: "\<not> (\<forall>c\<in>set s. is_ws c) \<Longrightarrow> trim_right s = Some (drop_last_while is_ws s)"
  using drop_last_while_nonempty [of s is_ws] drop_last_while_take [of is_ws s]
  by (auto simp: trim_right_def find_last_not_of_eq erase_def Suc_diff_Suc
      simp flip: length_greater_0_conv)

lemma trim_right_all_ws:
  "\<forall>c\<in>set s. is_ws c \<Longrightarrow>
   trim_right s = (case s of [] \<Rightarrow> None | c # _ \<Rightarrow> Some (if c = CHR '' '' then [] else s))"
  by (auto simp: trim_right_def find_last_not_of_eq front_def split: list.splits)

lemma trim_eq: "trim s = (if \<forall>c\<in>set s. is_ws c then None else Some (strip is_ws s))"
proof (cases "\<forall>c\<in>set s. is_ws c")
  case True
  then show ?thesis by (simp add: trim_def trim_left_dropWhile trim_right_all_ws [of "[]"])
next
  case False
  then have "\<not> (\<forall>c\<in>set (dropWhile is_ws s). is_ws c)"
    using dropWhile_eq_Nil_conv hd_dropWhile hd_in_set by metis
  with False show ?thesis by (simp add: trim_def trim_left_dropWhile trim_right_drop strip_def)
qed

lemma readLineFromFile_take:
  "readLineFromFile path (Some content) =
     Inr (takeWhile (\<lambda>c. c \<noteq> CHR 0x0A \<and> c \<noteq> CHR 0x00) content)"
  unfolding readLineFromFile_def by (induction content) auto

section \<open>Properties\<close>

text \<open>
  C4: \<open>trim_copy\<close> never throws, and cuts exactly the white space at the two ends: what it cuts is
  white space, and what it returns neither starts nor ends with white space.
\<close>

theorem trim_copy_cuts_white_space:
  "\<exists>left r right. trim_copy s = Inr r \<and> s = left @ r @ right \<and>
     list_all is_ws left \<and> list_all is_ws right \<and>
     (r = [] \<or> \<not> is_ws (hd r) \<and> \<not> is_ws (last r))"
proof -
  let ?d = "dropWhile is_ws s"
  have "s = takeWhile is_ws s @ strip is_ws s @ rev (takeWhile is_ws (rev ?d))"
    unfolding strip_def drop_last_while_def
    by (metis rev_append rev_rev_ident takeWhile_dropWhile_id)
  moreover have "list_all is_ws (takeWhile is_ws s)" "list_all is_ws (rev (takeWhile is_ws (rev ?d)))"
    by (auto simp: list_all_iff dest: set_takeWhileD)
  moreover have "strip is_ws s = [] \<or> \<not> is_ws (hd (strip is_ws s)) \<and> \<not> is_ws (last (strip is_ws s))"
    using strip_ends by blast
  ultimately show ?thesis using trim_copy_strip [of s] by blast
qed

text \<open>
  \<open>trim\<close> in place returns what \<open>trim_copy\<close> returns where the text has a character that is not
  white space, and is undefined (it reads \<open>front()\<close> of an empty text) everywhere else.
\<close>

theorem trim_in_place:
  "trim s = (if list_all is_ws s then None
     else case trim_copy s of Inl _ \<Rightarrow> None | Inr r \<Rightarrow> Some r)"
  by (simp add: trim_eq trim_copy_strip list_all_iff)

text \<open>
  Applied on its own, \<open>trim_right\<close> cuts the white space at the end of every text with another
  character, and of the texts of white space only it empties just those that start with a space.
\<close>

theorem trim_right_cases:
  "trim_right s =
     (if \<not> list_all is_ws s then Some (rev (dropWhile is_ws (rev s)))
      else if s = [] then None
      else if hd s = CHR '' '' then Some [] else Some s)"
  by (cases s) (auto simp: trim_right_drop trim_right_all_ws list_all_iff drop_last_while_def)

end
