(* ===== verification/Time_Convert.thy ===== *)
theory Time_Convert
  imports Prelude
begin

text \<open>
  \<open>hbk::sys::TimeConvert\<close> (\<^verbatim>\<open>lib/sys/timeconvert.cpp\<close>) at the widths of the code. A
  \<open>double\<close> is the rational number it stands for: \<open>modf\<close>, the product with \<open>2^32\<close> and the
  conversions to \<open>uint32_t\<close> are exact on it, and \<^term>\<open>None\<close> is a conversion out of range, which
  C++ leaves undefined. Where \<open>ntp2double\<close> rounds, the rounding is a parameter. The lemmas give the
  values as integers and the round trips between fractions and sub-second units.
\<close>

definition ntpSecondOffset :: u32 where
  "ntpSecondOffset = 2208988800"

datatype NtpStruct = NtpStruct (seconds: u32) (fractions: u32)

record timeval =
  tv_sec :: u64   \<comment> \<open>\<open>time_t\<close>, two's complement\<close>
  tv_usec :: u64

definition microseconds2Ntpfraction :: "u32 \<Rightarrow> u32" where
  "microseconds2Ntpfraction microseconds =
     (let res = push_bit 32 (ucast microseconds :: u64); res = res div 1000000 in ucast res)"

definition nanoseconds2Ntpfraction :: "u32 \<Rightarrow> u32" where
  "nanoseconds2Ntpfraction nanoseconds =
     (let res = push_bit 32 (ucast nanoseconds :: u64); res = res div 1000000000 in ucast res)"

definition nanoseconds2NtpStruct :: "u64 \<Rightarrow> NtpStruct" where
  "nanoseconds2NtpStruct nanoseconds =
     (let res = push_bit 32 nanoseconds
      in NtpStruct (ucast (nanoseconds div 1000000000)) (ucast (res div 1000000000)))"

definition unixtime2Ntp :: "timeval \<Rightarrow> u64" where
  "unixtime2Ntp unixTime =
     (let ntptimestamp = tv_sec unixTime + ucast ntpSecondOffset;
          ntptimestamp = push_bit 32 ntptimestamp
      in ntptimestamp OR ucast (microseconds2Ntpfraction (ucast (tv_usec unixTime))))"

definition unixtime2NtpStruct :: "timeval \<Rightarrow> NtpStruct" where
  "unixtime2NtpStruct unixTime =
     NtpStruct (ucast (tv_sec unixTime + ucast ntpSecondOffset))
       (microseconds2Ntpfraction (ucast (tv_usec unixTime)))"

text \<open>\<open>ntpfraction + 1\<close> is a 32-bit sum.\<close>

definition ntpfraction2microseconds :: "u32 \<Rightarrow> u32" where
  "ntpfraction2microseconds ntpfraction =
     (let res = (ucast (ntpfraction + 1) :: u64); res = res * 1000000; res = drop_bit 32 res
      in ucast res)"

text \<open>Here the increment is made on the 64-bit value.\<close>

definition ntpfraction2nanoseconds :: "u32 \<Rightarrow> u32" where
  "ntpfraction2nanoseconds ntpfraction =
     (let res = (ucast ntpfraction :: u64); res = res + 1; res = res * 1000000000;
          res = drop_bit 32 res
      in ucast res)"

section \<open>Times given as \<open>double\<close>\<close>

definition trunc :: "rat \<Rightarrow> int" where
  "trunc x = (if 0 \<le> x then \<lfloor>x\<rfloor> else \<lceil>x\<rceil>)"

text \<open>\<open>modf\<close>: the fraction and the integral part, both with the sign of the argument.\<close>

definition modf :: "rat \<Rightarrow> rat \<times> rat" where
  "modf x = (x - of_int (trunc x), of_int (trunc x))"

text \<open>\<open>static_cast<uint32_t>(x)\<close>\<close>

definition double_to_u32 :: "rat \<Rightarrow> u32 option" where
  "double_to_u32 x = (if 0 \<le> trunc x \<and> trunc x < 2 ^ 32 then Some (of_int (trunc x)) else None)"

definition unixtime2Ntp_double :: "rat \<Rightarrow> u64 option" where
  "unixtime2Ntp_double unixTime =
     (let (fractionDouble, secondsDouble) = modf unixTime in
      case double_to_u32 secondsDouble of None \<Rightarrow> None | Some secs \<Rightarrow>
      case double_to_u32 (fractionDouble * 2 ^ 32) of None \<Rightarrow> None | Some fraction \<Rightarrow>
        let ntptimestamp = (ucast (secs + ntpSecondOffset) :: u64);
            ntptimestamp = push_bit 32 ntptimestamp
        in Some (ntptimestamp OR ucast fraction))"

definition unixtime2NtpStruct_double :: "rat \<Rightarrow> NtpStruct option" where
  "unixtime2NtpStruct_double unixTime =
     (let (fractionDouble, secondsDouble) = modf unixTime in
      case double_to_u32 secondsDouble of None \<Rightarrow> None | Some secs \<Rightarrow>
      case double_to_u32 (fractionDouble * 2 ^ 32) of None \<Rightarrow> None | Some fraction \<Rightarrow>
        Some (NtpStruct (secs + ntpSecondOffset) fraction))"

text \<open>
  Every operation on \<open>double\<close> here is exact but the last addition, whose result is rounded.
\<close>

definition ntp2double :: "(rat \<Rightarrow> rat) \<Rightarrow> u64 \<Rightarrow> rat" where
  "ntp2double round_double ntp =
     (let fractionDouble = of_int (uint ((ucast ntp :: u32) AND 0xffffffff));
          fractionDouble = fractionDouble / 2 ^ 32;
          valueDouble = of_int (uint (ucast (drop_bit 32 ntp) :: u32));
          valueDouble = valueDouble - of_int (uint ntpSecondOffset)
      in round_double (valueDouble + fractionDouble))"

section \<open>Values as integers\<close>

lemma uint_ucast_u64 [simp]: "uint (ucast (x :: u32) :: u64) = uint x"
  using uint_lt2p [of x] by (simp add: unsigned_ucast_eq take_bit_int_eq_self)

lemma u32_bound: "uint (x :: u32) < 2 ^ 32" "0 \<le> uint x"
  using uint_lt2p [of x] by auto

lemma u64_bound: "uint (x :: u64) < 2 ^ 64" "0 \<le> uint x"
  using uint_lt2p [of x] by auto

lemma uint_push_bit_u64: "uint (push_bit 32 (x :: u64)) = (uint x * 2 ^ 32) mod 2 ^ 64"
  by (simp add: push_bit_eq_mult uint_word_ariths)

lemma uint_ucast_u32: "uint (ucast (x :: u64) :: u32) = uint x mod 2 ^ 32"
  by (simp add: unsigned_ucast_eq take_bit_eq_mod)

lemma micro_int:
  "uint us < 1000000 \<Longrightarrow> uint (microseconds2Ntpfraction us) = uint us * 2 ^ 32 div 1000000"
proof -
  assume b: "uint us < 1000000"
  have lt: "uint us * 2 ^ 32 < 2 ^ 64" using u32_bound [of us] by simp
  have "uint us * 2 ^ 32 div 1000000 < 2 ^ 32" using b by simp
  then show ?thesis
    using lt u32_bound(2) [of us]
    by (simp add: microseconds2Ntpfraction_def uint_ucast_u32 uint_div uint_push_bit_u64
        mod_pos_pos_trivial pos_imp_zdiv_nonneg_iff)
qed

lemma nano_int:
  "uint ns < 1000000000 \<Longrightarrow> uint (nanoseconds2Ntpfraction ns) = uint ns * 2 ^ 32 div 1000000000"
proof -
  assume b: "uint ns < 1000000000"
  have lt: "uint ns * 2 ^ 32 < 2 ^ 64" using u32_bound [of ns] by simp
  have "uint ns * 2 ^ 32 div 1000000000 < 2 ^ 32" using b by simp
  then show ?thesis
    using lt u32_bound(2) [of ns]
    by (simp add: nanoseconds2Ntpfraction_def uint_ucast_u32 uint_div uint_push_bit_u64
        mod_pos_pos_trivial pos_imp_zdiv_nonneg_iff)
qed

lemma uint_drop32: "uint (drop_bit 32 (x :: u64)) = uint x div 2 ^ 32"
  by (simp add: drop_bit_eq_div uint_div)

lemma unnano_int:
  "uint (ntpfraction2nanoseconds f) = (uint f + 1) * 1000000000 div 2 ^ 32"
proof -
  have b: "uint f + 1 \<le> 2 ^ 32" "0 \<le> uint f" using u32_bound [of f] by auto
  have m: "(uint f + 1) * 1000000000 < 2 ^ 64" "uint f + 1 < 2 ^ 64" using b by simp_all
  have d: "(uint f + 1) * 1000000000 div 2 ^ 32 < 2 ^ 32" using b by simp
  show ?thesis
    using m d b
    by (simp add: ntpfraction2nanoseconds_def Let_def uint_ucast_u32 uint_drop32 uint_word_ariths
        mod_pos_pos_trivial pos_imp_zdiv_nonneg_iff)
qed

lemma unmicro_int:
  "uint f < 2 ^ 32 - 1 \<Longrightarrow> uint (ntpfraction2microseconds f) = (uint f + 1) * 1000000 div 2 ^ 32"
proof -
  assume f: "uint f < 2 ^ 32 - 1"
  have m: "(uint f + 1) * 1000000 < 2 ^ 64" "uint f + 1 < 2 ^ 32" using f by simp_all
  have d: "(uint f + 1) * 1000000 div 2 ^ 32 < 2 ^ 32" using f by simp
  show ?thesis
    using m d u32_bound(2) [of f]
    by (simp add: ntpfraction2microseconds_def Let_def uint_ucast_u32 uint_drop32 uint_word_ariths
        mod_pos_pos_trivial pos_imp_zdiv_nonneg_iff)
qed

text \<open>Rounding down to fractions and, one up, back again is the identity on finer units.\<close>

lemma scale_round_trip:
  fixes u n m :: int
  assumes "0 \<le> u" "0 < n" "n < m"
  shows "(u * m div n + 1) * n div m = u"
proof -
  let ?q = "u * m div n"
  have lo: "?q * n \<le> u * m" and hi: "u * m < ?q * n + n"
    using assms(2) div_mult_mod_eq [of "u * m" n] pos_mod_bound [of n "u * m"]
      pos_mod_sign [of n "u * m"] by linarith+
  have "(?q + 1) * n = m * u + ((?q + 1) * n - u * m)" by (simp add: algebra_simps)
  moreover have "0 \<le> (?q + 1) * n - u * m" "(?q + 1) * n - u * m < m"
    using lo hi assms(3) by (simp_all add: algebra_simps)
  ultimately show ?thesis by (rule int_div_pos_eq)
qed

section \<open>Time stamps of 64 bits\<close>

text \<open>The 64-bit time stamp of a pair of seconds and fractions.\<close>

definition ntp_word :: "NtpStruct \<Rightarrow> u64" where
  "ntp_word t = push_bit 32 (ucast (seconds t)) OR ucast (fractions t)"

lemma push_or_plus: "push_bit 32 x OR (ucast (y :: u32) :: u64) = push_bit 32 x + ucast y"
  by (rule disjunctive_add [symmetric])
     (auto simp: bit_push_bit_iff bit_ucast_iff dest: bit_imp_le_length)

lemma uint_ntp_word: "uint (ntp_word t) = uint (seconds t) * 2 ^ 32 + uint (fractions t)"
proof -
  have "uint (seconds t) * 2 ^ 32 + uint (fractions t) < 2 ^ 64"
    using u32_bound [of "seconds t"] u32_bound [of "fractions t"] by simp
  moreover have "uint (seconds t) * 2 ^ 32 < 2 ^ 64" using u32_bound [of "seconds t"] by simp
  ultimately show ?thesis
    by (simp add: ntp_word_def push_or_plus uint_word_ariths uint_push_bit_u64)
qed

lemma push_ucast_u32: "push_bit 32 (ucast (ucast (x :: u64) :: u32) :: u64) = push_bit 32 x"
  by (rule bit_word_eqI) (auto simp: bit_push_bit_iff bit_ucast_iff)

lemma ntp_word_unixtime: "ntp_word (unixtime2NtpStruct t) = unixtime2Ntp t"
  by (simp add: ntp_word_def unixtime2NtpStruct_def unixtime2Ntp_def push_ucast_u32)

lemma ntp_word_unixtime_double:
  "map_option ntp_word (unixtime2NtpStruct_double x) = unixtime2Ntp_double x"
  by (simp add: ntp_word_def unixtime2NtpStruct_double_def unixtime2Ntp_double_def
      split: option.splits prod.splits)

text \<open>Pairs of a high and a low half compare as the numbers they make.\<close>

lemma halves_le_iff:
  fixes a b c d :: int
  assumes "0 \<le> b" "b < 4294967296" "0 \<le> d" "d < 4294967296"
  shows "a * 4294967296 + b \<le> c * 4294967296 + d \<longleftrightarrow> a < c \<or> a = c \<and> b \<le> d"
proof (cases a c rule: linorder_cases)
  case less
  then have "a + 1 \<le> c" by simp
  with less assms show ?thesis by linarith
next
  case greater
  then have "c + 1 \<le> a" by simp
  with greater assms show ?thesis by linarith
qed (use assms in simp)

lemma halves_eq:
  fixes a b c d :: int
  assumes "0 \<le> b" "b < 4294967296" "0 \<le> d" "d < 4294967296"
    and eq: "a * 4294967296 + b = c * 4294967296 + d"
  shows "a = c \<and> b = d"
proof -
  have "a = c"
  proof (cases a c rule: linorder_cases)
    case less
    then have "a + 1 \<le> c" by simp
    with assms show ?thesis by linarith
  next
    case greater
    then have "c + 1 \<le> a" by simp
    with assms show ?thesis by linarith
  qed
  with eq show ?thesis by simp
qed

lemma scaled_remainder:
  fixes n k m :: int
  assumes "0 < m" "0 \<le> k"
  shows "n mod m * k div m + n div m * k = n * k div m" "0 \<le> n mod m * k div m"
    "0 < k \<Longrightarrow> n mod m * k div m < k" "0 < k \<Longrightarrow> n * k div m mod k = n mod m * k div m"
proof -
  have "n * k = n mod m * k + (n div m * k) * m"
    by (metis distrib_right div_mult_mod_eq add.commute mult.assoc mult.commute)
  then show sum: "n mod m * k div m + n div m * k = n * k div m"
    using assms(1) by (metis div_mult_self1 add.commute less_irrefl)
  show nn: "0 \<le> n mod m * k div m" using assms by (simp add: pos_imp_zdiv_nonneg_iff)
  assume "0 < k"
  then have "n mod m * k < k * m" using assms by (simp add: mult.commute)
  moreover have "n mod m * k div m * m \<le> n mod m * k"
    using assms(1) div_mult_mod_eq [of "n mod m * k" m] pos_mod_sign [of m "n mod m * k"] by linarith
  ultimately have "n mod m * k div m * m < k * m" by linarith
  then show lt: "n mod m * k div m < k" using assms(1) by (simp add: mult_less_cancel_right)
  show "n * k div m mod k = n mod m * k div m"
    using mod_mult_self1 [of "n mod m * k div m" "n div m" k] mod_pos_pos_trivial [OF nn lt] sum
    by simp
qed

lemma ntp_word_inject: "ntp_word a = ntp_word b \<Longrightarrow> a = b"
proof -
  assume eq: "ntp_word a = ntp_word b"
  have "uint (seconds a) * 2 ^ 32 + uint (fractions a) = uint (seconds b) * 2 ^ 32 + uint (fractions b)"
    using eq uint_ntp_word by metis
  from halves_eq [OF _ _ _ _ this [simplified]]
  have "uint (seconds a) = uint (seconds b) \<and> uint (fractions a) = uint (fractions b)"
    using u32_bound [of "fractions a"] u32_bound [of "fractions b"] by simp
  then show "a = b" by (cases a, cases b) (simp add: word_uint_eq_iff)
qed

text \<open>Time stamps are ordered as their 64-bit words are.\<close>

instantiation NtpStruct :: linorder
begin

definition less_eq_NtpStruct :: "NtpStruct \<Rightarrow> NtpStruct \<Rightarrow> bool" where
  "a \<le> b \<longleftrightarrow> ntp_word a \<le> ntp_word b"

definition less_NtpStruct :: "NtpStruct \<Rightarrow> NtpStruct \<Rightarrow> bool" where
  "a < b \<longleftrightarrow> ntp_word a < ntp_word b"

instance
  by standard (auto simp: less_eq_NtpStruct_def less_NtpStruct_def dest: ntp_word_inject)

end

lemma NtpStruct_less_eq:
  "a \<le> b \<longleftrightarrow> seconds a < seconds b \<or> seconds a = seconds b \<and> fractions a \<le> fractions b"
  using u32_bound [of "fractions a"] u32_bound [of "fractions b"]
  by (simp add: less_eq_NtpStruct_def word_le_def word_less_def uint_ntp_word word_uint_eq_iff
      halves_le_iff)

text \<open>The seconds and fractions a time in nanoseconds stands for, below and above \<open>2^32\<close>.\<close>

lemma nanoseconds2NtpStruct_int:
  assumes "uint ns < 2 ^ 32"
  shows "uint (seconds (nanoseconds2NtpStruct ns)) = uint ns div 1000000000"
    and "uint (fractions (nanoseconds2NtpStruct ns)) = uint ns mod 1000000000 * 2 ^ 32 div 1000000000"
proof -
  let ?n = "uint ns"
  have n: "0 \<le> ?n" by simp
  have lt: "?n * 2 ^ 32 < 2 ^ 64" using assms by simp
  show "uint (seconds (nanoseconds2NtpStruct ns)) = ?n div 1000000000"
    using assms by (simp add: nanoseconds2NtpStruct_def uint_ucast_u32 uint_div
        mod_pos_pos_trivial pos_imp_zdiv_nonneg_iff)
  have "(?n * 2 ^ 32 div 1000000000) mod 2 ^ 32 = ?n mod 1000000000 * 2 ^ 32 div 1000000000"
    by (rule scaled_remainder(4)) simp_all
  then show "uint (fractions (nanoseconds2NtpStruct ns)) = ?n mod 1000000000 * 2 ^ 32 div 1000000000"
    using lt n by (simp add: nanoseconds2NtpStruct_def uint_ucast_u32 uint_div uint_push_bit_u64
        mod_pos_pos_trivial)
qed

section \<open>Conversions from and to \<open>double\<close>\<close>

lemma trunc_of_int [simp]: "trunc (of_int n) = n"
  by (simp add: trunc_def)

lemma unixtime2NtpStruct_double_eq:
  assumes "0 \<le> x" "x < 2 ^ 32"
  shows "unixtime2NtpStruct_double x =
    Some (NtpStruct (of_int \<lfloor>x\<rfloor> + ntpSecondOffset) (of_int \<lfloor>frac x * 2 ^ 32\<rfloor>))"
proof -
  have s: "0 \<le> \<lfloor>x\<rfloor>" "\<lfloor>x\<rfloor> < 2 ^ 32" using assms by (simp_all add: floor_less_iff)
  have f: "0 \<le> frac x * 2 ^ 32" "\<lfloor>frac x * 2 ^ 32\<rfloor> < 2 ^ 32"
    using frac_ge_0 [of x] frac_lt_1 [of x] by (simp_all add: floor_less_iff)
  have "modf x = (frac x, of_int \<lfloor>x\<rfloor>)" using assms by (simp add: modf_def trunc_def frac_def)
  moreover have "trunc (frac x * 2 ^ 32) = \<lfloor>frac x * 2 ^ 32\<rfloor>" using f by (simp add: trunc_def)
  ultimately show ?thesis using s f
    by (simp add: unixtime2NtpStruct_double_def double_to_u32_def)
qed

lemma unixtime2Ntp_double_negative: "x \<le> -1 \<Longrightarrow> unixtime2Ntp_double x = None"
proof -
  assume x: "x \<le> -1"
  then have "trunc x \<le> -1" by (simp add: trunc_def ceiling_le_iff)
  then show ?thesis by (simp add: unixtime2Ntp_double_def modf_def double_to_u32_def)
qed

lemma ntp2double_word:
  "ntp2double r (ntp_word t) =
     r (of_int (uint (seconds t)) - of_int (uint ntpSecondOffset) + of_int (uint (fractions t)) / 2 ^ 32)"
proof -
  have "uint (ucast (ntp_word t) :: u32) = uint (fractions t)"
    using u32_bound [of "fractions t"] by (simp add: uint_ucast_u32 uint_ntp_word)
  moreover have "uint (ucast (drop_bit 32 (ntp_word t)) :: u32) = uint (seconds t)"
    using u32_bound [of "fractions t"] u32_bound [of "seconds t"]
    by (simp add: uint_ucast_u32 uint_drop32 uint_ntp_word)
  moreover have "(w :: u32) AND 0xffffffff = w" for w
  proof -
    have "(0xffffffff :: u32) = -1" by simp
    then show ?thesis by (simp only: and.right_neutral)
  qed
  ultimately show ?thesis by (simp add: ntp2double_def Let_def)
qed

section \<open>Round trips and order\<close>

lemma micro_round_trip:
  "us < 1000000 \<Longrightarrow> ntpfraction2microseconds (microseconds2Ntpfraction us) = us"
proof -
  assume "us < 1000000"
  then have b: "uint us < 1000000" by (simp add: word_less_def)
  then have "uint us * 2 ^ 32 div 1000000 < 2 ^ 32 - 1"
    using zdiv_mono1 [of "uint us * 2 ^ 32" "999999 * 2 ^ 32" 1000000] by simp
  then have "uint (ntpfraction2microseconds (microseconds2Ntpfraction us)) =
      (uint us * 2 ^ 32 div 1000000 + 1) * 1000000 div 2 ^ 32"
    by (subst unmicro_int) (simp_all only: micro_int [OF b])
  also have "\<dots> = uint us" by (rule scale_round_trip) simp_all
  finally show ?thesis by (simp add: word_uint_eq_iff)
qed

lemma nano_round_trip:
  "ns < 1000000000 \<Longrightarrow> ntpfraction2nanoseconds (nanoseconds2Ntpfraction ns) = ns"
proof -
  assume "ns < 1000000000"
  then have b: "uint ns < 1000000000" by (simp add: word_less_def)
  have "uint (ntpfraction2nanoseconds (nanoseconds2Ntpfraction ns)) =
      (uint ns * 2 ^ 32 div 1000000000 + 1) * 1000000000 div 2 ^ 32"
    by (simp only: unnano_int nano_int [OF b])
  also have "\<dots> = uint ns" by (rule scale_round_trip) simp_all
  finally show ?thesis by (simp add: word_uint_eq_iff)
qed

text \<open>Microseconds and their fractions, rounded down, are in the same order.\<close>

lemma micro_fraction_le:
  fixes a b :: int
  assumes "0 \<le> a" "0 \<le> b"
  shows "a * 4294967296 div 1000000 \<le> b * 4294967296 div 1000000 \<longleftrightarrow> a \<le> b"
proof
  assume le: "a * 4294967296 div 1000000 \<le> b * 4294967296 div 1000000"
  have "(a * 4294967296 div 1000000 + 1) * 1000000 div 4294967296 \<le>
      (b * 4294967296 div 1000000 + 1) * 1000000 div 4294967296"
    by (rule zdiv_mono1) (use le in simp_all)
  moreover have "(x * 4294967296 div 1000000 + 1) * 1000000 div 4294967296 = x" if "0 \<le> x" for x :: int
    by (rule scale_round_trip) (use that in simp_all)
  ultimately show "a \<le> b" using assms by simp
qed (simp add: zdiv_mono1)

lemma ntp_seconds:
  "tv_sec t < 2085978496 \<Longrightarrow> uint (seconds (unixtime2NtpStruct t)) = uint (tv_sec t) + 2208988800"
proof -
  assume "tv_sec t < 2085978496"
  then have "uint (tv_sec t) < 2085978496" by (simp add: word_less_def)
  then show ?thesis
    by (simp add: unixtime2NtpStruct_def ntpSecondOffset_def uint_ucast_u32 uint_word_ariths
        mod_pos_pos_trivial)
qed

lemma ntp_fractions:
  "tv_usec t < 1000000 \<Longrightarrow>
   uint (fractions (unixtime2NtpStruct t)) = uint (tv_usec t) * 4294967296 div 1000000"
proof -
  assume "tv_usec t < 1000000"
  then have "uint (tv_usec t) < 1000000" by (simp add: word_less_def)
  then show ?thesis
    by (simp add: unixtime2NtpStruct_def uint_ucast_u32 mod_pos_pos_trivial micro_int)
qed

section \<open>Properties\<close>

text \<open>
  C6: a number of microseconds below a second survives the conversion to an NTP fraction and back,
  and so does a number of nanoseconds.
\<close>

theorem fraction_round_trips:
  "(us < 1000000 \<longrightarrow> ntpfraction2microseconds (microseconds2Ntpfraction us) = us) \<and>
   (ns < 1000000000 \<longrightarrow> ntpfraction2nanoseconds (nanoseconds2Ntpfraction ns) = ns)"
  using micro_round_trip nano_round_trip by blast

theorem fraction_round_trips_witness:
  "ntpfraction2microseconds (microseconds2Ntpfraction 999999) = 999999 \<and>
   ntpfraction2nanoseconds (nanoseconds2Ntpfraction 123456789) = 123456789"
  using fraction_round_trips [of 999999 123456789] by simp

text \<open>
  On times from 1970 on that the 32 bits of seconds hold, with a number of microseconds below
  a second, the 64-bit NTP time stamps order as the times do; in particular distinct times have
  distinct time stamps. The stamp of 64 bits and the pair of seconds and fractions agree.
\<close>

theorem unixtime2Ntp_order:
  assumes "tv_sec t < 2085978496" "tv_usec t < 1000000" "tv_sec u < 2085978496" "tv_usec u < 1000000"
  shows "(unixtime2Ntp t \<le> unixtime2Ntp u \<longleftrightarrow>
      tv_sec t < tv_sec u \<or> tv_sec t = tv_sec u \<and> tv_usec t \<le> tv_usec u) \<and>
    unixtime2Ntp t = ntp_word (unixtime2NtpStruct t)"
proof -
  have le: "unixtime2Ntp t \<le> unixtime2Ntp u \<longleftrightarrow> unixtime2NtpStruct t \<le> unixtime2NtpStruct u"
    by (simp add: less_eq_NtpStruct_def ntp_word_unixtime)
  show ?thesis
    using ntp_seconds [OF assms(1)] ntp_seconds [OF assms(3)]
      ntp_fractions [OF assms(2)] ntp_fractions [OF assms(4)]
    by (simp add: le NtpStruct_less_eq word_uint_eq_iff [where 'a = 32] word_uint_eq_iff [of "tv_sec t"]
        word_le_def [where 'a = 32] word_less_def micro_fraction_le [simplified] ntp_word_unixtime
        word_le_def [of "tv_usec t"] del: linorder_not_less not_less)
qed

theorem unixtime2Ntp_order_witness:
  "unixtime2Ntp \<lparr>tv_sec = 1700000000, tv_usec = 999999\<rparr> \<le> unixtime2Ntp \<lparr>tv_sec = 1700000001, tv_usec = 0\<rparr>"
  by (rule unixtime2Ntp_order [THEN conjunct1, THEN iffD2]) simp_all

text \<open>
  Below \<open>2^32\<close> nanoseconds the structure holds the seconds and the fraction of the rest, rounded
  down. From there on the shift of the 64-bit number loses its upper half: five seconds get a
  fraction of seven tenths of a second.
\<close>

theorem nanoseconds2NtpStruct_range:
  "(ns < 4294967296 \<longrightarrow>
      uint (seconds (nanoseconds2NtpStruct ns)) = uint ns div 1000000000 \<and>
      uint (fractions (nanoseconds2NtpStruct ns)) = uint ns mod 1000000000 * 2 ^ 32 div 1000000000) \<and>
   nanoseconds2NtpStruct 5000000000 = NtpStruct 5 3028092406"
proof -
  have "nanoseconds2NtpStruct 5000000000 = NtpStruct 5 3028092406"
    by (simp add: nanoseconds2NtpStruct_def word_uint_eq_iff uint_div uint_push_bit_u64 uint_ucast_u32)
  then show ?thesis using nanoseconds2NtpStruct_int [of ns] by (simp add: word_less_def)
qed

theorem nanoseconds2NtpStruct_range_witness:
  "uint (fractions (nanoseconds2NtpStruct 1500000000)) = 2 ^ 31"
  using nanoseconds2NtpStruct_range [of 1500000000] by simp

end
