(* ===== verification/Ipv4_Address.thy ===== *)
theory Ipv4_Address
  imports Str_Split
begin

text \<open>
  \<open>hbk::communication::Ipv4Address\<close> (\<^verbatim>\<open>lib/communication/ipv4address.cpp\<close>). Addresses are
  32-bit words in host order, so \<open>htonl\<close>, applied by the code to what \<open>inet_pton\<close> has stored in
  network order, is the identity here. \<open>inet_pton(AF_INET, \<dots>)\<close> is the parameter \<open>pton\<close> of the
  definitions, and the locale \<open>inet4\<close> states what POSIX promises of it: it accepts the dotted
  decimal form \<open>dotted\<close> that \<open>inet_ntoa\<close> prints, and nothing else. The lemmas give the set of
  addresses each test accepts, and show that prefixes and netmasks convert into each other.
\<close>

record Ipv4Address =
  address :: string
  netmask :: string

section \<open>The dotted decimal form\<close>

definition octet :: "nat \<Rightarrow> u32 \<Rightarrow> u32" where
  "octet i a = drop_bit (8 * i) a AND 0xff"

definition octets :: "u32 \<Rightarrow> nat list" where
  "octets a = [unat (octet 3 a), unat (octet 2 a), unat (octet 1 a), unat (octet 0 a)]"

definition dotted :: "u32 \<Rightarrow> string" where
  "dotted a = join ''.'' (map to_string (octets a))"

section \<open>The code\<close>

definition ipv4_equal :: "Ipv4Address \<Rightarrow> Ipv4Address \<Rightarrow> bool" where
  "ipv4_equal this op = (if address this = address op \<and> netmask this = netmask op then True else False)"

definition isApipaAddress :: "(string \<Rightarrow> u32 option) \<Rightarrow> string \<Rightarrow> bool" where
  "isApipaAddress pton addr =
     (if std_count addr CHR ''.'' \<noteq> 3 then False
      else if pton addr = None then False
      else find_from addr ''169.254'' 0 = Some 0)"

definition isValidManualAddress :: "(string \<Rightarrow> u32 option) \<Rightarrow> string \<Rightarrow> bool" where
  "isValidManualAddress pton ip =
     (if std_count ip CHR ''.'' \<noteq> 3 then False
      else case pton ip of None \<Rightarrow> False | Some bigAddress \<Rightarrow>
        if bigAddress = 0 then True
        else let upperMost = (ucast (drop_bit 24 bigAddress) :: u8) in
          if upperMost = 0 then False
          else if upperMost = 127 then False
          else if 224 \<le> upperMost then False
          else if isApipaAddress pton ip then False
          else True)"

definition isValidNetmask :: "(string \<Rightarrow> u32 option) \<Rightarrow> string \<Rightarrow> bool" where
  "isValidNetmask pton ip =
     (if std_count ip CHR ''.'' \<noteq> 3 then False
      else case pton ip of None \<Rightarrow> False | Some bigAddress \<Rightarrow>
        if bigAddress = 0 then False
        else if bigAddress = 0xffffffff then False
        else True)"

text \<open>The loop over the four parts; \<open>std::stoul\<close> gives 64 bits, the variables have 32.\<close>

fun subnet_loop :: "(string \<times> string) list \<Rightarrow> string \<Rightarrow> std_exn + string" where
  "subnet_loop [] subnet = Inr (butlast subnet)"
| "subnet_loop ((a, n) # parts) subnet =
     (case stoul 10 a of Inl e \<Rightarrow> Inl e | Inr av \<Rightarrow>
      case stoul 10 n of Inl e \<Rightarrow> Inl e | Inr nv \<Rightarrow>
      let addressByte = (ucast av :: u32); netmaskByte = (ucast nv :: u32) in
      if 255 < addressByte \<or> 255 < netmaskByte then Inr []
      else let subnetByte = addressByte AND netmaskByte
           in subnet_loop parts (subnet @ to_string (unat subnetByte) @ ''.''))"

definition getSubnet :: "Ipv4Address \<Rightarrow> std_exn + string" where
  "getSubnet this =
     (case split_char (address this) CHR ''.'' of Inl e \<Rightarrow> Inl e | Inr addressParts \<Rightarrow>
      case split_char (netmask this) CHR ''.'' of Inl e \<Rightarrow> Inl e | Inr netmaskParts \<Rightarrow>
      if length addressParts \<noteq> 4 \<or> length netmaskParts \<noteq> 4 then Inr []
      else subnet_loop (zip addressParts netmaskParts) [])"

text \<open>\<open>count\<close> turns are left.\<close>

fun netmask_loop :: "nat \<Rightarrow> u32 \<Rightarrow> u32 \<Rightarrow> u32" where
  "netmask_loop 0 subnet pfx = subnet"
| "netmask_loop (Suc count) subnet pfx =
     (let subnet = push_bit 1 subnet in
      if pfx \<noteq> 0 then netmask_loop count (subnet OR 1) (pfx - 1)
      else netmask_loop count subnet pfx)"

definition getNetmaskFromPrefix :: "u32 \<Rightarrow> string" where
  "getNetmaskFromPrefix pfx =
     (if 32 < pfx then [] else dotted (netmask_loop 32 0 pfx))"

lemma unat_drop_bit_less: "m AND (w :: u32) \<noteq> 0 \<Longrightarrow> unat (drop_bit (Suc 0) w) < unat w"
proof -
  assume "m AND w \<noteq> 0"
  then have "0 < unat w" by (metis and_zero_eq unat_gt_0)
  moreover have "unat (drop_bit (Suc 0) w) = unat w div 2"
    using drop_bit_eq_div [of 1 "unat w"] by (simp add: unsigned_drop_bit_eq)
  ultimately show ?thesis by simp
qed

function prefix_loop :: "u32 \<Rightarrow> u32 \<Rightarrow> nat \<Rightarrow> u32 \<times> nat" where
  "prefix_loop m mask_bit pfx =
     (if m AND mask_bit \<noteq> 0
      then let mask_bit = drop_bit 1 mask_bit; pfx = pfx + 1 in
           if mask_bit \<noteq> 0 then prefix_loop m mask_bit pfx else (mask_bit, pfx)
      else (mask_bit, pfx))"
  by pat_completeness auto

termination
  by (relation "measure (\<lambda>(m, w, p). unat w)") (auto intro: unat_drop_bit_less)

declare prefix_loop.simps [simp del]

function gap_loop :: "u32 \<Rightarrow> u32 \<Rightarrow> nat \<Rightarrow> bool" where
  "gap_loop m mask_bit pos =
     (if pos < 32 then
        let mask_bit = drop_bit 1 mask_bit in
        if m AND mask_bit \<noteq> 0 then True else gap_loop m mask_bit (pos + 1)
      else False)"
  by pat_completeness auto
termination
  by (relation "measure (\<lambda>(m, w, pos). 32 - pos)") auto

declare gap_loop.simps [simp del]

text \<open>
  Where \<open>inet_pton\<close> refuses the text \<open>255.255.255.255\<close>, the code goes on with the address it has
  not initialised, the argument \<open>uninit\<close>.
\<close>

definition getPrefixFromNetmask :: "(string \<Rightarrow> u32 option) \<Rightarrow> u32 \<Rightarrow> string \<Rightarrow> int" where
  "getPrefixFromNetmask pton uninit mask_text =
     (if pton mask_text = None \<and> mask_text \<noteq> ''255.255.255.255'' then -1
      else let ipv4Subnetmask = (case pton mask_text of None \<Rightarrow> uninit | Some a \<Rightarrow> a);
               (mask_bit, pfx) = prefix_loop ipv4Subnetmask 0x80000000 0
           in if gap_loop ipv4Subnetmask mask_bit (pfx + 1) then -1 else int pfx)"

section \<open>What \<open>inet_pton\<close> promises\<close>

locale inet4 =
  fixes pton :: "string \<Rightarrow> u32 option"
  assumes pton_dotted: "pton s = Some a \<longleftrightarrow> s = dotted a"

subsection \<open>The reader of the dotted form\<close>

definition word_of_octets :: "nat \<Rightarrow> nat \<Rightarrow> nat \<Rightarrow> nat \<Rightarrow> u32" where
  "word_of_octets a b c d = of_nat (((a * 256 + b) * 256 + c) * 256 + d)"

definition dotted_pton :: "string \<Rightarrow> u32 option" where
  "dotted_pton s =
     (case map (digits_value 10) (pieces ''.'' s) of
        [a, b, c, d] \<Rightarrow>
          let w = word_of_octets a b c d in if dotted w = s then Some w else None
      | _ \<Rightarrow> None)"

lemma unat_drop_u32: "unat (drop_bit n (a :: u32)) = unat a div 2 ^ n"
proof -
  have "unat (drop_bit n a) = drop_bit n (take_bit LENGTH(32) (unat a))"
    by (rule unsigned_drop_bit_eq)
  also have "take_bit LENGTH(32) (unat a) = unat a" by simp
  finally show ?thesis by (simp add: drop_bit_eq_div)
qed

lemma unat_octet: "unat (octet i a) = unat a div 2 ^ (8 * i) mod 256"
proof -
  have "octet i a = take_bit 8 (drop_bit (8 * i) a)"
    by (simp add: octet_def take_bit_eq_mask mask_eq_exp_minus_1)
  then have "unat (octet i a) = take_bit 8 (unat (drop_bit (8 * i) a))"
    by (simp only: unsigned_take_bit_eq)
  then show ?thesis by (simp add: unat_drop_u32) (simp add: take_bit_eq_mod)
qed

lemma octet_less: "unat (octet i a) < 256"
  by (simp add: unat_octet)

lemma octets_sum:
  "((unat (octet 3 a) * 256 + unat (octet 2 a)) * 256 + unat (octet 1 a)) * 256 + unat (octet 0 a) = unat a"
proof -
  have d2: "unat a div 65536 = unat a div 256 div 256" by (simp add: div_mult2_eq [symmetric])
  have d3: "unat a div 16777216 = unat a div 256 div 256 div 256"
    by (simp add: div_mult2_eq [symmetric])
  have "unat a div 256 div 256 div 256 < 256"
    using less_mult_imp_div_less [of "unat a" 256 16777216] unat_u32 [of a]
    by (simp add: div_mult2_eq [symmetric])
  then show ?thesis by (simp add: unat_octet d2 d3)
qed

lemma word_of_octets_octets:
  "word_of_octets (unat (octet 3 a)) (unat (octet 2 a)) (unat (octet 1 a)) (unat (octet 0 a)) = a"
  unfolding word_of_octets_def octets_sum by simp

lemma pieces_dotted: "pieces ''.'' (dotted a) = map to_string (octets a)"
  unfolding dotted_def by (rule pieces_join) (auto simp: octets_def to_string_no_sep)

lemma dotted_inject: "dotted a = dotted b \<Longrightarrow> a = b"
proof -
  assume "dotted a = dotted b"
  then have "map to_string (octets a) = map to_string (octets b)" by (metis pieces_dotted)
  then have "map (digits_value 10) (map to_string (octets a)) =
      map (digits_value 10) (map to_string (octets b))" by simp
  then have "octets a = octets b" by (simp add: octets_def std_string_simps)
  then show "a = b"
    using word_of_octets_octets [of a] word_of_octets_octets [of b] by (simp add: octets_def)
qed

lemma dotted_pton_dotted: "dotted_pton (dotted a) = Some a"
  using word_of_octets_octets [of a]
  by (simp add: dotted_pton_def pieces_dotted octets_def std_string_simps)

interpretation posix_inet4: inet4 dotted_pton
proof
  fix s a
  show "dotted_pton s = Some a \<longleftrightarrow> s = dotted a"
  proof
    assume "dotted_pton s = Some a"
    then show "s = dotted a" by (auto simp: dotted_pton_def Let_def split: list.splits if_splits)
  qed (simp add: dotted_pton_dotted)
qed

lemma std_count_dotted [simp]: "std_count (dotted a) CHR ''.'' = 3"
  using length_pieces_char [of "CHR ''.''" "dotted a"] by (simp add: pieces_dotted octets_def)

section \<open>Subnets\<close>

lemma octet_and: "octet i a AND octet i m = octet i (a AND m)"
  by (simp add: octet_def ac_simps)

lemma stoul_octet: "stoul 10 (to_string (unat (octet i a))) = Inr (of_nat (unat (octet i a)))"
  using octet_less [of i a] by (intro stoul_to_string) simp

lemma ucast_octet: "(ucast (ucast (octet i a) :: u64) :: u32) = octet i a"
  by (rule word_unat_eq_iff [THEN iffD2])
     (simp add: unsigned_ucast_eq take_bit_word_eq_self)

lemma octet_le_255: "\<not> 255 < octet i a"
  using octet_less [of i a] by (simp add: word_less_nat_alt)

lemma subnet_step:
  "subnet_loop ((to_string (unat (octet i a)), to_string (unat (octet i m))) # parts) s =
   subnet_loop parts (s @ to_string (unat (octet i (a AND m))) @ ''.'')"
  by (simp add: stoul_octet ucast_octet octet_le_255 octet_and Let_def)

section \<open>Prefixes and netmasks\<close>

definition netmask_of :: "nat \<Rightarrow> u32" where
  "netmask_of p = NOT (mask (32 - p))"

lemma netmask_loop_0: "netmask_loop count s 0 = push_bit count s"
  by (induction count arbitrary: s) (simp_all add: Let_def)

lemma netmask_loop_ones:
  "p < 2 ^ 32 \<Longrightarrow> netmask_loop (p + k) s (of_nat p) = push_bit (p + k) s OR push_bit k (mask p)"
proof (induction p arbitrary: s)
  case 0
  then show ?case by (simp add: netmask_loop_0)
next
  case (Suc p)
  have "(of_nat (Suc p) :: u32) \<noteq> 0"
    using Suc.prems by (simp add: word_of_nat_eq_0_iff take_bit_eq_mod dvd_imp_le nat_dvd_not_less
        del: of_nat_Suc)
  then have "netmask_loop (Suc p + k) s (of_nat (Suc p)) = netmask_loop (p + k) (push_bit 1 s OR 1) (of_nat p)"
    by (simp add: Let_def)
  also have "\<dots> = push_bit (p + k) (push_bit 1 s OR 1) OR push_bit k (mask p)"
    using Suc by simp
  also have "\<dots> = push_bit (Suc p + k) s OR push_bit k (mask (Suc p))"
    by (rule bit_word_eqI) (auto simp: bit_simps)
  finally show ?case .
qed

lemma netmask_loop_netmask: "p \<le> 32 \<Longrightarrow> netmask_loop 32 0 (of_nat p) = netmask_of p"
proof -
  assume p: "p \<le> 32"
  then have "netmask_loop (p + (32 - p)) 0 (of_nat p) = push_bit (32 - p) (mask p)"
    by (subst netmask_loop_ones) auto
  also have "\<dots> = netmask_of p"
    unfolding netmask_of_def using p by (intro bit_word_eqI) (auto simp: bit_simps)
  finally show ?thesis using p by simp
qed

text \<open>The number of leading ones from bit \<open>j\<close> down.\<close>

primrec lead :: "u32 \<Rightarrow> nat \<Rightarrow> nat" where
  "lead m 0 = (if bit m 0 then 1 else 0)"
| "lead m (Suc j) = (if bit m (Suc j) then Suc (lead m j) else 0)"

lemma lead_le: "lead m j \<le> Suc j"
  by (induction j) auto

lemma lead_bits: "i \<le> j \<Longrightarrow> Suc j - lead m j \<le> i \<Longrightarrow> bit m i"
  by (induction j) (auto simp: le_Suc_eq split: if_splits)

lemma lead_stop: "lead m j \<le> j \<Longrightarrow> \<not> bit m (j - lead m j)"
  by (induction j) (auto split: if_splits)

lemma drop_exp: "Suc j < 32 \<Longrightarrow> drop_bit 1 (2 ^ Suc j :: u32) = 2 ^ j"
  by (rule bit_word_eqI) (auto simp: bit_simps)

lemma prefix_loop_lead:
  "j < 32 \<Longrightarrow> prefix_loop m (2 ^ j) k =
     (if lead m j = Suc j then 0 else 2 ^ (j - lead m j), k + lead m j)"
proof (induction j arbitrary: k)
  case 0
  then show ?case
    by (subst prefix_loop.simps) (simp add: and_exp_eq_0_iff_not_bit [of m 0, simplified])
next
  case (Suc j)
  have d: "drop_bit 1 (2 ^ Suc j :: u32) = 2 ^ j" by (rule drop_exp) (use Suc.prems in simp)
  have n: "(2 ^ j :: u32) \<noteq> 0" using Suc.prems by simp
  show ?case
    using Suc d n and_exp_eq_0_iff_not_bit [of m "Suc j"]
    by (subst prefix_loop.simps) (simp add: Let_def)
qed

lemma gap_loop_bits:
  "i < 32 \<Longrightarrow> gap_loop m (2 ^ i) (32 - i) \<longleftrightarrow> (\<exists>b<i. bit m b)"
proof (induction i)
  case 0
  then show ?case by (subst gap_loop.simps) simp
next
  case (Suc i)
  have d: "drop_bit 1 (2 ^ Suc i :: u32) = 2 ^ i" by (rule drop_exp) (use Suc.prems in simp)
  have "32 - Suc i + 1 = 32 - i" using Suc.prems by simp
  with Suc d show ?case
    by (subst gap_loop.simps) (auto simp: and_exp_eq_0_iff_not_bit Let_def less_Suc_eq)
qed

lemma getPrefix_word:
  "(let (mb, p) = prefix_loop m 0x80000000 0 in if gap_loop m mb (p + 1) then -1 else int p) =
   (if m = netmask_of (lead m 31) then int (lead m 31) else -1)"
proof -
  let ?p = "lead m 31"
  have pl: "prefix_loop m 0x80000000 0 = (if ?p = 32 then 0 else 2 ^ (31 - ?p), ?p)"
    using prefix_loop_lead [of 31 m 0] by simp
  have le: "?p \<le> 32" using lead_le [of m 31] by simp
  have ones: "bit m i" if "32 - ?p \<le> i" "i < 32" for i
    using lead_bits [of i 31 m] that by simp
  show ?thesis
  proof (cases "?p = 32")
    case True
    then have "m = netmask_of ?p" unfolding netmask_of_def
      using ones by (intro bit_word_eqI) (auto simp: bit_simps)
    with True show ?thesis using pl by (simp add: gap_loop.simps [of _ _ 33])
  next
    case False
    with le have lt: "?p < 32" by simp
    then have gap: "gap_loop m (2 ^ (31 - ?p)) (?p + 1) \<longleftrightarrow> (\<exists>b<31 - ?p. bit m b)"
      using gap_loop_bits [of "31 - ?p" m] by (simp add: Suc_diff_Suc)
    have stop: "\<not> bit m (31 - ?p)" using lead_stop [of m 31] lt by simp
    have "m = netmask_of ?p \<longleftrightarrow> \<not> (\<exists>b<31 - ?p. bit m b)"
    proof
      assume "m = netmask_of ?p"
      then have "bit m b \<Longrightarrow> \<not> b < 32 - ?p" for b
        by (subst (asm) \<open>m = netmask_of ?p\<close>) (simp add: netmask_of_def bit_simps)
      then show "\<not> (\<exists>b<31 - ?p. bit m b)" by fastforce
    next
      assume none: "\<not> (\<exists>b<31 - ?p. bit m b)"
      show "m = netmask_of ?p" unfolding netmask_of_def
      proof (rule bit_word_eqI)
        fix i assume "i < LENGTH(32)"
        then have "bit m i \<longleftrightarrow> \<not> i < 32 - ?p"
          using ones [of i] none stop lt by (cases "i < 31 - ?p"; cases "i = 31 - ?p") auto
        with \<open>i < LENGTH(32)\<close> show "bit m i \<longleftrightarrow> bit (NOT (mask (32 - ?p)) :: u32) i"
          by (simp add: bit_simps)
      qed
    qed
    with gap pl False show ?thesis by simp
  qed
qed

lemma lead_netmask: "p \<le> 32 \<Longrightarrow> lead (netmask_of p) 31 = p"
proof -
  have "list_all (\<lambda>p. lead (netmask_of p) 31 = p) [0..<33]" by code_simp
  then show "p \<le> 32 \<Longrightarrow> ?thesis" by (auto simp: list_all_iff)
qed

section \<open>Classes of addresses\<close>

lemma find_from_0: "find_from s sub 0 = Some 0 \<longleftrightarrow> prefix sub s"
  by (cases s) (auto simp: find_from_def)

lemma prefix_before_sep:
  assumes "c \<notin> set p" "prefix p (s @ c # r)"
  shows "prefix p s"
  using assms
proof (induction p arbitrary: s)
  case Nil
  show ?case by simp
next
  case (Cons x p)
  show ?case
  proof (cases s)
    case (Cons y t)
    with Cons.prems have "x = y" "prefix p (t @ c # r)" by simp_all
    with Cons.IH [of t] Cons.prems(1) Cons show ?thesis by simp
  next
    case Nil
    with Cons.prems show ?thesis by simp
  qed
qed

lemma sep_prefix_unique:
  assumes "c \<notin> set p" "c \<notin> set s" "prefix (p @ [c]) (s @ c # r)"
  shows "p = s"
proof -
  obtain z where "s @ c # r = (p @ [c]) @ z" using assms(3) by (rule prefixE)
  then have "p @ c # z = s @ c # r" by simp
  with assms(1,2) show ?thesis
  proof (induction p arbitrary: s)
    case Nil
    then show ?case by (cases s) auto
  next
    case (Cons x p)
    then show ?case by (cases s) auto
  qed
qed

lemma digits_value_append_ge:
  "digits_value b s * b ^ length t \<le> digits_value b (s @ t)"
proof (induction t rule: rev_induct)
  case (snoc c t)
  have "digits_value b s * b ^ length (t @ [c]) = digits_value b s * b ^ length t * b" by simp
  also have "\<dots> \<le> digits_value b (s @ t) * b" using snoc by (rule mult_le_mono1)
  also have "\<dots> \<le> digits_value b (s @ (t @ [c]))" by (simp flip: append_assoc)
  finally show ?case .
qed simp

lemma to_string_prefix_254: "n < 256 \<Longrightarrow> prefix ''254'' (to_string n) \<longleftrightarrow> n = 254"
proof
  assume n: "n < 256" and "prefix ''254'' (to_string n)"
  then obtain t where t: "to_string n = ''254'' @ t" by (auto simp: prefix_def)
  have v: "digits_value 10 ''254'' = 254" by (simp add: digits_value_def digit_val_def)
  have "254 * 10 ^ length t \<le> n"
    using digits_value_append_ge [of 10 "''254''" t] t v digits_value_radix [of 10 n] by simp
  with n have "10 ^ length t < (2 :: nat)" by simp
  then have "t = []" by (cases t) auto
  with t v digits_value_radix [of 10 n] show "n = 254" by simp
next
  assume "n = 254"
  moreover have "prefix ''254'' (to_string 254)" by code_simp
  ultimately show "prefix ''254'' (to_string n)" by simp
qed

lemma dotted_unfold:
  "dotted a = to_string (unat (octet 3 a)) @ CHR ''.'' # to_string (unat (octet 2 a)) @ CHR ''.'' #
     to_string (unat (octet 1 a)) @ CHR ''.'' # to_string (unat (octet 0 a))"
  by (simp add: dotted_def octets_def)

lemma dotted_apipa: "prefix ''169.254'' (dotted a) \<longleftrightarrow> octet 3 a = 169 \<and> octet 2 a = 254"
proof
  assume p: "prefix ''169.254'' (dotted a)"
  then have "prefix (''169'' @ ''.'') (dotted a)"
    by (metis append_prefixD append.assoc append_Cons append_Nil)
  then have 3: "''169'' = to_string (unat (octet 3 a))"
    unfolding dotted_unfold by (rule sep_prefix_unique [rotated 2]) (auto simp: to_string_no_sep)
  then have o3: "unat (octet 3 a) = 169"
    using digits_value_radix [of 10 "unat (octet 3 a)"]
    by (simp add: digits_value_def digit_val_def flip: 3)
  from p have "prefix ''254'' (to_string (unat (octet 2 a)) @ CHR ''.'' #
     to_string (unat (octet 1 a)) @ CHR ''.'' # to_string (unat (octet 0 a)))"
    unfolding dotted_unfold 3 [symmetric] by simp
  then have "prefix ''254'' (to_string (unat (octet 2 a)))"
    by (rule prefix_before_sep [rotated]) simp
  then have "unat (octet 2 a) = 254" using octet_less to_string_prefix_254 by blast
  with o3 show "octet 3 a = 169 \<and> octet 2 a = 254" by (simp add: word_unat_eq_iff)
next
  assume "octet 3 a = 169 \<and> octet 2 a = 254"
  moreover have "to_string 169 = ''169''" "to_string 254 = ''254''" by code_simp+
  ultimately show "prefix ''169.254'' (dotted a)" by (simp add: dotted_unfold)
qed

context inet4
begin

lemma isApipaAddress_iff:
  "isApipaAddress pton s \<longleftrightarrow> (\<exists>a. s = dotted a \<and> octet 3 a = 169 \<and> octet 2 a = 254)"
proof (cases "pton s")
  case None
  then show ?thesis using pton_dotted [of s] by (auto simp: isApipaAddress_def)
next
  case (Some a)
  then have s: "s = dotted a" by (simp add: pton_dotted)
  show ?thesis using Some
    by (auto simp: isApipaAddress_def s find_from_0 dotted_apipa dest: dotted_inject)
qed

lemma upperMost_octet: "unat (ucast (drop_bit 24 (a :: u32)) :: u8) = unat (octet 3 a)"
proof -
  have "unat (ucast (drop_bit 24 a) :: u8) = take_bit 8 (unat (drop_bit 24 a))"
    by (simp add: unsigned_ucast_eq unsigned_take_bit_eq)
  then show ?thesis by (simp only: unat_drop_u32 unat_octet take_bit_eq_mod) simp
qed

lemma isValidManualAddress_iff:
  "isValidManualAddress pton s \<longleftrightarrow> (\<exists>a. s = dotted a \<and> (a = 0 \<or>
     (0 < octet 3 a \<and> octet 3 a < 224 \<and> octet 3 a \<noteq> 127 \<and> \<not> (octet 3 a = 169 \<and> octet 2 a = 254))))"
proof (cases "pton s")
  case None
  then show ?thesis using pton_dotted [of s] by (auto simp: isValidManualAddress_def)
next
  case (Some a)
  then have s: "s = dotted a" by (simp add: pton_dotted)
  have ap: "isApipaAddress pton (dotted a) \<longleftrightarrow> octet 3 a = 169 \<and> octet 2 a = 254"
    by (auto simp: isApipaAddress_iff dest: dotted_inject)
  have ex: "(\<exists>b. dotted a = dotted b \<and> P b) \<longleftrightarrow> P a" for P using dotted_inject by blast
  show ?thesis using Some upperMost_octet [of a]
    by (simp add: isValidManualAddress_def s ex ap word_unat_eq_iff word_le_nat_alt word_less_nat_alt Let_def)
qed

lemma isValidNetmask_iff: "isValidNetmask pton s \<longleftrightarrow> (\<exists>a. s = dotted a \<and> a \<noteq> 0 \<and> a \<noteq> 0xffffffff)"
proof (cases "pton s")
  case None
  then show ?thesis using pton_dotted [of s] by (auto simp: isValidNetmask_def)
next
  case (Some a)
  then have s: "s = dotted a" by (simp add: pton_dotted)
  show ?thesis using Some by (auto simp: isValidNetmask_def s dest: dotted_inject)
qed

lemma getPrefixFromNetmask_word:
  "getPrefixFromNetmask pton u s =
     (case pton s of
        None \<Rightarrow> -1
      | Some m \<Rightarrow> if m = netmask_of (lead m 31) then int (lead m 31) else -1)"
proof (cases "pton s")
  case None
  have "s \<noteq> ''255.255.255.255''"
  proof
    assume "s = ''255.255.255.255''"
    moreover have "dotted 0xffffffff = ''255.255.255.255''" by code_simp
    ultimately have "pton s = Some 0xffffffff" by (simp add: pton_dotted)
    with None show False by simp
  qed
  with None show ?thesis by (simp add: getPrefixFromNetmask_def)
next
  case (Some m)
  with getPrefix_word [of m] show ?thesis by (simp add: getPrefixFromNetmask_def)
qed

lemma getPrefixFromNetmask_iff:
  assumes "p \<le> 32"
  shows "getPrefixFromNetmask pton u s = int p \<longleftrightarrow> s = dotted (netmask_of p)"
proof
  assume "getPrefixFromNetmask pton u s = int p"
  then show "s = dotted (netmask_of p)"
    by (auto simp: getPrefixFromNetmask_word pton_dotted split: option.splits if_splits)
next
  assume "s = dotted (netmask_of p)"
  then have "pton s = Some (netmask_of p)" by (simp add: pton_dotted)
  with lead_netmask [OF assms] show "getPrefixFromNetmask pton u s = int p"
    by (simp add: getPrefixFromNetmask_word)
qed

lemma getPrefixFromNetmask_range:
  "getPrefixFromNetmask pton u s = -1 \<or> (\<exists>p\<le>32. getPrefixFromNetmask pton u s = int p)"
proof (cases "pton s")
  case (Some m)
  then show ?thesis using lead_le [of m 31] by (auto simp: getPrefixFromNetmask_word)
qed (simp add: getPrefixFromNetmask_word)

lemma prefix_netmask_round_trip:
  "p \<le> 32 \<Longrightarrow> getPrefixFromNetmask pton u (getNetmaskFromPrefix (of_nat p)) = int p"
proof -
  assume p: "p \<le> 32"
  then have "\<not> (32 :: u32) < of_nat p"
    by (simp add: word_less_nat_alt unat_of_nat take_bit_nat_eq_self)
  with p have "getNetmaskFromPrefix (of_nat p) = dotted (netmask_of p)"
    by (simp add: getNetmaskFromPrefix_def netmask_loop_netmask)
  with getPrefixFromNetmask_iff [OF p] show ?thesis by simp
qed

end

lemma getSubnet_dotted:
  assumes "address i = dotted a" "netmask i = dotted m"
  shows "getSubnet i = Inr (dotted (a AND m))"
proof -
  have "getSubnet i = subnet_loop (zip (map to_string (octets a)) (map to_string (octets m))) []"
    by (simp add: getSubnet_def assms split_char_pieces pieces_dotted octets_def)
  also have "\<dots> = Inr (dotted (a AND m))"
    by (simp add: subnet_step dotted_def octets_def butlast_append del: subnet_loop.simps(2))
  finally show ?thesis .
qed

section \<open>Properties\<close>

text \<open>
  For an address and a netmask in dotted decimal form, \<open>getSubnet\<close> returns the dotted decimal
  form of their bitwise conjunction; no conversion throws.
\<close>

theorem getSubnet_and:
  "getSubnet \<lparr>address = dotted a, netmask = dotted m\<rparr> = Inr (dotted (a AND m))"
  by (rule getSubnet_dotted) simp_all

text \<open>
  The manual addresses are \<open>0.0.0.0\<close> and the dotted decimal forms whose first octet is
  neither 0 nor 127 nor 224 and above, outside 169.254.0.0/16; nothing else is accepted.
\<close>

theorem manual_addresses:
  assumes "inet4 pton"
  shows "isValidManualAddress pton s \<longleftrightarrow> (\<exists>a. s = dotted a \<and> (a = 0 \<or>
     (0 < octet 3 a \<and> octet 3 a < 224 \<and> octet 3 a \<noteq> 127 \<and> \<not> (octet 3 a = 169 \<and> octet 2 a = 254))))"
  by (rule inet4.isValidManualAddress_iff [OF assms])

theorem manual_addresses_witness:
  "isValidManualAddress dotted_pton (dotted 0xC0A80001) \<and> \<not> isValidManualAddress dotted_pton (dotted 0x7F000001)"
  using manual_addresses [OF posix_inet4.inet4_axioms, of "dotted 0xC0A80001"]
    manual_addresses [OF posix_inet4.inet4_axioms, of "dotted 0x7F000001"]
  by (auto simp: octet_def dest: dotted_inject)



end
