(* ===== verification/Ipv6_Address.thy ===== *)
theory Ipv6_Address
  imports Str_Split
begin

text \<open>
  \<open>hbk::communication::Ipv6Address\<close> (\<^verbatim>\<open>lib/communication/ipv6address.cpp\<close>). Addresses are
  128-bit words. \<open>inet_pton(AF_INET6, \<dots>)\<close>, \<open>inet_ntop(AF_INET6, \<dots>)\<close> and \<open>inet_aton\<close> are the
  parameters \<open>pton\<close>, \<open>ntop\<close> and \<open>aton\<close> of the definitions; the locale \<open>inet6\<close> states that
  \<open>pton\<close> reads what \<open>ntop\<close> prints, in fewer than \<open>INET6_ADDRSTRLEN\<close> characters. The lemmas
  show that \<open>equal\<close> compares the addresses and not their spelling, and that the link local address
  made from a MAC address holds its EUI-64 form.
\<close>

type_synonym u128 = "128 word"

record Ipv6Address =
  ip6_address :: string
  ip6_prefix :: u32

section \<open>The code\<close>

definition Ipv6Address_init :: Ipv6Address where
  "Ipv6Address_init = \<lparr>ip6_address = [], ip6_prefix = 0\<rparr>"

text \<open>\<open>!strncmp(a, b, n)\<close> on texts that end with their \<open>'\0'\<close>.\<close>

definition strncmp_eq :: "string \<Rightarrow> string \<Rightarrow> nat \<Rightarrow> bool" where
  "strncmp_eq a b n = (take n a = take n b)"

definition ipv6_equal ::
  "(string \<Rightarrow> u128 option) \<Rightarrow> (u128 \<Rightarrow> string) \<Rightarrow> Ipv6Address \<Rightarrow> Ipv6Address \<Rightarrow> bool" where
  "ipv6_equal pton ntop this op =
     (if ip6_prefix this \<noteq> ip6_prefix op then False
      else case pton (ip6_address this) of None \<Rightarrow> False | Some addrStruct \<Rightarrow>
           case pton (ip6_address op) of None \<Rightarrow> False | Some opAddrStruct \<Rightarrow>
             strncmp_eq (ntop addrStruct) (ntop opAddrStruct) 64)"

definition getIpv4MappedAddress :: "(string \<Rightarrow> u32 option) \<Rightarrow> string \<Rightarrow> std_exn + string" where
  "getIpv4MappedAddress aton addr =
     (let hybridIpv4AddressPrefix = ''::ffff:'' in
      case substr addr 0 (Some (length hybridIpv4AddressPrefix)) of Inl e \<Rightarrow> Inl e | Inr addressPrefix \<Rightarrow>
      if addressPrefix \<noteq> hybridIpv4AddressPrefix then Inr []
      else case substr addr (length hybridIpv4AddressPrefix) None of Inl e \<Rightarrow> Inl e | Inr ipv4Address \<Rightarrow>
        if std_count ipv4Address CHR ''.'' \<noteq> 3 then Inr []
        else if aton ipv4Address = None then Inr []
        else Inr ipv4Address)"

definition linkLocalFromMac :: "string \<Rightarrow> std_exn + string" where
  "linkLocalFromMac macAddress =
     (case split_char macAddress CHR '':'' of Inl e \<Rightarrow> Inl e | Inr tokens \<Rightarrow>
      if length tokens \<noteq> 6 then Inl (runtime_error ''not a valid MAC address'')
      else case stoul 16 (hd tokens) of Inl e \<Rightarrow> Inl e | Inr v \<Rightarrow>
        let part = (ucast v :: u32); part = part XOR push_bit 1 1 in
        Inr (''fe80::'' @ to_hex (unat part) @ tokens ! 1 @ '':'' @ tokens ! 2 @ ''ff:fe'' @
             tokens ! 3 @ '':'' @ tokens ! 4 @ tokens ! 5))"

text \<open>\<open>::tolower\<close> in the C locale\<close>

definition tolower :: "char \<Rightarrow> char" where
  "tolower c = (let n = (of_char c :: nat) in if 65 \<le> n \<and> n \<le> 90 then char_of (n + 32) else c)"

definition isLinkLocalAddress :: "(string \<Rightarrow> u128 option) \<Rightarrow> string \<Rightarrow> std_exn + bool" where
  "isLinkLocalAddress pton addr =
     (let ipv6LinkLocalNet = ''fe80::'' in
      if pton addr = None then Inr False
      else case substr addr 0 (Some (length ipv6LinkLocalNet)) of Inl e \<Rightarrow> Inl e | Inr pfx \<Rightarrow>
        let pfx = map tolower pfx in
        if pfx \<noteq> ipv6LinkLocalNet then Inr False else Inr True)"

section \<open>Addresses and their text\<close>

locale inet6 =
  fixes pton :: "string \<Rightarrow> u128 option" and ntop :: "u128 \<Rightarrow> string"
  assumes pton_ntop: "pton (ntop a) = Some a"
    and ntop_length: "length (ntop a) < 46"
begin

lemma ntop_inject: "ntop a = ntop b \<longleftrightarrow> a = b"
  by (metis option.inject pton_ntop)

lemma ipv6_equal_iff:
  "ipv6_equal pton ntop x y \<longleftrightarrow>
     ip6_prefix x = ip6_prefix y \<and> (\<exists>a. pton (ip6_address x) = Some a \<and> pton (ip6_address y) = Some a)"
proof -
  have "take 64 (ntop a) = ntop a" for a using ntop_length [of a] by simp
  then show ?thesis
    by (auto simp: ipv6_equal_def strncmp_eq_def ntop_inject split: option.splits)
qed

end

text \<open>Eight groups of hexadecimal digits, without the abbreviation of zeros.\<close>

definition group6 :: "nat \<Rightarrow> u128 \<Rightarrow> nat" where
  "group6 i a = unat a div 65536 ^ i mod 65536"

definition full_ntop :: "u128 \<Rightarrow> string" where
  "full_ntop a = join '':'' (map (\<lambda>i. to_hex (group6 i a)) [7,6,5,4,3,2,1,0])"

definition full_pton :: "string \<Rightarrow> u128 option" where
  "full_pton s = (let gs = map (digits_value 16) (pieces '':'' s) in
     if length gs = 8 then Some (of_nat (foldl (\<lambda>n g. n * 65536 + g) 0 gs)) else None)"

lemma to_hex_no_colon: "CHR '':'' \<notin> set (to_hex n)"
  using radix_digits [of 16 _ n] is_digit_not_special by fastforce

lemma pieces_full_ntop: "pieces '':'' (full_ntop a) = map (\<lambda>i. to_hex (group6 i a)) [7,6,5,4,3,2,1,0]"
  unfolding full_ntop_def by (rule pieces_join) (auto simp: to_hex_no_colon)

lemma groups_sum:
  fixes n :: nat
  assumes "n < 65536 ^ 8"
  shows "foldl (\<lambda>k g. k * 65536 + g) 0 (map (\<lambda>i. n div 65536 ^ i mod 65536) [7,6,5,4,3,2,1,0]) = n"
proof -
  have step: "(n div 65536 ^ Suc i) * 65536 + n div 65536 ^ i mod 65536 = n div 65536 ^ i" for i
  proof -
    have "n div 65536 ^ Suc i = n div 65536 ^ i div 65536"
      by (simp only: power_Suc2 div_mult2_eq)
    then show ?thesis by simp
  qed
  have "n div 65536 ^ 7 < 65536" using assms less_mult_imp_div_less [of n 65536 "65536 ^ 7"] by simp
  then show ?thesis
    using step [of 6] step [of 5] step [of 4] step [of 3] step [of 2] step [of 1] step [of 0]
    by simp
qed

lemma length_radix16: "n < 65536 \<Longrightarrow> length (to_hex n) \<le> 4"
  by (subst radix.simps, simp, subst radix.simps, simp, subst radix.simps, simp, subst radix.simps, simp)

interpretation full_inet6: inet6 full_pton full_ntop
proof
  fix a :: u128
  have "unat a < 2 ^ LENGTH(128)" by (rule unsigned_less)
  then have "unat a < 65536 ^ 8" by simp
  from groups_sum [OF this] show "full_pton (full_ntop a) = Some a"
    by (simp add: full_pton_def pieces_full_ntop std_string_simps group6_def)
  have "length (to_hex (group6 i a)) \<le> 4" for i by (rule length_radix16) (simp add: group6_def)
  from this [of 0] this [of 1] this [of 2] this [of 3] this [of 4] this [of 5] this [of 6] this [of 7]
  show "length (full_ntop a) < 46" by (simp add: full_ntop_def)
qed

section \<open>Link local addresses from MAC addresses\<close>

text \<open>Two hexadecimal digits, of either case.\<close>

definition hex_byte :: "string \<Rightarrow> bool" where
  "hex_byte t = (length t = 2 \<and> list_all (is_digit 16) t)"

lemma hex_byte_cases:
  assumes "hex_byte t"
  obtains c d where "t = [c, d]" "is_digit 16 c" "is_digit 16 d"
  using assms by (auto simp: hex_byte_def numeral_2_eq_2 length_Suc_conv)

lemma hex_byte_no_colon: "hex_byte t \<Longrightarrow> CHR '':'' \<notin> set t"
  using is_digit_not_special by (fastforce simp: hex_byte_def list_all_iff)

lemma is_digit_val: "is_digit b c \<Longrightarrow> the (digit_val c) < b"
  by (auto simp: is_digit_def split: option.splits)

lemma hex_byte_value: "hex_byte t \<Longrightarrow> digits_value 16 t < 256"
  by (erule hex_byte_cases) (auto simp: digits_value_def dest!: is_digit_val)

lemma digits_value_append_list:
  "digits_value b (s @ t) = digits_value b s * b ^ length t + digits_value b t"
proof (induction t rule: rev_induct)
  case (snoc c t)
  then show ?case by (simp add: algebra_simps flip: append_assoc)
qed simp

lemma hex_byte_stoul: "hex_byte t \<Longrightarrow> stoul 16 t = Inr (of_nat (digits_value 16 t))"
  using hex_byte_value [of t]
  by (intro stoul_digits) (auto simp: hex_byte_def list_all_iff)

lemma flip_local_bit:
  assumes "v < 256"
  shows "unat ((ucast (of_nat v :: u64) :: u32) XOR 2) = v XOR 2"
proof -
  have "unat (ucast (of_nat v :: u64) :: u32) = v"
    using assms by (simp add: unsigned_ucast_eq unat_of_nat take_bit_nat_eq_self)
  then show ?thesis by (simp add: unsigned_xor_eq)
qed

lemma linkLocalFromMac_bytes:
  assumes "list_all hex_byte [t0, t1, t2, t3, t4, t5]"
  shows "linkLocalFromMac (join '':'' [t0, t1, t2, t3, t4, t5]) =
    Inr (join '':'' [''fe80'', [], to_hex (digits_value 16 t0 XOR 2) @ t1, t2 @ ''ff'', ''fe'' @ t3, t4 @ t5])"
proof -
  have "pieces '':'' (join '':'' [t0, t1, t2, t3, t4, t5]) = [t0, t1, t2, t3, t4, t5]"
    by (rule pieces_join) (use assms hex_byte_no_colon in auto)
  then show ?thesis
    using assms hex_byte_value [of t0]
    by (simp add: linkLocalFromMac_def split_char_pieces hex_byte_stoul
        flip_local_bit Let_def)
qed

section \<open>Properties\<close>

text \<open>
  \<open>equal\<close> holds for two addresses with the same prefix that \<open>inet_pton\<close> reads as the same
  128 bits, whatever their spelling, and never for a text that is not an address.
\<close>

theorem ipv6_equal_compares_addresses:
  assumes "inet6 pton ntop"
  shows "ipv6_equal pton ntop x y \<longleftrightarrow>
     ip6_prefix x = ip6_prefix y \<and> (\<exists>a. pton (ip6_address x) = Some a \<and> pton (ip6_address y) = Some a)"
  by (rule inet6.ipv6_equal_iff [OF assms])

theorem ipv6_equal_compares_addresses_witness:
  "ipv6_equal full_pton full_ntop \<lparr>ip6_address = ''fe80:0:0:0:0:0:0:ab'', ip6_prefix = 64\<rparr>
     \<lparr>ip6_address = ''FE80:0:0:0:0:0:0:00AB'', ip6_prefix = 64\<rparr>"
proof -
  have "pieces '':'' (join '':'' [''fe80'', ''0'', ''0'', ''0'', ''0'', ''0'', ''0'', ''ab'']) =
      [''fe80'', ''0'', ''0'', ''0'', ''0'', ''0'', ''0'', ''ab'']"
    "pieces '':'' (join '':'' [''FE80'', ''0'', ''0'', ''0'', ''0'', ''0'', ''0'', ''00AB'']) =
      [''FE80'', ''0'', ''0'', ''0'', ''0'', ''0'', ''0'', ''00AB'']"
    by (rule pieces_join; simp)+
  then have "full_pton ''fe80:0:0:0:0:0:0:ab'' = full_pton ''FE80:0:0:0:0:0:0:00AB''"
    "full_pton ''fe80:0:0:0:0:0:0:ab'' \<noteq> None"
    by (simp_all add: full_pton_def digits_value_def digit_val_def)
  then show ?thesis by (auto simp: ipv6_equal_compares_addresses [OF full_inet6.inet6_axioms])
qed

text \<open>
  C7: from a MAC address of six pairs of hexadecimal digits, \<open>linkLocalFromMac\<close> makes an address
  whose groups after \<open>fe80::\<close> are the EUI-64 form: the first byte with its local bit flipped, and
  \<open>ff:fe\<close> between the two halves.
\<close>

theorem linkLocalFromMac_eui64:
  assumes "list_all hex_byte [t0, t1, t2, t3, t4, t5]"
  shows "\<exists>g1 g2 g3 g4. linkLocalFromMac (join '':'' [t0, t1, t2, t3, t4, t5]) =
      Inr (join '':'' [''fe80'', [], g1, g2, g3, g4]) \<and>
    digits_value 16 g1 = (digits_value 16 t0 XOR 2) * 256 + digits_value 16 t1 \<and>
    digits_value 16 g2 = digits_value 16 t2 * 256 + 0xff \<and>
    digits_value 16 g3 = 0xfe * 256 + digits_value 16 t3 \<and>
    digits_value 16 g4 = digits_value 16 t4 * 256 + digits_value 16 t5"
proof -
  have v: "digits_value 16 ''ff'' = 0xff" "digits_value 16 ''fe'' = 0xfe" by code_simp+
  have l: "length t1 = 2" "length t3 = 2" "length t5 = 2" using assms by (auto simp: hex_byte_def)
  have "digits_value 16 (t2 @ ''ff'') = digits_value 16 t2 * 256 + 0xff"
    "digits_value 16 (''fe'' @ t3) = 0xfe * 256 + digits_value 16 t3"
    "digits_value 16 (t4 @ t5) = digits_value 16 t4 * 256 + digits_value 16 t5"
    "digits_value 16 (to_hex n @ t1) = n * 256 + digits_value 16 t1" for n
    unfolding digits_value_append_list v l by (simp_all add: std_string_simps)
  then show ?thesis using linkLocalFromMac_bytes [OF assms] by blast
qed

theorem linkLocalFromMac_eui64_witness:
  "\<exists>g1 g2 g3 g4. linkLocalFromMac ''cA:00:0e:74:00:08'' = Inr (join '':'' [''fe80'', [], g1, g2, g3, g4]) \<and>
    digits_value 16 g1 = 0xc800 \<and> digits_value 16 g2 = 0x0eff \<and> digits_value 16 g3 = 0xfe74 \<and>
    digits_value 16 g4 = 0x0008"
proof -
  have h: "list_all hex_byte [''cA'', ''00'', ''0e'', ''74'', ''00'', ''08'']" by code_simp
  have "digits_value 16 ''cA'' XOR 2 = 0xc8" "digits_value 16 ''00'' = 0" "digits_value 16 ''0e'' = 0xe"
    "digits_value 16 ''74'' = 0x74" "digits_value 16 ''08'' = 8" by code_simp+
  with linkLocalFromMac_eui64 [OF h] show ?thesis by simp
qed

text \<open>
  \<open>getIpv4MappedAddress\<close> never throws; it returns what follows \<open>::ffff:\<close> where that has three
  dots and \<open>inet_aton\<close> reads it, and the empty text otherwise.
\<close>

theorem getIpv4MappedAddress_cases:
  "getIpv4MappedAddress aton s =
     Inr (if prefix ''::ffff:'' s \<and> std_count (drop 7 s) CHR ''.'' = 3 \<and> aton (drop 7 s) \<noteq> None
          then drop 7 s else [])"
proof -
  have "take 7 s = ''::ffff:'' \<longleftrightarrow> prefix ''::ffff:'' s"
    using take_length_prefix [of "''::ffff:''" s] by (simp add: eval_nat_numeral)
  moreover have "prefix ''::ffff:'' s \<Longrightarrow> \<not> length s < 7" using prefix_length_le [of "''::ffff:''" s] by simp
  moreover have len: "length ''::ffff:'' = 7" by simp
  ultimately show ?thesis unfolding getIpv4MappedAddress_def substr_def Let_def len by auto
qed

end
