(* ===== verification/Event_Loop.thy ===== *)
theory Event_Loop
  imports Prelude
begin

text \<open>
  \<open>hbk::sys::EventLoop\<close> under Linux (\<^verbatim>\<open>lib/sys/linux/eventloop.cpp\<close>), as it is written. The map
  \<open>m_eventInfos\<close> owns nodes with the two handlers of a descriptor, and epoll and \<open>m_events\<close> hold
  raw pointers to these nodes; so the model has the map from descriptors to node addresses and the
  nodes alive in \<open>heap\<close>, and following a pointer to a node that is no longer there is a result of
  its own, \<open>Crashed\<close>. The kernel, the allocator and the callbacks are parameters, the fields of the
  record \<open>loop_env\<close>; \<open>'h\<close> are the callbacks (\<open>std::function\<close>), \<open>'w\<close> is everything outside the loop.
\<close>

section \<open>State\<close>

type_synonym addr = nat

definition EPOLLIN :: u32 where "EPOLLIN = 0x001"
definition EPOLLOUT :: u32 where "EPOLLOUT = 0x004"
definition EPOLLET :: u32 where "EPOLLET = 0x80000000"

definition MAXEVENTS :: nat where "MAXEVENTS = 16"

datatype ctl_op = CTL_ADD | CTL_MOD | CTL_DEL

record epoll_event =
  events :: u32
  data_ptr :: "addr option"

text \<open>\<open>EventsHandlers_t\<close>; an empty \<open>std::function\<close> is \<^term>\<open>None\<close>.\<close>

record 'h handlers =
  inEvent :: "'h option"
  outEvent :: "'h option"

record ('h, 'w) loop =
  m_epollfd :: fd
  m_stopFd :: fd
  m_eventInfos :: "(fd \<times> addr) list"
  heap :: "addr \<rightharpoonup> 'h handlers"
  m_events :: "epoll_event list"
  m_eventCount :: int
  world :: 'w

text \<open>What a callback does: it returns a number or throws.\<close>

datatype outcome = Returns int | Throws

record ('h, 'w) loop_env =
  k_epoll_create :: "'w \<Rightarrow> fd sysres \<times> 'w"
  k_eventfd :: "'w \<Rightarrow> fd \<times> 'w"
  k_epoll_ctl :: "fd \<Rightarrow> ctl_op \<Rightarrow> fd \<Rightarrow> epoll_event \<Rightarrow> 'w \<Rightarrow> bool \<times> 'w"
  k_epoll_wait :: "fd \<Rightarrow> nat \<Rightarrow> 'w \<Rightarrow> epoll_event list sysres \<times> 'w"
  k_write :: "fd \<Rightarrow> u64 \<Rightarrow> 'w \<Rightarrow> 'w"
  k_close :: "fd \<Rightarrow> 'w \<Rightarrow> 'w"
  run :: "'h \<Rightarrow> ('h, 'w) loop \<Rightarrow> outcome \<times> ('h, 'w) loop"
  alloc :: "addr list \<Rightarrow> addr"

definition no_event :: epoll_event where
  "no_event = \<lparr>events = 0, data_ptr = None\<rparr>"

section \<open>Construction and destruction\<close>

text \<open>
  \<^term>\<open>Inl\<close> is the exception the constructor throws. The array \<open>m_events\<close> is not initialised, so
  what it holds is an argument.
\<close>

definition EventLoop_init ::
  "('h, 'w) loop_env \<Rightarrow> epoll_event list \<Rightarrow> 'w \<Rightarrow> (string + ('h, 'w) loop) \<times> 'w" where
  "EventLoop_init env events0 w =
     (case k_epoll_create env w of (epfd, w) \<Rightarrow>
      case k_eventfd env w of (stopFd, w) \<Rightarrow>
      case epfd of Inl e \<Rightarrow> (Inl ''epoll_create failed '', w) | Inr epollfd \<Rightarrow>
        let ev = \<lparr>events = EPOLLIN OR EPOLLET, data_ptr = None\<rparr> in
        case k_epoll_ctl env epollfd CTL_ADD stopFd ev w of (ok, w) \<Rightarrow>
        if \<not> ok then (Inl ''add stop notifier to eventloop failed '', w)
        else (Inr \<lparr>m_epollfd = epollfd, m_stopFd = stopFd, m_eventInfos = [], heap = Map.empty,
                   m_events = events0, m_eventCount = 0, world = w\<rparr>, w))"

definition stop :: "('h, 'w) loop_env \<Rightarrow> ('h, 'w) loop \<Rightarrow> ('h, 'w) loop" where
  "stop env l = l\<lparr>world := k_write env (m_stopFd l) 1 (world l)\<rparr>"

definition EventLoop_destroy :: "('h, 'w) loop_env \<Rightarrow> ('h, 'w) loop \<Rightarrow> 'w" where
  "EventLoop_destroy env l =
     (let l = stop env l; w = k_close env (m_epollfd l) (world l) in k_close env (m_stopFd l) w)"

section \<open>Registration\<close>

abbreviation find_info :: "('h, 'w) loop \<Rightarrow> fd \<Rightarrow> addr option" where
  "find_info l fd \<equiv> map_of (m_eventInfos l) fd"

text \<open>The handlers behind an iterator into the map: such a node is alive.\<close>

definition node :: "('h, 'w) loop \<Rightarrow> addr \<Rightarrow> 'h handlers" where
  "node l a = (case heap l a of Some hs \<Rightarrow> hs | None \<Rightarrow> \<lparr>inEvent = None, outEvent = None\<rparr>)"

text \<open>\<open>m_eventInfos.emplace\<close> for a descriptor that is not there yet\<close>

definition emplace :: "('h, 'w) loop_env \<Rightarrow> fd \<Rightarrow> 'h handlers \<Rightarrow> ('h, 'w) loop \<Rightarrow> addr \<times> ('h, 'w) loop" where
  "emplace env fd hs l =
     (let a = alloc env (map snd (m_eventInfos l)) in
      (a, l\<lparr>m_eventInfos := (fd, a) # m_eventInfos l, heap := (heap l)(a \<mapsto> hs)\<rparr>))"

definition epoll_ctl ::
  "('h, 'w) loop_env \<Rightarrow> ctl_op \<Rightarrow> fd \<Rightarrow> epoll_event \<Rightarrow> ('h, 'w) loop \<Rightarrow> bool \<times> ('h, 'w) loop" where
  "epoll_ctl env op fd ev l =
     (case k_epoll_ctl env (m_epollfd l) op fd ev (world l) of (ok, w) \<Rightarrow> (ok, l\<lparr>world := w\<rparr>))"

text \<open>The part of \<open>addEvent\<close> under the lock; \<^term>\<open>False\<close> is the early return of \<open>-1\<close>.\<close>

definition register_in :: "('h, 'w) loop_env \<Rightarrow> fd \<Rightarrow> 'h \<Rightarrow> ('h, 'w) loop \<Rightarrow> bool \<times> ('h, 'w) loop" where
  "register_in env fd eventHandler l =
     (case find_info l fd of
        None \<Rightarrow>
          (case emplace env fd \<lparr>inEvent = Some eventHandler, outEvent = None\<rparr> l of (a, l) \<Rightarrow>
             epoll_ctl env CTL_ADD fd \<lparr>events = EPOLLIN OR EPOLLET, data_ptr = Some a\<rparr> l)
      | Some a \<Rightarrow>
          let mask = (if outEvent (node l a) \<noteq> None then (EPOLLIN OR EPOLLET) OR EPOLLOUT
                      else EPOLLIN OR EPOLLET);
              l = l\<lparr>heap := (heap l)(a \<mapsto> (node l a)\<lparr>inEvent := Some eventHandler\<rparr>)\<rparr>
          in epoll_ctl env CTL_MOD fd \<lparr>events = mask, data_ptr = Some a\<rparr> l)"

declare register_in_def [loop_simps] emplace_def [loop_simps] epoll_ctl_def [loop_simps]

text \<open>The callback is called until it has nothing left to do; \<^term>\<open>None\<close> is a loop without end.\<close>

partial_function (option) call_until ::
  "('h, 'w) loop_env \<Rightarrow> 'h \<Rightarrow> ('h, 'w) loop \<Rightarrow> (outcome \<times> ('h, 'w) loop) option" where
  "call_until env h l =
     (case run env h l of (r, l') \<Rightarrow>
      case r of
        Throws \<Rightarrow> Some (Throws, l')
      | Returns n \<Rightarrow> if 0 < n then call_until env h l' else Some (Returns 0, l'))"

definition addEvent ::
  "('h, 'w) loop_env \<Rightarrow> fd \<Rightarrow> 'h option \<Rightarrow> ('h, 'w) loop \<Rightarrow> (outcome \<times> ('h, 'w) loop) option" where
  "addEvent env fd eventHandler l =
     (case eventHandler of None \<Rightarrow> Some (Returns (-1), l) | Some h \<Rightarrow>
      if fd = -1 then Some (Returns (-1), l)
      else case register_in env fd h l of (ok, l) \<Rightarrow>
        if \<not> ok then Some (Returns (-1), l) else call_until env h l)"

definition register_out :: "('h, 'w) loop_env \<Rightarrow> fd \<Rightarrow> 'h \<Rightarrow> ('h, 'w) loop \<Rightarrow> bool \<times> ('h, 'w) loop" where
  "register_out env fd eventHandler l =
     (case find_info l fd of
        None \<Rightarrow>
          (case emplace env fd \<lparr>inEvent = None, outEvent = Some eventHandler\<rparr> l of (a, l) \<Rightarrow>
             epoll_ctl env CTL_ADD fd \<lparr>events = EPOLLOUT OR EPOLLET, data_ptr = Some a\<rparr> l)
      | Some a \<Rightarrow>
          let mask = (if inEvent (node l a) \<noteq> None then (EPOLLOUT OR EPOLLET) OR EPOLLIN
                      else EPOLLOUT OR EPOLLET);
              l = l\<lparr>heap := (heap l)(a \<mapsto> (node l a)\<lparr>outEvent := Some eventHandler\<rparr>)\<rparr>
          in epoll_ctl env CTL_MOD fd \<lparr>events = mask, data_ptr = Some a\<rparr> l)"

definition addOutEvent ::
  "('h, 'w) loop_env \<Rightarrow> fd \<Rightarrow> 'h option \<Rightarrow> ('h, 'w) loop \<Rightarrow> (outcome \<times> ('h, 'w) loop) option" where
  "addOutEvent env fd eventHandler l =
     (case eventHandler of None \<Rightarrow> Some (Returns (-1), l) | Some h \<Rightarrow>
      if fd = -1 then Some (Returns (-1), l)
      else case register_out env fd h l of (ok, l) \<Rightarrow>
        if \<not> ok then Some (Returns (-1), l) else call_until env h l)"

section \<open>Removal\<close>

text \<open>The loop over the pending events: the first one with the address loses its removed events.\<close>

fun clear_first :: "addr \<Rightarrow> u32 \<Rightarrow> epoll_event list \<Rightarrow> epoll_event list" where
  "clear_first a removed [] = []"
| "clear_first a removed (e # es) =
     (if data_ptr e = Some a then e\<lparr>events := events e AND NOT removed\<rparr> # es
      else e # clear_first a removed es)"

definition clear_pending :: "addr \<Rightarrow> u32 \<Rightarrow> ('h, 'w) loop \<Rightarrow> ('h, 'w) loop" where
  "clear_pending a removed l =
     (let c = nat (m_eventCount l) in
      l\<lparr>m_events := clear_first a removed (take c (m_events l)) @ drop c (m_events l)\<rparr>)"

text \<open>\<open>m_eventInfos.erase(eventsIter)\<close>: the node is gone.\<close>

definition erase_info :: "fd \<Rightarrow> addr \<Rightarrow> ('h, 'w) loop \<Rightarrow> ('h, 'w) loop" where
  "erase_info fd a l =
     l\<lparr>m_eventInfos := filter (\<lambda>(k, _). k \<noteq> fd) (m_eventInfos l), heap := (heap l)(a := None)\<rparr>"

definition ctl_result :: "bool \<Rightarrow> int" where
  "ctl_result ok = (if ok then 0 else -1)"

definition eraseEvent :: "('h, 'w) loop_env \<Rightarrow> fd \<Rightarrow> ('h, 'w) loop \<Rightarrow> int \<times> ('h, 'w) loop" where
  "eraseEvent env fd l =
     (case find_info l fd of
        None \<Rightarrow> (-1, l)
      | Some a \<Rightarrow>
          if inEvent (node l a) = None then (-1, l)
          else if outEvent (node l a) \<noteq> None then
            (let l = l\<lparr>heap := (heap l)(a \<mapsto> (node l a)\<lparr>inEvent := None\<rparr>)\<rparr> in
             case epoll_ctl env CTL_MOD fd \<lparr>events = EPOLLOUT OR EPOLLET, data_ptr = Some a\<rparr> l of (ok, l) \<Rightarrow>
               (ctl_result ok, clear_pending a EPOLLIN l))
          else
            (case epoll_ctl env CTL_DEL fd no_event l of (ok, l) \<Rightarrow>
               (ctl_result ok, clear_pending a (EPOLLIN OR EPOLLOUT) (erase_info fd a l))))"

definition eraseOutEvent :: "('h, 'w) loop_env \<Rightarrow> fd \<Rightarrow> ('h, 'w) loop \<Rightarrow> int \<times> ('h, 'w) loop" where
  "eraseOutEvent env fd l =
     (case find_info l fd of
        None \<Rightarrow> (-1, l)
      | Some a \<Rightarrow>
          if outEvent (node l a) = None then (-1, l)
          else if inEvent (node l a) \<noteq> None then
            (let l = l\<lparr>heap := (heap l)(a \<mapsto> (node l a)\<lparr>outEvent := None\<rparr>)\<rparr> in
             case epoll_ctl env CTL_MOD fd \<lparr>events = EPOLLIN OR EPOLLET, data_ptr = Some a\<rparr> l of (ok, l) \<Rightarrow>
               (ctl_result ok, clear_pending a EPOLLOUT l))
          else
            (case epoll_ctl env CTL_DEL fd no_event l of (ok, l) \<Rightarrow>
               (ctl_result ok, clear_pending a (EPOLLIN OR EPOLLOUT) (erase_info fd a l))))"

section \<open>The loop\<close>

text \<open>
  What a step of the dispatch ends with: it goes on with this many events left, it has met the stop
  event, or it has followed a pointer to a node that is gone.
\<close>

datatype 'l dispatch = Next nat 'l | Stopped 'l | Crashed 'l

definition clear_flag :: "nat \<Rightarrow> u32 \<Rightarrow> ('h, 'w) loop \<Rightarrow> ('h, 'w) loop" where
  "clear_flag n flag l =
     l\<lparr>m_events := (m_events l)[n := (m_events l ! n)\<lparr>events := events (m_events l ! n) AND NOT flag\<rparr>]\<rparr>"

text \<open>Calling an empty \<open>std::function\<close> throws \<open>std::bad_function_call\<close>.\<close>

definition call :: "('h, 'w) loop_env \<Rightarrow> 'h option \<Rightarrow> ('h, 'w) loop \<Rightarrow> outcome \<times> ('h, 'w) loop" where
  "call env h l = (case h of None \<Rightarrow> (Throws, l) | Some h \<Rightarrow> run env h l)"

definition dispatch_half ::
  "('h, 'w) loop_env \<Rightarrow> ('h handlers \<Rightarrow> 'h option) \<Rightarrow> u32 \<Rightarrow> addr \<Rightarrow> nat \<Rightarrow> ('h, 'w) loop \<Rightarrow> ('h, 'w) loop dispatch" where
  "dispatch_half env handler flag p n l =
     (if events (m_events l ! n) AND flag = 0 then Next 0 l
      else case heap l p of
        None \<Rightarrow> Crashed l
      | Some hs \<Rightarrow>
          (case call env (handler hs) l of (r, l') \<Rightarrow>
           case r of
             Throws \<Rightarrow> Next 0 l'
           | Returns result \<Rightarrow> if 0 < result then Next 1 l' else Next 0 (clear_flag n flag l')))"

definition dispatch_one :: "('h, 'w) loop_env \<Rightarrow> nat \<Rightarrow> ('h, 'w) loop \<Rightarrow> ('h, 'w) loop dispatch" where
  "dispatch_one env n l =
     (case data_ptr (m_events l ! n) of
        None \<Rightarrow> Stopped l
      | Some p \<Rightarrow>
          (case dispatch_half env inEvent EPOLLIN p n l of
             Next a l' \<Rightarrow>
               (case dispatch_half env outEvent EPOLLOUT p n l' of
                  Next b l'' \<Rightarrow> Next (a + b) l''
                | d \<Rightarrow> d)
           | d \<Rightarrow> d))"

text \<open>One round over the indices given, all those below \<open>m_eventCount\<close>.\<close>

fun dispatch_round :: "('h, 'w) loop_env \<Rightarrow> nat list \<Rightarrow> nat \<Rightarrow> ('h, 'w) loop \<Rightarrow> ('h, 'w) loop dispatch" where
  "dispatch_round env [] eventsLeft l = Next eventsLeft l"
| "dispatch_round env (n # ns) eventsLeft l =
     (case dispatch_one env n l of
        Next k l' \<Rightarrow> dispatch_round env ns (eventsLeft + k) l'
      | d \<Rightarrow> d)"

partial_function (option) rounds ::
  "('h, 'w) loop_env \<Rightarrow> ('h, 'w) loop \<Rightarrow> ('h, 'w) loop dispatch option" where
  "rounds env l =
     (case dispatch_round env [0..<nat (m_eventCount l)] 0 l of
        Next eventsLeft l' \<Rightarrow> if eventsLeft \<noteq> 0 then rounds env l' else Some (Next 0 l')
      | Stopped l' \<Rightarrow> Some (Stopped l')
      | Crashed l' \<Rightarrow> Some (Crashed l'))"

text \<open>\<open>epoll_wait\<close> writes the events into \<open>m_events\<close>; its result is then assigned.\<close>

definition fill_events :: "epoll_event list \<Rightarrow> 'w \<Rightarrow> ('h, 'w) loop \<Rightarrow> ('h, 'w) loop" where
  "fill_events es w l = l\<lparr>m_events := es @ drop (length es) (m_events l), world := w\<rparr>"

text \<open>\<open>execute\<close> ends with a return value, \<^term>\<open>None\<close> standing for the crash.\<close>

partial_function (option) execute ::
  "('h, 'w) loop_env \<Rightarrow> ('h, 'w) loop \<Rightarrow> (int option \<times> ('h, 'w) loop) option" where
  "execute env l =
     (case k_epoll_wait env (m_epollfd l) MAXEVENTS (world l) of (res, w) \<Rightarrow>
      case res of
        Inl e \<Rightarrow>
          (let l = l\<lparr>m_eventCount := -1, world := w\<rparr> in
           if e \<noteq> EINTR then Some (Some (-1), l)
           else Option.bind (rounds env l) (\<lambda>d. case d of
               Next _ l' \<Rightarrow> execute env l'
             | Stopped l' \<Rightarrow> Some (Some 0, l')
             | Crashed l' \<Rightarrow> Some (None, l')))
      | Inr es \<Rightarrow>
          (let l = (fill_events es w l)\<lparr>m_eventCount := int (length es)\<rparr> in
           Option.bind (rounds env l) (\<lambda>d. case d of
               Next _ l' \<Rightarrow> execute env l'
             | Stopped l' \<Rightarrow> Some (Some 0, l')
             | Crashed l' \<Rightarrow> Some (None, l'))))"

end
