(* ===== verification/Event_Loop_Safety.thy ===== *)
theory Event_Loop_Safety
  imports Event_Loop
begin

text \<open>
  Why the event loop never follows a pointer to a node that is gone, and never calls an empty
  callback. The locale \<open>epoll\<close> states what the loop relies on: what \<open>epoll_ctl\<close> does to the
  interest list of the kernel, what \<open>epoll_wait\<close> may report, that the allocator gives addresses
  that are free, and that callbacks change the loop through its public operations only. The
  invariant \<open>loop_inv\<close> relates nodes, interest list and pending events; every operation and every
  step of the dispatch keeps it.
\<close>

section \<open>The invariant\<close>

abbreviation wants_in :: "u32 \<Rightarrow> bool" where "wants_in m \<equiv> bit m 0"
abbreviation wants_out :: "u32 \<Rightarrow> bool" where "wants_out m \<equiv> bit m 2"

text \<open>The node at the address is alive and has the handlers for the events of a mask.\<close>

definition covers :: "'h handlers \<Rightarrow> u32 \<Rightarrow> bool" where
  "covers hs m \<longleftrightarrow> (wants_in m \<longrightarrow> inEvent hs \<noteq> None) \<and> (wants_out m \<longrightarrow> outEvent hs \<noteq> None)"

definition served :: "(addr \<rightharpoonup> 'h handlers) \<Rightarrow> addr \<Rightarrow> u32 \<Rightarrow> bool" where
  "served hp a m \<longleftrightarrow> wants_in m \<or> wants_out m \<longrightarrow> (\<exists>hs. hp a = Some hs \<and> covers hs m)"

definition nodes_ok :: "('h, 'w) loop \<Rightarrow> bool" where
  "nodes_ok l \<longleftrightarrow> distinct (map fst (m_eventInfos l)) \<and> distinct (map snd (m_eventInfos l)) \<and>
     dom (heap l) = snd ` set (m_eventInfos l)"

text \<open>In the interest list of the kernel a node has exactly the handlers of the mask.\<close>

definition matches :: "'h handlers \<Rightarrow> u32 \<Rightarrow> bool" where
  "matches hs m \<longleftrightarrow> (wants_in m \<longleftrightarrow> inEvent hs \<noteq> None) \<and> (wants_out m \<longleftrightarrow> outEvent hs \<noteq> None)"

definition serves :: "(addr \<rightharpoonup> 'h handlers) \<Rightarrow> addr \<Rightarrow> u32 \<Rightarrow> bool" where
  "serves hp a m \<longleftrightarrow> (\<exists>hs. hp a = Some hs \<and> matches hs m)"

definition kernel_ok :: "(fd \<rightharpoonup> epoll_event) \<Rightarrow> ('h, 'w) loop \<Rightarrow> bool" where
  "kernel_ok I l \<longleftrightarrow> (\<forall>fd i a. I fd = Some i \<longrightarrow> data_ptr i = Some a \<longrightarrow>
     find_info l fd = Some a \<and> serves (heap l) a (events i))"

definition ptrs :: "epoll_event list \<Rightarrow> addr list" where
  "ptrs es = concat (map (\<lambda>e. case data_ptr e of None \<Rightarrow> [] | Some a \<Rightarrow> [a]) es)"

abbreviation pending :: "('h, 'w) loop \<Rightarrow> epoll_event list" where
  "pending l \<equiv> take (nat (m_eventCount l)) (m_events l)"

definition events_ok :: "(addr \<rightharpoonup> 'h handlers) \<Rightarrow> epoll_event list \<Rightarrow> bool" where
  "events_ok hp es \<longleftrightarrow> distinct (ptrs es) \<and>
     (\<forall>e a. e \<in> set es \<longrightarrow> data_ptr e = Some a \<longrightarrow> served hp a (events e))"

definition pending_ok :: "('h, 'w) loop \<Rightarrow> bool" where
  "pending_ok l \<longleftrightarrow> nat (m_eventCount l) \<le> length (m_events l) \<and> events_ok (heap l) (pending l)"

section \<open>Masks\<close>

lemma flag_bits [simp]:
  "m AND EPOLLIN = 0 \<longleftrightarrow> \<not> wants_in m" "m AND EPOLLOUT = 0 \<longleftrightarrow> \<not> wants_out m"
  using and_exp_eq_0_iff_not_bit [of m 0] and_exp_eq_0_iff_not_bit [of m 2]
  by (simp_all add: EPOLLIN_def EPOLLOUT_def)

lemma bits_of_flags [simp]:
  "wants_in EPOLLIN" "\<not> wants_out EPOLLIN" "\<not> wants_in EPOLLOUT" "wants_out EPOLLOUT"
  "\<not> wants_in EPOLLET" "\<not> wants_out EPOLLET"
  by (simp_all add: EPOLLIN_def EPOLLOUT_def EPOLLET_def)

lemma bit_masks [simp]:
  "wants_in (a OR b) \<longleftrightarrow> wants_in a \<or> wants_in b" "wants_out (a OR b) \<longleftrightarrow> wants_out a \<or> wants_out b"
  "wants_in (a AND NOT b) \<longleftrightarrow> wants_in a \<and> \<not> wants_in b"
  "wants_out (a AND NOT b) \<longleftrightarrow> wants_out a \<and> \<not> wants_out b"
  by (auto simp: bit_simps)

section \<open>Lists of events\<close>

lemma ptrs_simps [simp]:
  "ptrs [] = []"
  "ptrs (e # es) = (case data_ptr e of None \<Rightarrow> ptrs es | Some a \<Rightarrow> a # ptrs es)"
  by (auto simp: ptrs_def split: option.splits)

lemma set_ptrs: "a \<in> set (ptrs es) \<longleftrightarrow> (\<exists>e\<in>set es. data_ptr e = Some a)"
  by (induction es) (auto split: option.splits)

lemma ptrs_cong: "map data_ptr es = map data_ptr fs \<Longrightarrow> ptrs es = ptrs fs"
proof -
  have "ptrs es = concat (map (case_option [] (\<lambda>a. [a])) (map data_ptr es))" for es
    by (simp add: ptrs_def comp_def)
  then show "map data_ptr es = map data_ptr fs \<Longrightarrow> ptrs es = ptrs fs" by metis
qed

lemma clear_first_ptr [simp]: "map data_ptr (clear_first a r es) = map data_ptr es"
  by (induction es) auto

lemma clear_first_length [simp]: "length (clear_first a r es) = length es"
  by (metis clear_first_ptr length_map)

lemma clear_first_cases:
  assumes "distinct (ptrs es)" "e \<in> set (clear_first a r es)"
  obtains "e \<in> set es" "data_ptr e \<noteq> Some a"
  | e0 where "e0 \<in> set es" "data_ptr e0 = Some a" "data_ptr e = Some a" "events e = events e0 AND NOT r"
proof -
  have "(e \<in> set es \<and> data_ptr e \<noteq> Some a) \<or>
      (\<exists>e0\<in>set es. data_ptr e0 = Some a \<and> data_ptr e = Some a \<and> events e = events e0 AND NOT r)"
    using assms
  proof (induction es)
    case (Cons x es)
    show ?case
    proof (cases "data_ptr x = Some a")
      case True
      with Cons.prems have "\<forall>y\<in>set es. data_ptr y \<noteq> Some a" by (auto simp: set_ptrs)
      with True Cons.prems(2) show ?thesis by auto
    next
      case False
      with Cons show ?thesis by (auto split: option.splits)
    qed
  qed simp
  then show ?thesis using that by blast
qed

lemma events_ok_mono:
  assumes "events_ok hp es" "\<And>a m. a \<in> set (ptrs es) \<Longrightarrow> served hp a m \<Longrightarrow> served hp' a m"
  shows "events_ok hp' es"
  using assms by (auto simp: events_ok_def set_ptrs)

text \<open>
  Clearing removed events when a node changes to \<open>hs'\<close> or goes away: what is left of the events is
  served.
\<close>

lemma events_ok_clear:
  assumes ok: "events_ok hp es"
    and here: "\<And>m. served hp a m \<Longrightarrow> served (hp(a := hs')) a (m AND NOT r)"
  shows "events_ok (hp(a := hs')) (clear_first a r es)"
proof -
  have "distinct (ptrs (clear_first a r es))"
    using ok ptrs_cong [OF clear_first_ptr [of a r es]] by (simp add: events_ok_def)
  moreover have "served (hp(a := hs')) b (events e)"
    if "e \<in> set (clear_first a r es)" "data_ptr e = Some b" for e b
  proof -
    have "distinct (ptrs es)" using ok by (simp add: events_ok_def)
    from this that(1) show ?thesis
    proof (cases rule: clear_first_cases)
      case 1
      with that(2) ok show ?thesis by (auto simp: events_ok_def served_def)
    next
      case (2 e0)
      with that(2) ok here show ?thesis by (auto simp: events_ok_def)
    qed
  qed
  ultimately show ?thesis by (simp add: events_ok_def)
qed

lemma pending_clear_pending [simp]:
  "c = m_eventCount l \<Longrightarrow> take (nat c) (m_events (clear_pending a r l)) = clear_first a r (take (nat c) (m_events l))"
  by (auto simp: clear_pending_def Let_def min_def)

lemma length_clear_pending [simp]: "length (m_events (clear_pending a r l)) = length (m_events l)"
  by (auto simp: clear_pending_def Let_def min_def)

section \<open>Frames\<close>

text \<open>What the public operations never change: the descriptor, and where pending events point.\<close>

definition same_queue :: "('h, 'w) loop \<Rightarrow> ('h, 'w) loop \<Rightarrow> bool" where
  "same_queue l l' \<longleftrightarrow> m_epollfd l' = m_epollfd l \<and> m_eventCount l' = m_eventCount l \<and>
     map data_ptr (m_events l') = map data_ptr (m_events l)"

lemma same_queue_refl [simp]: "same_queue l l"
  by (simp add: same_queue_def)

lemma same_queue_trans: "same_queue l l' \<Longrightarrow> same_queue l' l'' \<Longrightarrow> same_queue l l''"
  by (simp add: same_queue_def)

lemma same_queue_length: "same_queue l l' \<Longrightarrow> length (m_events l') = length (m_events l)"
  unfolding same_queue_def by (metis length_map)

lemma same_queue_ptr:
  "same_queue l l' \<Longrightarrow> n < length (m_events l) \<Longrightarrow> data_ptr (m_events l' ! n) = data_ptr (m_events l ! n)"
  unfolding same_queue_def by (metis length_map nth_map)

lemma clear_pending_queue [simp]:
  "m_epollfd (clear_pending a r l) = m_epollfd l" "m_eventCount (clear_pending a r l) = m_eventCount l"
  "map data_ptr (m_events (clear_pending a r l)) = map data_ptr (m_events l)"
  "m_eventInfos (clear_pending a r l) = m_eventInfos l" "heap (clear_pending a r l) = heap l"
  "world (clear_pending a r l) = world l"
  by (simp_all add: clear_pending_def Let_def) (metis append_take_drop_id map_append)

lemma same_queue_ops:
  "register_in env fd h l = (ok, l') \<Longrightarrow> same_queue l l'"
  "register_out env fd h l = (ok, l') \<Longrightarrow> same_queue l l'"
  "eraseEvent env fd l = (r, l') \<Longrightarrow> same_queue l l'"
  "eraseOutEvent env fd l = (r, l') \<Longrightarrow> same_queue l l'"
  by (auto simp: same_queue_def register_in_def register_out_def eraseEvent_def eraseOutEvent_def
      emplace_def epoll_ctl_def erase_info_def Let_def split: option.splits prod.splits if_splits)

section \<open>What the loop relies on\<close>

definition loop_inv :: "(fd \<Rightarrow> 'w \<Rightarrow> fd \<rightharpoonup> epoll_event) \<Rightarrow> ('h, 'w) loop \<Rightarrow> bool" where
  "loop_inv interest l \<longleftrightarrow>
     nodes_ok l \<and> kernel_ok (interest (m_epollfd l) (world l)) l \<and> pending_ok l"

text \<open>
  The changes others can make to the loop: its public operations, and what happens outside of it;
  there, descriptors can leave the interest list because they are closed, but none can enter it.
\<close>

inductive api_steps ::
  "('h, 'w) loop_env \<Rightarrow> (fd \<Rightarrow> 'w \<Rightarrow> fd \<rightharpoonup> epoll_event) \<Rightarrow> ('h, 'w) loop \<Rightarrow> ('h, 'w) loop \<Rightarrow> bool"
  for env interest where
  api_refl: "api_steps env interest l l"
| api_register_in: "api_steps env interest l l' \<Longrightarrow> register_in env fd h l' = (ok, l'') \<Longrightarrow>
    api_steps env interest l l''"
| api_register_out: "api_steps env interest l l' \<Longrightarrow> register_out env fd h l' = (ok, l'') \<Longrightarrow>
    api_steps env interest l l''"
| api_erase_in: "api_steps env interest l l' \<Longrightarrow> eraseEvent env fd l' = (r, l'') \<Longrightarrow>
    api_steps env interest l l''"
| api_erase_out: "api_steps env interest l l' \<Longrightarrow> eraseOutEvent env fd l' = (r, l'') \<Longrightarrow>
    api_steps env interest l l''"
| api_outside: "api_steps env interest l l' \<Longrightarrow>
    interest (m_epollfd l') w \<subseteq>\<^sub>m interest (m_epollfd l') (world l') \<Longrightarrow>
    api_steps env interest l (l'\<lparr>world := w\<rparr>)"

text \<open>The events \<open>epoll_wait\<close> may report for an interest list, each descriptor once.\<close>

definition reports :: "(fd \<rightharpoonup> epoll_event) \<Rightarrow> fd list \<Rightarrow> epoll_event list \<Rightarrow> bool" where
  "reports I fds es \<longleftrightarrow> distinct fds \<and>
     list_all2 (\<lambda>fd e. \<exists>i. I fd = Some i \<and> data_ptr e = data_ptr i \<and>
       (wants_in (events e) \<longrightarrow> wants_in (events i)) \<and>
       (wants_out (events e) \<longrightarrow> wants_out (events i))) fds es"

locale epoll =
  fixes env :: "('h, 'w) loop_env" and interest :: "fd \<Rightarrow> 'w \<Rightarrow> fd \<rightharpoonup> epoll_event"
  assumes alloc_fresh: "alloc env as \<notin> set as"
    and create: "k_epoll_create env w = (Inr ep, w') \<Longrightarrow> interest ep w' = Map.empty"
    and create_eventfd: "k_eventfd env w = (fd, w') \<Longrightarrow> interest ep w' = interest ep w"
    and ctl_add: "k_epoll_ctl env ep CTL_ADD fd ev w = (ok, w') \<Longrightarrow>
      interest ep w' = (if ok then (interest ep w)(fd \<mapsto> ev) else interest ep w)"
    and ctl_mod: "k_epoll_ctl env ep CTL_MOD fd ev w = (ok, w') \<Longrightarrow>
      ok = (interest ep w fd \<noteq> None) \<and>
      interest ep w' = (if ok then (interest ep w)(fd \<mapsto> ev) else interest ep w)"
    and ctl_del: "k_epoll_ctl env ep CTL_DEL fd ev w = (ok, w') \<Longrightarrow>
      ok = (interest ep w fd \<noteq> None) \<and> interest ep w' = (interest ep w)(fd := None)"
    and wait_error: "k_epoll_wait env ep n w = (Inl e, w') \<Longrightarrow> interest ep w' = interest ep w"
    and wait_events: "k_epoll_wait env ep n w = (Inr es, w') \<Longrightarrow>
      interest ep w' = interest ep w \<and> length es \<le> n \<and> (\<exists>fds. reports (interest ep w) fds es)"
    and run_public: "run env h l = (r, l') \<Longrightarrow> api_steps env interest l l'"

section \<open>Preservation\<close>

lemma find_info_mem: "nodes_ok l \<Longrightarrow> (fd, a) \<in> set (m_eventInfos l) \<longleftrightarrow> find_info l fd = Some a"
  by (simp add: nodes_ok_def map_of_eq_Some_iff)

lemma node_alive: "nodes_ok l \<Longrightarrow> find_info l fd = Some a \<Longrightarrow> heap l a = Some (node l a)"
proof -
  assume ok: "nodes_ok l" and "find_info l fd = Some a"
  then have "a \<in> snd ` set (m_eventInfos l)" by (force simp flip: find_info_mem)
  with ok have "a \<in> dom (heap l)" by (simp add: nodes_ok_def)
  then show ?thesis by (auto simp: node_def)
qed

lemma distinct_snd: "distinct (map snd xs) \<Longrightarrow> (k, a) \<in> set xs \<Longrightarrow> (k', a) \<in> set xs \<Longrightarrow> k = k'"
  by (induction xs) (auto simp: image_iff)

lemma find_info_inject:
  assumes "nodes_ok l" "find_info l fd = Some a" "find_info l fd' = Some a"
  shows "fd = fd'"
proof -
  have "distinct (map snd (m_eventInfos l))" using assms(1) by (simp add: nodes_ok_def)
  moreover have "(fd, a) \<in> set (m_eventInfos l)" "(fd', a) \<in> set (m_eventInfos l)"
    using assms by (simp_all add: find_info_mem)
  ultimately show ?thesis by (rule distinct_snd)
qed

lemma map_of_filter_other: "k \<noteq> fd \<Longrightarrow> map_of (filter (\<lambda>(k, _). k \<noteq> fd) xs) k = map_of xs k"
  by (induction xs) auto

lemma served_fresh: "hp a = None \<Longrightarrow> served hp b m \<Longrightarrow> served (hp(a \<mapsto> hs)) b m"
  by (auto simp: served_def)

lemma served_mono:
  "hp a = Some hs \<Longrightarrow> (\<And>m. covers hs m \<Longrightarrow> covers hs' m) \<Longrightarrow> served hp b m \<Longrightarrow> served (hp(a \<mapsto> hs')) b m"
  by (auto simp: served_def)

lemma serves_fresh: "hp a = None \<Longrightarrow> serves hp b m \<Longrightarrow> serves (hp(a \<mapsto> hs)) b m"
  by (auto simp: serves_def)

lemma serves_other: "b \<noteq> a \<Longrightarrow> serves (hp(a := x)) b m = serves hp b m"
  by (simp add: serves_def)

lemma served_other: "b \<noteq> a \<Longrightarrow> served (hp(a := x)) b m = served hp b m"
  by (simp add: served_def)

text \<open>A new node, and the interest list with it or without.\<close>

lemma emplace_inv:
  assumes inv: "nodes_ok l" "kernel_ok I l" "pending_ok l"
    and new: "find_info l fd = None" "a \<notin> set (map snd (m_eventInfos l))"
    and l': "m_eventInfos l' = (fd, a) # m_eventInfos l" "heap l' = (heap l)(a \<mapsto> hs)"
      "m_events l' = m_events l" "m_eventCount l' = m_eventCount l"
    and I': "I' = I \<or> I' = I(fd \<mapsto> \<lparr>events = m, data_ptr = Some a\<rparr>)" and m: "matches hs m"
  shows "nodes_ok l' \<and> kernel_ok I' l' \<and> pending_ok l'"
proof -
  have free: "heap l a = None" using inv(1) new(2) by (auto simp: nodes_ok_def)
  have "nodes_ok l'"
    using inv(1) new l' by (auto simp: nodes_ok_def map_of_eq_None_iff)
  moreover have "kernel_ok I' l'" unfolding kernel_ok_def
  proof (intro allI impI)
    fix fd' i b assume i: "I' fd' = Some i" "data_ptr i = Some b"
    show "find_info l' fd' = Some b \<and> serves (heap l') b (events i)"
    proof (cases "I fd' = Some i")
      case True
      with i inv(2) have k: "find_info l fd' = Some b" "serves (heap l) b (events i)"
        by (auto simp: kernel_ok_def)
      with new(1) have "fd' \<noteq> fd" by auto
      with k l' serves_fresh [where hp = "heap l", OF free] show ?thesis by simp
    next
      case False
      with i I' have "fd' = fd" "i = \<lparr>events = m, data_ptr = Some a\<rparr>" by (auto split: if_splits)
      with i l' m show ?thesis by (auto simp: serves_def)
    qed
  qed
  moreover have "pending_ok l'"
    using inv(3) l' served_fresh [where hp = "heap l", OF free] by (auto simp: pending_ok_def events_ok_def)
  ultimately show ?thesis by simp
qed

text \<open>A node with changed handlers, and its entry in the interest list, where it has one.\<close>

lemma modify_inv:
  assumes inv: "nodes_ok l" "kernel_ok I l" "pending_ok l"
    and old: "find_info l fd = Some a" "heap l a = Some hs"
    and l': "m_eventInfos l' = m_eventInfos l" "heap l' = (heap l)(a \<mapsto> hs')"
      "m_eventCount l' = m_eventCount l" "length (m_events l') = length (m_events l)"
      "pending l' = clear_first a r (pending l)"
    and I': "I' = (if I fd = None then I else I(fd \<mapsto> \<lparr>events = m, data_ptr = Some a\<rparr>))"
    and m: "matches hs' m" and step: "\<And>k. covers hs k \<Longrightarrow> covers hs' (k AND NOT r)"
  shows "nodes_ok l' \<and> kernel_ok I' l' \<and> pending_ok l'"
proof -
  have "nodes_ok l'" using inv(1) old l' by (auto simp: nodes_ok_def)
  moreover have "kernel_ok I' l'" unfolding kernel_ok_def
  proof (intro allI impI)
    fix fd' i b assume i: "I' fd' = Some i" "data_ptr i = Some b"
    show "find_info l' fd' = Some b \<and> serves (heap l') b (events i)"
    proof (cases "fd' = fd")
      case True
      with i I' m l' old show ?thesis by (auto simp: serves_def split: if_splits)
    next
      case False
      with i I' have "I fd' = Some i" by (simp split: if_splits)
      with i inv(2) have k: "find_info l fd' = Some b" "serves (heap l) b (events i)"
        by (auto simp: kernel_ok_def)
      with False old find_info_inject [OF inv(1)] have "b \<noteq> a" by blast
      with k l' show ?thesis by (simp add: serves_other)
    qed
  qed
  moreover have "served (heap l) a k \<Longrightarrow> served ((heap l)(a := Some hs')) a (k AND NOT r)" for k
    using old step [of k] by (auto simp: served_def)
  then have "events_ok (heap l') (pending l')"
    using inv(3) events_ok_clear unfolding l'(2,5) pending_ok_def by blast
  then have "pending_ok l'" using inv(3) l' by (simp add: pending_ok_def)
  ultimately show ?thesis by simp
qed

text \<open>A node that goes away together with its entry in the interest list.\<close>

lemma remove_inv:
  assumes inv: "nodes_ok l" "kernel_ok I l" "pending_ok l"
    and old: "find_info l fd = Some a"
    and l': "m_eventInfos l' = filter (\<lambda>(k, _). k \<noteq> fd) (m_eventInfos l)" "heap l' = (heap l)(a := None)"
      "m_eventCount l' = m_eventCount l" "length (m_events l') = length (m_events l)"
      "pending l' = clear_first a (EPOLLIN OR EPOLLOUT) (pending l)"
  shows "nodes_ok l' \<and> kernel_ok (I(fd := None)) l' \<and> pending_ok l'"
proof -
  have uniq: "(k, a) \<in> set (m_eventInfos l) \<Longrightarrow> k = fd" for k
    using inv(1) old find_info_inject [OF inv(1)] by (simp add: find_info_mem)
  have mem: "(fd, b) \<in> set (m_eventInfos l) \<Longrightarrow> b = a" for b
    using inv(1) old by (simp add: find_info_mem)
  have "snd ` set (m_eventInfos l') = snd ` set (m_eventInfos l) - {a}"
  proof (intro set_eqI iffI)
    fix b assume "b \<in> snd ` set (m_eventInfos l')"
    then obtain k where "(k, b) \<in> set (m_eventInfos l)" "k \<noteq> fd" by (auto simp: l')
    with uniq show "b \<in> snd ` set (m_eventInfos l) - {a}" by force
  next
    fix b assume "b \<in> snd ` set (m_eventInfos l) - {a}"
    then obtain k where "(k, b) \<in> set (m_eventInfos l)" "b \<noteq> a" by auto
    with mem have "(k, b) \<in> set (m_eventInfos l')" by (auto simp: l')
    then show "b \<in> snd ` set (m_eventInfos l')" by force
  qed
  then have "nodes_ok l'"
    using inv(1) unfolding nodes_ok_def l'
    by (simp add: distinct_map_filter)
  have other: "find_info l' fd' = find_info l fd'" if "fd' \<noteq> fd" for fd'
    unfolding l'(1) using that by (rule map_of_filter_other)
  have "kernel_ok (I(fd := None)) l'"
    unfolding kernel_ok_def
  proof (intro allI impI)
    fix fd' i b assume i: "(I(fd := None)) fd' = Some i" "data_ptr i = Some b"
    then have ne: "fd' \<noteq> fd" and k: "find_info l fd' = Some b" "serves (heap l) b (events i)"
      using inv(2) by (auto simp: kernel_ok_def split: if_splits)
    with find_info_inject [OF inv(1) old] have "b \<noteq> a" by blast
    with k other [OF ne] show "find_info l' fd' = Some b \<and> serves (heap l') b (events i)"
      by (simp add: l'(2) serves_other)
  qed
  have "served (heap l) a k \<Longrightarrow> served ((heap l)(a := None)) a (k AND NOT (EPOLLIN OR EPOLLOUT))" for k
    by (auto simp: served_def bit_simps)
  then have "events_ok (heap l') (pending l')"
    using inv(3) events_ok_clear unfolding l'(2,5) pending_ok_def by blast
  then have "pending_ok l'" using inv(3) l' by (simp add: pending_ok_def)
  with \<open>nodes_ok l'\<close> \<open>kernel_ok (I(fd := None)) l'\<close> show ?thesis by simp
qed

lemma clear_first_0 [simp]: "clear_first a 0 es = es"
proof (induction es)
  case (Cons e es)
  then show ?case by (cases e) simp
qed simp

lemma matches_masks [simp]:
  "matches \<lparr>inEvent = Some h, outEvent = None\<rparr> (EPOLLIN OR EPOLLET)"
  "matches \<lparr>inEvent = None, outEvent = Some h\<rparr> (EPOLLOUT OR EPOLLET)"
  by (simp_all add: matches_def)

text \<open>Opening a \<open>loop_inv\<close> of a state that differs in the world only.\<close>

lemma loop_invI:
  assumes "nodes_ok l' \<and> kernel_ok I l' \<and> pending_ok l'"
    and "I = interest (m_epollfd l') (world l')"
  shows "loop_inv interest l'"
  using assms by (simp add: loop_inv_def)

context epoll
begin

lemma emplace_fresh: "alloc env (map snd (m_eventInfos l)) \<notin> snd ` set (m_eventInfos l)"
  using alloc_fresh [of "map snd (m_eventInfos l)"] by simp

lemma register_in_inv:
  assumes inv: "loop_inv interest l" and reg: "register_in env fd h l = (ok, l')"
  shows "loop_inv interest l'"
proof (cases "find_info l fd")
  case None
  let ?a = "alloc env (map snd (m_eventInfos l))"
  let ?ev = "\<lparr>events = EPOLLIN OR EPOLLET, data_ptr = Some ?a\<rparr>"
  obtain w where k: "k_epoll_ctl env (m_epollfd l) CTL_ADD fd ?ev (world l) = (ok, w)"
    and l': "l' = l\<lparr>m_eventInfos := (fd, ?a) # m_eventInfos l,
        heap := (heap l)(?a \<mapsto> \<lparr>inEvent = Some h, outEvent = None\<rparr>), world := w\<rparr>"
    using reg None by (auto simp: loop_simps Let_def split: prod.splits)
  show ?thesis
    by (rule loop_invI, rule emplace_inv [of l _ fd ?a])
       (use inv None emplace_fresh [of l] ctl_add [OF k] in \<open>auto simp: loop_inv_def l'\<close>)
next
  case (Some a)
  let ?hs = "(node l a)\<lparr>inEvent := Some h\<rparr>"
  let ?m = "if outEvent (node l a) \<noteq> None then (EPOLLIN OR EPOLLET) OR EPOLLOUT else EPOLLIN OR EPOLLET"
  obtain w where k: "k_epoll_ctl env (m_epollfd l) CTL_MOD fd \<lparr>events = ?m, data_ptr = Some a\<rparr> (world l) = (ok, w)"
    and l': "l' = l\<lparr>heap := (heap l)(a \<mapsto> ?hs), world := w\<rparr>"
    using reg Some by (auto simp: register_in_def epoll_ctl_def Let_def split: prod.splits)
  have alive: "heap l a = Some (node l a)" using inv Some node_alive unfolding loop_inv_def by blast
  show ?thesis
    by (rule loop_invI, rule modify_inv [where fd = fd and a = a and hs = "node l a" and hs' = ?hs
          and m = ?m and r = 0 and l = l])
       (use inv Some alive ctl_mod [OF k] in \<open>auto simp: loop_inv_def l' covers_def matches_def\<close>)
qed

lemma register_out_inv:
  assumes inv: "loop_inv interest l" and reg: "register_out env fd h l = (ok, l')"
  shows "loop_inv interest l'"
proof (cases "find_info l fd")
  case None
  let ?a = "alloc env (map snd (m_eventInfos l))"
  let ?ev = "\<lparr>events = EPOLLOUT OR EPOLLET, data_ptr = Some ?a\<rparr>"
  obtain w where k: "k_epoll_ctl env (m_epollfd l) CTL_ADD fd ?ev (world l) = (ok, w)"
    and l': "l' = l\<lparr>m_eventInfos := (fd, ?a) # m_eventInfos l,
        heap := (heap l)(?a \<mapsto> \<lparr>inEvent = None, outEvent = Some h\<rparr>), world := w\<rparr>"
    using reg None by (auto simp: register_out_def emplace_def epoll_ctl_def Let_def split: prod.splits)
  show ?thesis
    by (rule loop_invI, rule emplace_inv [of l _ fd ?a])
       (use inv None emplace_fresh [of l] ctl_add [OF k] in \<open>auto simp: loop_inv_def l'\<close>)
next
  case (Some a)
  let ?hs = "(node l a)\<lparr>outEvent := Some h\<rparr>"
  let ?m = "if inEvent (node l a) \<noteq> None then (EPOLLOUT OR EPOLLET) OR EPOLLIN else EPOLLOUT OR EPOLLET"
  obtain w where k: "k_epoll_ctl env (m_epollfd l) CTL_MOD fd \<lparr>events = ?m, data_ptr = Some a\<rparr> (world l) = (ok, w)"
    and l': "l' = l\<lparr>heap := (heap l)(a \<mapsto> ?hs), world := w\<rparr>"
    using reg Some by (auto simp: register_out_def epoll_ctl_def Let_def split: prod.splits)
  have alive: "heap l a = Some (node l a)" using inv Some node_alive unfolding loop_inv_def by blast
  show ?thesis
    by (rule loop_invI, rule modify_inv [where fd = fd and a = a and hs = "node l a" and hs' = ?hs
          and m = ?m and r = 0 and l = l])
       (use inv Some alive ctl_mod [OF k] in \<open>auto simp: loop_inv_def l' covers_def matches_def\<close>)
qed

lemma eraseEvent_inv:
  assumes inv: "loop_inv interest l" and er: "eraseEvent env fd l = (r, l')"
  shows "loop_inv interest l'"
proof (cases "\<exists>a. find_info l fd = Some a \<and> inEvent (node l a) \<noteq> None")
  case False
  with inv er show ?thesis by (auto simp: eraseEvent_def split: option.splits)
next
  case True
  then obtain a where a: "find_info l fd = Some a" "inEvent (node l a) \<noteq> None" by blast
  have alive: "heap l a = Some (node l a)" using inv a(1) node_alive unfolding loop_inv_def by blast
  have base: "nodes_ok l" "kernel_ok (interest (m_epollfd l) (world l)) l" "pending_ok l"
    using inv by (simp_all add: loop_inv_def)
  show ?thesis
  proof (cases "outEvent (node l a) \<noteq> None")
    case True
    let ?hs = "(node l a)\<lparr>inEvent := None\<rparr>"
    obtain ok w where k: "k_epoll_ctl env (m_epollfd l) CTL_MOD fd
          \<lparr>events = EPOLLOUT OR EPOLLET, data_ptr = Some a\<rparr> (world l) = (ok, w)"
      and l': "l' = clear_pending a EPOLLIN (l\<lparr>heap := (heap l)(a \<mapsto> ?hs), world := w\<rparr>)"
      using er a True by (auto simp: eraseEvent_def epoll_ctl_def Let_def split: prod.splits)
    show ?thesis
      by (rule loop_invI, rule modify_inv [OF base a(1) alive, where hs' = ?hs and r = EPOLLIN
            and m = "EPOLLOUT OR EPOLLET"])
         (use True ctl_mod [OF k] in \<open>auto simp: l' covers_def matches_def\<close>)
  next
    case False
    obtain ok w where k: "k_epoll_ctl env (m_epollfd l) CTL_DEL fd no_event (world l) = (ok, w)"
      and l': "l' = clear_pending a (EPOLLIN OR EPOLLOUT) (erase_info fd a (l\<lparr>world := w\<rparr>))"
      using er a False by (auto simp: eraseEvent_def epoll_ctl_def split: prod.splits)
    show ?thesis
      by (rule loop_invI, rule remove_inv [OF base a(1)])
         (use ctl_del [OF k] in \<open>auto simp: l' erase_info_def\<close>)
  qed
qed

lemma eraseOutEvent_inv:
  assumes inv: "loop_inv interest l" and er: "eraseOutEvent env fd l = (r, l')"
  shows "loop_inv interest l'"
proof (cases "\<exists>a. find_info l fd = Some a \<and> outEvent (node l a) \<noteq> None")
  case False
  with inv er show ?thesis by (auto simp: eraseOutEvent_def split: option.splits)
next
  case True
  then obtain a where a: "find_info l fd = Some a" "outEvent (node l a) \<noteq> None" by blast
  have alive: "heap l a = Some (node l a)" using inv a(1) node_alive unfolding loop_inv_def by blast
  have base: "nodes_ok l" "kernel_ok (interest (m_epollfd l) (world l)) l" "pending_ok l"
    using inv by (simp_all add: loop_inv_def)
  show ?thesis
  proof (cases "inEvent (node l a) \<noteq> None")
    case True
    let ?hs = "(node l a)\<lparr>outEvent := None\<rparr>"
    obtain ok w where k: "k_epoll_ctl env (m_epollfd l) CTL_MOD fd
          \<lparr>events = EPOLLIN OR EPOLLET, data_ptr = Some a\<rparr> (world l) = (ok, w)"
      and l': "l' = clear_pending a EPOLLOUT (l\<lparr>heap := (heap l)(a \<mapsto> ?hs), world := w\<rparr>)"
      using er a True by (auto simp: eraseOutEvent_def epoll_ctl_def Let_def split: prod.splits)
    show ?thesis
      by (rule loop_invI, rule modify_inv [OF base a(1) alive, where hs' = ?hs and r = EPOLLOUT
            and m = "EPOLLIN OR EPOLLET"])
         (use True ctl_mod [OF k] in \<open>auto simp: l' covers_def matches_def\<close>)
  next
    case False
    obtain ok w where k: "k_epoll_ctl env (m_epollfd l) CTL_DEL fd no_event (world l) = (ok, w)"
      and l': "l' = clear_pending a (EPOLLIN OR EPOLLOUT) (erase_info fd a (l\<lparr>world := w\<rparr>))"
      using er a False by (auto simp: eraseOutEvent_def epoll_ctl_def split: prod.splits)
    show ?thesis
      by (rule loop_invI, rule remove_inv [OF base a(1)])
         (use ctl_del [OF k] in \<open>auto simp: l' erase_info_def\<close>)
  qed
qed

lemma outside_inv:
  assumes "loop_inv interest l" "interest (m_epollfd l) w \<subseteq>\<^sub>m interest (m_epollfd l) (world l)"
  shows "loop_inv interest (l\<lparr>world := w\<rparr>)"
  using assms unfolding loop_inv_def kernel_ok_def nodes_ok_def pending_ok_def map_le_def
  by (auto simp: dom_def)

lemma api_steps_inv:
  "api_steps env interest l l' \<Longrightarrow> loop_inv interest l \<Longrightarrow> loop_inv interest l' \<and> same_queue l l'"
proof (induction rule: api_steps.induct)
  case (api_outside l l' w)
  then show ?case using outside_inv [of l' w] by (simp add: same_queue_def)
qed (blast intro: same_queue_refl same_queue_trans same_queue_ops register_in_inv register_out_inv
      eraseEvent_inv eraseOutEvent_inv)+

end

end
