(* ===== verification/Event_Loop_Run.thy ===== *)
theory Event_Loop_Run
  imports Event_Loop_Safety
begin

text \<open>
  Runs of the event loop. The dispatch of pending events keeps the invariant of
  \<open>Event_Loop_Safety\<close> and never crashes; a round that meets the stop event ends \<open>execute\<close>. The
  relation \<open>loop_step\<close> splits \<open>execute\<close> where it runs without the lock, so that the operations of
  other threads can come between: everywhere when \<open>racing\<close> holds, and everywhere but between the
  return of \<open>epoll_wait\<close> and the assignment of \<open>m_eventCount\<close> otherwise. A reachable state of the
  second kind is safe.
\<close>

section \<open>Dispatching\<close>

definition dispatch_safe ::
  "(fd \<Rightarrow> 'w \<Rightarrow> fd \<rightharpoonup> epoll_event) \<Rightarrow> ('h, 'w) loop \<Rightarrow> ('h, 'w) loop dispatch \<Rightarrow> bool" where
  "dispatch_safe interest l d \<longleftrightarrow> (case d of
     Next _ l' \<Rightarrow> loop_inv interest l' \<and> same_queue l l'
   | Stopped l' \<Rightarrow> loop_inv interest l' \<and> same_queue l l'
   | Crashed _ \<Rightarrow> False)"

lemma served_sub:
  "served hp a m \<Longrightarrow> (wants_in k \<longrightarrow> wants_in m) \<Longrightarrow> (wants_out k \<longrightarrow> wants_out m) \<Longrightarrow> served hp a k"
  unfolding served_def covers_def by blast

lemma map_data_ptr_clear_flag: "map data_ptr (m_events (clear_flag n f l)) = map data_ptr (m_events l)"
  by (cases "n < length (m_events l)")
     (simp_all add: clear_flag_def map_update list_update_same_conv list_update_beyond)

lemma clear_flag_inv:
  assumes inv: "loop_inv interest l" and n: "n < nat (m_eventCount l)"
  shows "loop_inv interest (clear_flag n f l) \<and> same_queue l (clear_flag n f l)"
proof -
  let ?l = "clear_flag n f l" and ?e = "m_events l ! n"
  have len: "nat (m_eventCount l) \<le> length (m_events l)" and ok: "events_ok (heap l) (pending l)"
    using inv by (simp_all add: loop_inv_def pending_ok_def)
  have pend: "pending ?l = (pending l)[n := ?e\<lparr>events := events ?e AND NOT f\<rparr>]"
    using n by (simp add: clear_flag_def take_update_swap)
  have "ptrs (pending ?l) = ptrs (pending l)"
    using arg_cong [OF map_data_ptr_clear_flag [of n f l], of "take (nat (m_eventCount l))"]
    by (intro ptrs_cong) (simp add: take_map clear_flag_def)
  moreover have "served (heap l) a (events e)" if "e \<in> set (pending ?l)" "data_ptr e = Some a" for e a
  proof (cases "e \<in> set (pending l)")
    case True
    with ok that show ?thesis by (simp add: events_ok_def)
  next
    case False
    with that pend have e: "e = ?e\<lparr>events := events ?e AND NOT f\<rparr>"
      using set_update_subset_insert by fastforce
    have "?e \<in> set (pending l)" using n len by (auto simp: in_set_conv_nth)
    with ok that e have "served (heap l) a (events ?e)" by (simp add: events_ok_def)
    then show ?thesis unfolding e by (auto intro: served_sub)
  qed
  ultimately have "events_ok (heap l) (pending ?l)" using ok by (simp add: events_ok_def)
  moreover have "length (m_events ?l) = length (m_events l)" by (simp add: clear_flag_def)
  ultimately show ?thesis
    using inv len map_data_ptr_clear_flag [of n f l]
    by (simp add: loop_inv_def pending_ok_def nodes_ok_def kernel_ok_def same_queue_def)
       (simp add: clear_flag_def)
qed

text \<open>A node with pending events is alive and has the handler.\<close>

lemma pending_served:
  assumes "loop_inv interest l" "n < nat (m_eventCount l)" "data_ptr (m_events l ! n) = Some p"
  shows "served (heap l) p (events (m_events l ! n))"
proof -
  have "m_events l ! n \<in> set (pending l)"
    using assms by (auto simp: loop_inv_def pending_ok_def in_set_conv_nth)
  with assms show ?thesis by (simp add: loop_inv_def pending_ok_def events_ok_def)
qed

context epoll
begin

lemma call_inv: "loop_inv interest l \<Longrightarrow> call env h l = (r, l') \<Longrightarrow> loop_inv interest l' \<and> same_queue l l'"
  using api_steps_inv [OF run_public] by (auto simp: call_def split: option.splits)

lemma dispatch_half_safe:
  assumes inv: "loop_inv interest l" "n < nat (m_eventCount l)" "data_ptr (m_events l ! n) = Some p"
    and flag: "flag = EPOLLIN \<or> flag = EPOLLOUT"
  shows "dispatch_safe interest l (dispatch_half env handler flag p n l)"
proof (cases "events (m_events l ! n) AND flag = 0")
  case False
  with flag pending_served [OF inv] obtain hs where "heap l p = Some hs"
    by (auto simp: served_def)
  moreover obtain r l' where r: "call env (handler hs) l = (r, l')" by fastforce
  moreover have "loop_inv interest l' \<and> same_queue l l'" using call_inv [OF inv(1) r] .
  moreover have "n < nat (m_eventCount l')" using calculation(3) inv(2) by (simp add: same_queue_def)
  ultimately show ?thesis using False clear_flag_inv [of interest l' n flag]
    by (auto simp: dispatch_half_def dispatch_safe_def split: outcome.splits intro: same_queue_trans)
qed (use inv(1) in \<open>simp add: dispatch_half_def dispatch_safe_def\<close>)

lemma dispatch_half_not_stopped: "dispatch_half env handler flag p n l \<noteq> Stopped l'"
  by (auto simp: dispatch_half_def split: option.splits outcome.splits prod.splits if_splits)

lemma dispatch_one_safe:
  assumes "loop_inv interest l" "n < nat (m_eventCount l)"
  shows "dispatch_safe interest l (dispatch_one env n l)"
    and "(\<exists>l'. dispatch_one env n l = Stopped l') \<longleftrightarrow> data_ptr (m_events l ! n) = None"
proof -
  have "dispatch_safe interest l (dispatch_one env n l) \<and>
      ((\<exists>l'. dispatch_one env n l = Stopped l') \<longleftrightarrow> data_ptr (m_events l ! n) = None)"
  proof (cases "data_ptr (m_events l ! n)")
    case None
    with assms show ?thesis by (simp add: dispatch_one_def dispatch_safe_def)
  next
    case (Some p)
    have n: "n < length (m_events l)" using assms by (auto simp: loop_inv_def pending_ok_def)
    have safe: "dispatch_safe interest l (dispatch_half env inEvent EPOLLIN p n l)"
      using dispatch_half_safe assms Some by blast
    then obtain a l1 where 1: "dispatch_half env inEvent EPOLLIN p n l = Next a l1"
        "loop_inv interest l1" "same_queue l l1"
      by (cases "dispatch_half env inEvent EPOLLIN p n l")
         (auto simp: dispatch_safe_def dispatch_half_not_stopped)
    then have "data_ptr (m_events l1 ! n) = Some p" "n < nat (m_eventCount l1)"
      using Some assms(2) same_queue_ptr [OF 1(3) n] 1(3) by (simp_all add: same_queue_def)
    then have "dispatch_safe interest l1 (dispatch_half env outEvent EPOLLOUT p n l1)"
      using dispatch_half_safe 1(2) by blast
    then show ?thesis using 1 Some
      by (cases "dispatch_half env outEvent EPOLLOUT p n l1")
         (auto simp: dispatch_one_def dispatch_safe_def dispatch_half_not_stopped intro: same_queue_trans)
  qed
  then show "dispatch_safe interest l (dispatch_one env n l)"
    "(\<exists>l'. dispatch_one env n l = Stopped l') \<longleftrightarrow> data_ptr (m_events l ! n) = None" by blast+
qed

text \<open>A round is safe, and it ends at the stop event just when there is one among its events.\<close>

lemma dispatch_round_safe:
  assumes "loop_inv interest l" "\<forall>n\<in>set ns. n < nat (m_eventCount l)"
  shows "dispatch_safe interest l (dispatch_round env ns k l)"
    and "(\<exists>l'. dispatch_round env ns k l = Stopped l') \<longleftrightarrow> (\<exists>n\<in>set ns. data_ptr (m_events l ! n) = None)"
proof -
  have "dispatch_safe interest l (dispatch_round env ns k l) \<and>
      ((\<exists>l'. dispatch_round env ns k l = Stopped l') \<longleftrightarrow> (\<exists>n\<in>set ns. data_ptr (m_events l ! n) = None))"
    using assms
  proof (induction ns arbitrary: k l)
    case Nil
    then show ?case by (simp add: dispatch_safe_def)
  next
    case (Cons n ns)
    note one = dispatch_one_safe [of l n]
    show ?case
    proof (cases "dispatch_one env n l")
      case (Next j l')
      with one Cons.prems have l': "loop_inv interest l'" "same_queue l l'"
        by (auto simp: dispatch_safe_def)
      have eq: "\<forall>i\<in>set ns. data_ptr (m_events l' ! i) = data_ptr (m_events l ! i)"
        using Cons.prems same_queue_ptr [OF l'(2)] by (auto simp: loop_inv_def pending_ok_def)
      have "\<forall>i\<in>set ns. i < nat (m_eventCount l')"
        using Cons.prems(2) l'(2) by (simp add: same_queue_def)
      from Cons.IH [OF l'(1) this, of "k + j"] show ?thesis
        using Next one Cons.prems l'(2) eq
        by (auto simp: dispatch_safe_def split: dispatch.splits intro: same_queue_trans)
    next
      case (Stopped l')
      with one Cons.prems show ?thesis by (auto simp: dispatch_safe_def)
    next
      case (Crashed l')
      with one Cons.prems show ?thesis by (auto simp: dispatch_safe_def)
    qed
  qed
  then show "dispatch_safe interest l (dispatch_round env ns k l)"
    "(\<exists>l'. dispatch_round env ns k l = Stopped l') \<longleftrightarrow> (\<exists>n\<in>set ns. data_ptr (m_events l ! n) = None)"
    by blast+
qed

lemma rounds_safe: "rounds env l = Some d \<Longrightarrow> loop_inv interest l \<Longrightarrow> dispatch_safe interest l d"
proof (rule rounds.raw_induct
    [where P = "\<lambda>e l d. e = env \<longrightarrow> loop_inv interest l \<longrightarrow> dispatch_safe interest l d", rule_format])
  fix f e l d
  assume IH: "\<And>e l d. f e l = Some d \<Longrightarrow> e = env \<Longrightarrow> loop_inv interest l \<Longrightarrow> dispatch_safe interest l d"
    and eq: "(case dispatch_round e [0..<nat (m_eventCount l)] 0 l of
        Next eventsLeft l' \<Rightarrow> if eventsLeft \<noteq> 0 then f e l' else Some (Next 0 l')
      | Stopped l' \<Rightarrow> Some (Stopped l') | Crashed l' \<Rightarrow> Some (Crashed l')) = Some d"
    and e: "e = env" and inv: "loop_inv interest l"
  have safe: "dispatch_safe interest l (dispatch_round env [0..<nat (m_eventCount l)] 0 l)"
    by (rule dispatch_round_safe(1) [OF inv]) simp
  show "dispatch_safe interest l d"
  proof (cases "dispatch_round env [0..<nat (m_eventCount l)] 0 l")
    case (Next k l')
    with safe have l': "loop_inv interest l'" "same_queue l l'" by (simp_all add: dispatch_safe_def)
    show ?thesis
    proof (cases "k = 0")
      case True
      with eq e Next l' show ?thesis by (auto simp: dispatch_safe_def)
    next
      case False
      with eq e Next have "f env l' = Some d" by simp
      from IH [OF this refl l'(1)] l'(2) show ?thesis
        by (auto simp: dispatch_safe_def split: dispatch.splits intro: same_queue_trans)
    qed
  qed (use eq e safe in \<open>auto simp: dispatch_safe_def\<close>)
qed auto

text \<open>The events of \<open>epoll_wait\<close> point to nodes with their handlers, each node once.\<close>

lemma reports_ok:
  assumes "nodes_ok l" "kernel_ok I l" "reports I fds es"
  shows "events_ok (heap l) es"
proof -
  let ?R = "\<lambda>fd e. \<exists>i. I fd = Some i \<and> data_ptr e = data_ptr i \<and>
       (wants_in (events e) \<longrightarrow> wants_in (events i)) \<and> (wants_out (events e) \<longrightarrow> wants_out (events i))"
  have "list_all2 ?R fds es" and "distinct fds" using assms(3) by (simp_all add: reports_def)
  then have "events_ok (heap l) es \<and> (\<forall>a\<in>set (ptrs es). \<exists>fd\<in>set fds. find_info l fd = Some a)"
  proof (induction rule: list_all2_induct)
    case Nil
    then show ?case by (simp add: events_ok_def)
  next
    case (Cons fd fds e es)
    obtain i where i: "I fd = Some i" "data_ptr e = data_ptr i"
      "wants_in (events e) \<longrightarrow> wants_in (events i)" "wants_out (events e) \<longrightarrow> wants_out (events i)"
      using Cons.hyps by blast
    show ?case
    proof (cases "data_ptr e")
      case None
      with Cons show ?thesis by (auto simp: events_ok_def)
    next
      case (Some a)
      with i(2) have "data_ptr i = Some a" by simp
      with i(1) assms(2) have a: "find_info l fd = Some a" "serves (heap l) a (events i)"
        unfolding kernel_ok_def by blast+
      have "a \<notin> set (ptrs es)"
      proof
        assume "a \<in> set (ptrs es)"
        then obtain fd' where "fd' \<in> set fds" "find_info l fd' = Some a" using Cons by auto
        with find_info_inject [OF assms(1) a(1)] Cons.prems show False by auto
      qed
      moreover have "served (heap l) a (events e)"
        using a(2) i(3,4) by (auto simp: serves_def matches_def served_def covers_def)
      ultimately show ?thesis using Cons Some a(1) by (auto simp: events_ok_def)
    qed
  qed
  then show ?thesis by blast
qed

lemma fill_inv:
  assumes inv: "nodes_ok l" "kernel_ok (interest (m_epollfd l) (world l)) l"
    and wait: "k_epoll_wait env (m_epollfd l) n (world l) = (Inr es, w)"
  shows "loop_inv interest ((fill_events es w l)\<lparr>m_eventCount := int (length es)\<rparr>)"
proof -
  obtain fds where "reports (interest (m_epollfd l) (world l)) fds es" using wait_events [OF wait] by blast
  from reports_ok [OF inv this] inv wait_events [OF wait] show ?thesis
    by (auto simp: loop_inv_def nodes_ok_def kernel_ok_def pending_ok_def fill_events_def)
qed

lemma init_inv: "EventLoop_init env events0 w = (Inr l, w') \<Longrightarrow> loop_inv interest l"
proof -
  assume init: "EventLoop_init env events0 w = (Inr l, w')"
  then obtain ep w1 stopFd w2 where k: "k_epoll_create env w = (Inr ep, w1)" "k_eventfd env w1 = (stopFd, w2)"
      "k_epoll_ctl env ep CTL_ADD stopFd \<lparr>events = EPOLLIN OR EPOLLET, data_ptr = None\<rparr> w2 = (True, w')"
    and l: "l = \<lparr>m_epollfd = ep, m_stopFd = stopFd, m_eventInfos = [], heap = Map.empty,
                m_events = events0, m_eventCount = 0, world = w'\<rparr>"
    by (auto simp: EventLoop_init_def Let_def split: prod.splits sum.splits if_splits)
  show ?thesis
    using create [OF k(1)] create_eventfd [OF k(2)] ctl_add [OF k(3)]
    by (simp add: loop_inv_def nodes_ok_def kernel_ok_def pending_ok_def events_ok_def l)
qed

lemma no_events_inv:
  assumes "nodes_ok l" "kernel_ok (interest (m_epollfd l) (world l)) l"
    and wait: "k_epoll_wait env (m_epollfd l) n (world l) = (Inl e, w)"
  shows "loop_inv interest (l\<lparr>m_eventCount := -1, world := w\<rparr>)"
  using assms(1,2) wait_error [OF wait]
  by (simp add: loop_inv_def nodes_ok_def kernel_ok_def pending_ok_def events_ok_def)

end

section \<open>Steps and threads\<close>

text \<open>
  Where the thread in \<open>execute\<close> is: in \<open>epoll_wait\<close>; woken, with the number of events it has not
  assigned yet; before the lock; or out of the loop.
\<close>

datatype phase = Waiting | Woken nat | Ready | Over "int option"

inductive loop_step ::
  "('h, 'w) loop_env \<Rightarrow> (fd \<Rightarrow> 'w \<Rightarrow> fd \<rightharpoonup> epoll_event) \<Rightarrow> bool \<Rightarrow>
   phase \<times> ('h, 'w) loop \<Rightarrow> phase \<times> ('h, 'w) loop \<Rightarrow> bool"
  for env interest racing where
  step_wait: "k_epoll_wait env (m_epollfd l) MAXEVENTS (world l) = (Inr es, w) \<Longrightarrow>
    loop_step env interest racing (Waiting, l) (Woken (length es), fill_events es w l)"
| step_assign: "loop_step env interest racing (Woken n, l) (Ready, l\<lparr>m_eventCount := int n\<rparr>)"
| step_interrupted: "k_epoll_wait env (m_epollfd l) MAXEVENTS (world l) = (Inl EINTR, w) \<Longrightarrow>
    loop_step env interest racing (Waiting, l) (Ready, l\<lparr>m_eventCount := -1, world := w\<rparr>)"
| step_failed: "k_epoll_wait env (m_epollfd l) MAXEVENTS (world l) = (Inl e, w) \<Longrightarrow> e \<noteq> EINTR \<Longrightarrow>
    loop_step env interest racing (Waiting, l) (Over (Some (-1)), l\<lparr>m_eventCount := -1, world := w\<rparr>)"
| step_rounds: "rounds env l = Some (Next k l') \<Longrightarrow>
    loop_step env interest racing (Ready, l) (Waiting, l')"
| step_stopped: "rounds env l = Some (Stopped l') \<Longrightarrow>
    loop_step env interest racing (Ready, l) (Over (Some 0), l')"
| step_crashed: "rounds env l = Some (Crashed l') \<Longrightarrow>
    loop_step env interest racing (Ready, l) (Over None, l')"
| step_others: "api_steps env interest l l' \<Longrightarrow> racing \<or> (\<forall>n. p \<noteq> Woken n) \<Longrightarrow>
    loop_step env interest racing (p, l) (p, l')"

inductive_cases loop_step_Over: "loop_step env interest racing (Over x, l) s"

abbreviation loop_steps where
  "loop_steps env interest racing \<equiv> (loop_step env interest racing)\<^sup>*\<^sup>*"

text \<open>What holds in the phases; between waking up and assigning, of the count to come.\<close>

fun phase_inv :: "(fd \<Rightarrow> 'w \<Rightarrow> fd \<rightharpoonup> epoll_event) \<Rightarrow> phase \<times> ('h, 'w) loop \<Rightarrow> bool" where
  "phase_inv interest (Waiting, l) = loop_inv interest l"
| "phase_inv interest (Woken n, l) = loop_inv interest (l\<lparr>m_eventCount := int n\<rparr>)"
| "phase_inv interest (Ready, l) = loop_inv interest l"
| "phase_inv interest (Over x, l) = (x \<noteq> None \<and> loop_inv interest l)"

context epoll
begin

lemma loop_step_inv:
  "loop_step env interest False s s' \<Longrightarrow> phase_inv interest s \<Longrightarrow> phase_inv interest s'"
proof (induction rule: loop_step.induct)
  case (step_wait l es w)
  then show ?case using fill_inv by (auto simp: loop_inv_def)
next
  case (step_interrupted l w)
  then show ?case using no_events_inv by (auto simp: loop_inv_def)
next
  case (step_failed l e w)
  then show ?case using no_events_inv by (auto simp: loop_inv_def)
next
  case (step_others l l' p)
  then show ?case using api_steps_inv by (cases p) auto
qed (use rounds_safe in \<open>fastforce simp: dispatch_safe_def\<close>)+

lemma loop_steps_inv:
  "loop_steps env interest False s s' \<Longrightarrow> phase_inv interest s \<Longrightarrow> phase_inv interest s'"
  by (induction rule: rtranclp_induct) (auto intro: loop_step_inv)

lemma execute_steps:
  "execute env l = Some r \<Longrightarrow> loop_steps env interest racing (Waiting, l) (Over (fst r), snd r)"
proof (rule execute.raw_induct
    [where P = "\<lambda>e l r. e = env \<longrightarrow> loop_steps env interest racing (Waiting, l) (Over (fst r), snd r)",
      rule_format])
  fix f e l r
  let ?S = "loop_steps env interest racing" and ?step = "loop_step env interest racing"
  let ?turn = "\<lambda>f l. Option.bind (rounds env l) (\<lambda>d. case d of
               Next _ l' \<Rightarrow> f env l'
             | Stopped l' \<Rightarrow> Some (Some 0, l')
             | Crashed l' \<Rightarrow> Some (None, l'))"
  assume IH: "\<And>e l r. f e l = Some r \<Longrightarrow> e = env \<Longrightarrow> ?S (Waiting, l) (Over (fst r), snd r)"
    and eq: "(case k_epoll_wait e (m_epollfd l) MAXEVENTS (world l) of (res, w) \<Rightarrow>
      case res of
        Inl er \<Rightarrow>
          (let l = l\<lparr>m_eventCount := -1, world := w\<rparr> in
           if er \<noteq> EINTR then Some (Some (-1), l)
           else Option.bind (rounds e l) (\<lambda>d. case d of
               Next _ l' \<Rightarrow> f e l'
             | Stopped l' \<Rightarrow> Some (Some 0, l')
             | Crashed l' \<Rightarrow> Some (None, l')))
      | Inr es \<Rightarrow>
          (let l = (fill_events es w l)\<lparr>m_eventCount := int (length es)\<rparr> in
           Option.bind (rounds e l) (\<lambda>d. case d of
               Next _ l' \<Rightarrow> f e l'
             | Stopped l' \<Rightarrow> Some (Some 0, l')
             | Crashed l' \<Rightarrow> Some (None, l')))) = Some r"
    and e: "e = env"
  have turn: "?S (Ready, l1) (Over (fst r), snd r)" if "?turn f l1 = Some r" for l1
  proof -
    from that obtain d where d: "rounds env l1 = Some d" by (cases "rounds env l1") auto
    show ?thesis
    proof (cases d)
      case (Next k l2)
      with that d have "f env l2 = Some r" by simp
      from IH [OF this refl] step_rounds [OF d [unfolded Next]]
      show ?thesis by (rule converse_rtranclp_into_rtranclp [rotated])
    next
      case (Stopped l2)
      with that d have "r = (Some 0, l2)" by simp
      then show ?thesis using step_stopped [OF d [unfolded Stopped]] by auto
    next
      case (Crashed l2)
      with that d have "r = (None, l2)" by simp
      then show ?thesis using step_crashed [OF d [unfolded Crashed]] by auto
    qed
  qed
  obtain res w where k: "k_epoll_wait env (m_epollfd l) MAXEVENTS (world l) = (res, w)" by fastforce
  show "?S (Waiting, l) (Over (fst r), snd r)"
  proof (cases res)
    case (Inl er)
    show ?thesis
    proof (cases "er = EINTR")
      case True
      with eq e k Inl have "?turn f (l\<lparr>m_eventCount := -1, world := w\<rparr>) = Some r" by simp
      from turn [OF this] step_interrupted [OF k [unfolded Inl True]]
      show ?thesis by (rule converse_rtranclp_into_rtranclp [rotated])
    next
      case False
      with eq e k Inl have "r = (Some (-1), l\<lparr>m_eventCount := -1, world := w\<rparr>)" by simp
      then show ?thesis using step_failed [OF k [unfolded Inl] False] by auto
    qed
  next
    case (Inr es)
    let ?l = "fill_events es w l"
    from eq e k Inr have "?turn f (?l\<lparr>m_eventCount := int (length es)\<rparr>) = Some r" by simp
    from turn [OF this] step_assign [of env interest racing "length es" ?l]
    have "?S (Woken (length es), ?l) (Over (fst r), snd r)"
      by (rule converse_rtranclp_into_rtranclp [rotated])
    with step_wait [OF k [unfolded Inr]] show ?thesis by (rule converse_rtranclp_into_rtranclp)
  qed
qed auto

lemma execute_safe:
  "loop_inv interest l \<Longrightarrow> execute env l = Some (x, l') \<Longrightarrow> x \<noteq> None \<and> loop_inv interest l'"
  using loop_steps_inv [OF execute_steps, of l "(x, l')"] by simp

text \<open>Once the stop event is among the events reported, the next round ends the loop.\<close>

lemma execute_stops:
  assumes inv: "loop_inv interest l"
    and wait: "k_epoll_wait env (m_epollfd l) MAXEVENTS (world l) = (Inr es, w)"
    and stop: "e \<in> set es" "data_ptr e = None"
  shows "\<exists>l'. execute env l = Some (Some 0, l') \<and> loop_inv interest l'"
proof -
  let ?l = "(fill_events es w l)\<lparr>m_eventCount := int (length es)\<rparr>"
  have inv': "loop_inv interest ?l" using fill_inv [OF _ _ wait] inv by (simp add: loop_inv_def)
  obtain n where "n < length es" "es ! n = e" using stop(1) by (auto simp: in_set_conv_nth)
  then have "\<exists>n\<in>set [0..<length es]. data_ptr (m_events ?l ! n) = None"
    using stop(2) by (auto simp: fill_events_def nth_append intro!: bexI [of _ n])
  moreover have "\<forall>n\<in>set [0..<length es]. n < nat (m_eventCount ?l)" by simp
  ultimately obtain l' where "dispatch_round env [0..<length es] 0 ?l = Stopped l'"
    "loop_inv interest l'"
    using dispatch_round_safe [OF inv', of "[0..<length es]" 0] by (auto simp: dispatch_safe_def)
  then have "rounds env ?l = Some (Stopped l')" "loop_inv interest l'" by (simp_all add: rounds.simps)
  then show ?thesis using wait by (subst execute.simps) simp
qed

end

end
