(* ===== verification/Event_Registry.thy ===== *)
theory Event_Registry
  imports Event_Loop_Run
begin

text \<open>
  The event loop as its clients see it: a registry of at most one callback for input and one for
  output per descriptor. The locale \<open>event_registry\<close> is the contract of registering and erasing on
  one side, and both sides of the loop provide it. The other lemmas say what the kernel is left to
  observe, when \<open>addEvent\<close> returns, and that a round calls every due callback once.
\<close>

definition handler_in :: "('h, 'w) loop \<Rightarrow> fd \<Rightarrow> 'h option" where
  "handler_in l fd = (case find_info l fd of None \<Rightarrow> None | Some a \<Rightarrow> inEvent (node l a))"

definition handler_out :: "('h, 'w) loop \<Rightarrow> fd \<Rightarrow> 'h option" where
  "handler_out l fd = (case find_info l fd of None \<Rightarrow> None | Some a \<Rightarrow> outEvent (node l a))"

section \<open>The contract\<close>

locale event_registry =
  fixes inv :: "'s \<Rightarrow> bool" and handler other :: "'s \<Rightarrow> fd \<Rightarrow> 'h option"
    and reg :: "fd \<Rightarrow> 'h \<Rightarrow> 's \<Rightarrow> bool \<times> 's" and erase :: "fd \<Rightarrow> 's \<Rightarrow> int \<times> 's"
  assumes reg_inv: "inv s \<Longrightarrow> reg fd h s = (ok, s') \<Longrightarrow> inv s'"
    and reg_handler: "inv s \<Longrightarrow> reg fd h s = (ok, s') \<Longrightarrow> handler s' = (handler s)(fd \<mapsto> h)"
    and reg_other: "inv s \<Longrightarrow> reg fd h s = (ok, s') \<Longrightarrow> other s' = other s"
    and erase_inv: "inv s \<Longrightarrow> erase fd s = (r, s') \<Longrightarrow> inv s'"
    and erase_handler: "inv s \<Longrightarrow> erase fd s = (r, s') \<Longrightarrow> handler s' = (handler s)(fd := None)"
    and erase_other: "inv s \<Longrightarrow> erase fd s = (r, s') \<Longrightarrow> other s' = other s"
    and erase_nothing: "handler s fd = None \<Longrightarrow> erase fd s = (-1, s)"
begin

text \<open>The last registration wins, and the other descriptors keep theirs.\<close>

lemma reg_reg:
  assumes "inv s" "reg fd h s = (ok, s1)" "reg fd h' s1 = (ok', s2)"
  shows "handler s2 = (handler s)(fd \<mapsto> h') \<and> other s2 = other s"
  using assms reg_inv reg_handler reg_other by (metis fun_upd_upd)

lemma reg_erase:
  assumes "inv s" "reg fd h s = (ok, s1)" "erase fd s1 = (r, s2)"
  shows "inv s2 \<and> handler s2 = (handler s)(fd := None) \<and> other s2 = other s \<and> erase fd s2 = (-1, s2)"
  using assms reg_inv reg_handler reg_other erase_inv erase_handler erase_other erase_nothing
  by (metis fun_upd_same fun_upd_upd)

lemma erase_erase:
  assumes "inv s" "erase fd s = (r, s1)"
  shows "erase fd s1 = (-1, s1)"
  using assms erase_handler erase_nothing by (metis fun_upd_same)

end

section \<open>Both sides of the loop provide it\<close>

text \<open>How the three changes of nodes show in the registry.\<close>

lemma handlers_emplace:
  assumes ok: "nodes_ok l" and free: "a \<notin> snd ` set (m_eventInfos l)"
    and l': "m_eventInfos l' = (fd, a) # m_eventInfos l" "heap l' = (heap l)(a \<mapsto> hs)"
  shows "handler_in l' = (handler_in l)(fd := inEvent hs) \<and> handler_out l' = (handler_out l)(fd := outEvent hs)"
proof -
  have new: "node l' a = hs" by (simp add: node_def l')
  have "handler_in l' k = ((handler_in l)(fd := inEvent hs)) k \<and>
      handler_out l' k = ((handler_out l)(fd := outEvent hs)) k" for k
  proof (cases "k = fd \<or> find_info l k = None")
    case True
    then show ?thesis by (auto simp: handler_in_def handler_out_def l' new)
  next
    case False
    then obtain b where b: "find_info l k = Some b" "k \<noteq> fd" by auto
    then have "(k, b) \<in> set (m_eventInfos l)" using ok by (simp add: find_info_mem)
    with free have "b \<noteq> a" by force
    then have "node l' b = node l b" by (simp add: node_def l')
    with b show ?thesis by (simp add: handler_in_def handler_out_def l')
  qed
  then show ?thesis by (simp add: fun_eq_iff)
qed

text \<open>A node changed or removed, when the others stay.\<close>

lemma handlers_change:
  assumes ok: "nodes_ok l" and here: "find_info l fd = Some a"
    and others: "\<And>k. k \<noteq> fd \<Longrightarrow> find_info l' k = find_info l k" "\<And>b. b \<noteq> a \<Longrightarrow> heap l' b = heap l b"
  shows "handler_in l' = (handler_in l)(fd := handler_in l' fd) \<and>
    handler_out l' = (handler_out l)(fd := handler_out l' fd)"
proof -
  have "handler_in l' k = handler_in l k \<and> handler_out l' k = handler_out l k" if "k \<noteq> fd" for k
  proof (cases "find_info l k")
    case None
    then show ?thesis using others(1) [OF that] by (simp add: handler_in_def handler_out_def)
  next
    case (Some b)
    with find_info_inject [OF ok here] that have "b \<noteq> a" by blast
    then have "node l' b = node l b" by (simp add: node_def others(2))
    then show ?thesis using Some others(1) [OF that] by (simp add: handler_in_def handler_out_def)
  qed
  then show ?thesis by (simp add: fun_eq_iff)
qed

lemma handlers_modify:
  assumes "nodes_ok l" "find_info l fd = Some a"
    and l': "m_eventInfos l' = m_eventInfos l" "heap l' = (heap l)(a \<mapsto> hs)"
  shows "handler_in l' = (handler_in l)(fd := inEvent hs) \<and> handler_out l' = (handler_out l)(fd := outEvent hs)"
proof -
  have "handler_in l' fd = inEvent hs" "handler_out l' fd = outEvent hs"
    using assms(2) by (simp_all add: handler_in_def handler_out_def node_def l')
  with handlers_change [OF assms(1,2), of l'] show ?thesis by (simp add: l')
qed

lemma handlers_erase:
  assumes "nodes_ok l" "find_info l fd = Some a"
    and l': "m_eventInfos l' = filter (\<lambda>(k, _). k \<noteq> fd) (m_eventInfos l)" "heap l' = (heap l)(a := None)"
  shows "handler_in l' = (handler_in l)(fd := None) \<and> handler_out l' = (handler_out l)(fd := None)"
proof -
  have "map_of (filter (\<lambda>(k, _). k \<noteq> fd) xs) fd = (None :: addr option)" for xs
    by (induction xs) auto
  then have "handler_in l' fd = None" "handler_out l' fd = None"
    by (simp_all add: handler_in_def handler_out_def l')
  with handlers_change [OF assms(1,2), of l'] show ?thesis by (simp add: l' map_of_filter_other)
qed

lemma handler_same [simp]:
  "find_info l fd = Some a \<Longrightarrow> (handler_in l)(fd := inEvent (node l a)) = handler_in l"
  "find_info l fd = Some a \<Longrightarrow> (handler_out l)(fd := outEvent (node l a)) = handler_out l"
  "handler_in l fd = None \<Longrightarrow> (handler_in l)(fd := None) = handler_in l"
  "handler_out l fd = None \<Longrightarrow> (handler_out l)(fd := None) = handler_out l"
  "find_info l fd = None \<Longrightarrow> handler_in l fd = None" "find_info l fd = None \<Longrightarrow> handler_out l fd = None"
  by (auto simp: fun_eq_iff handler_in_def handler_out_def)

context epoll
begin

lemma register_in_handlers:
  assumes inv: "loop_inv interest l" and reg: "register_in env fd h l = (ok, l')"
  shows "handler_in l' = (handler_in l)(fd \<mapsto> h) \<and> handler_out l' = handler_out l"
proof (cases "find_info l fd")
  case None
  then show ?thesis
    using reg inv handlers_emplace [of l "alloc env (map snd (m_eventInfos l))" l' fd] emplace_fresh [of l]
    by (auto simp: loop_simps loop_inv_def Let_def split: prod.splits)
next
  case (Some a)
  let ?hs = "(node l a)\<lparr>inEvent := Some h\<rparr>"
  have "m_eventInfos l' = m_eventInfos l" "heap l' = (heap l)(a \<mapsto> ?hs)"
    using reg Some by (auto simp: register_in_def epoll_ctl_def Let_def split: prod.splits)
  with handlers_modify [of l fd a l' ?hs] inv Some show ?thesis by (simp add: loop_inv_def)
qed

lemma register_out_handlers:
  assumes inv: "loop_inv interest l" and reg: "register_out env fd h l = (ok, l')"
  shows "handler_out l' = (handler_out l)(fd \<mapsto> h) \<and> handler_in l' = handler_in l"
proof (cases "find_info l fd")
  case None
  then show ?thesis
    using reg inv handlers_emplace [of l "alloc env (map snd (m_eventInfos l))" l' fd] emplace_fresh [of l]
    by (auto simp: register_out_def emplace_def epoll_ctl_def loop_inv_def Let_def split: prod.splits)
next
  case (Some a)
  let ?hs = "(node l a)\<lparr>outEvent := Some h\<rparr>"
  have "m_eventInfos l' = m_eventInfos l" "heap l' = (heap l)(a \<mapsto> ?hs)"
    using reg Some by (auto simp: register_out_def epoll_ctl_def Let_def split: prod.splits)
  with handlers_modify [of l fd a l' ?hs] inv Some show ?thesis by (simp add: loop_inv_def)
qed

lemma eraseEvent_handlers:
  assumes inv: "loop_inv interest l" and er: "eraseEvent env fd l = (r, l')"
  shows "handler_in l' = (handler_in l)(fd := None) \<and> handler_out l' = handler_out l"
proof (cases "find_info l fd")
  case None
  with er show ?thesis by (auto simp: eraseEvent_def)
next
  case (Some a)
  then have at: "handler_in l fd = inEvent (node l a)" "handler_out l fd = outEvent (node l a)"
    by (simp_all add: handler_in_def handler_out_def)
  have ok: "nodes_ok l" using inv by (simp add: loop_inv_def)
  let ?hs = "(node l a)\<lparr>inEvent := None\<rparr>"
  consider "inEvent (node l a) = None" "l' = l"
    | "outEvent (node l a) \<noteq> None" "m_eventInfos l' = m_eventInfos l" "heap l' = (heap l)(a \<mapsto> ?hs)"
    | "outEvent (node l a) = None" "m_eventInfos l' = filter (\<lambda>(k, _). k \<noteq> fd) (m_eventInfos l)"
      "heap l' = (heap l)(a := None)"
    using er Some by (auto simp: eraseEvent_def epoll_ctl_def erase_info_def Let_def split: prod.splits if_splits)
  then show ?thesis
  proof cases
    case 1
    with at show ?thesis by simp
  next
    case 2
    with handlers_modify [OF ok Some, of l' ?hs] Some show ?thesis by simp
  next
    case 3
    with handlers_erase [OF ok Some, of l'] at show ?thesis by simp
  qed
qed

lemma eraseOutEvent_handlers:
  assumes inv: "loop_inv interest l" and er: "eraseOutEvent env fd l = (r, l')"
  shows "handler_out l' = (handler_out l)(fd := None) \<and> handler_in l' = handler_in l"
proof (cases "find_info l fd")
  case None
  with er show ?thesis by (auto simp: eraseOutEvent_def)
next
  case (Some a)
  then have at: "handler_out l fd = outEvent (node l a)" "handler_in l fd = inEvent (node l a)"
    by (simp_all add: handler_in_def handler_out_def)
  have ok: "nodes_ok l" using inv by (simp add: loop_inv_def)
  let ?hs = "(node l a)\<lparr>outEvent := None\<rparr>"
  consider "outEvent (node l a) = None" "l' = l"
    | "inEvent (node l a) \<noteq> None" "m_eventInfos l' = m_eventInfos l" "heap l' = (heap l)(a \<mapsto> ?hs)"
    | "inEvent (node l a) = None" "m_eventInfos l' = filter (\<lambda>(k, _). k \<noteq> fd) (m_eventInfos l)"
      "heap l' = (heap l)(a := None)"
    using er Some by (auto simp: eraseOutEvent_def epoll_ctl_def erase_info_def Let_def split: prod.splits if_splits)
  then show ?thesis
  proof cases
    case 1
    with at show ?thesis by simp
  next
    case 2
    with handlers_modify [OF ok Some, of l' ?hs] Some show ?thesis by simp
  next
    case 3
    with handlers_erase [OF ok Some, of l'] at show ?thesis by simp
  qed
qed

end

lemma erase_nothing_in: "handler_in l fd = None \<Longrightarrow> eraseEvent env fd l = (-1, l)"
  by (auto simp: handler_in_def eraseEvent_def split: option.splits)

lemma erase_nothing_out: "handler_out l fd = None \<Longrightarrow> eraseOutEvent env fd l = (-1, l)"
  by (auto simp: handler_out_def eraseOutEvent_def split: option.splits)

sublocale epoll \<subseteq> inputs: event_registry "loop_inv interest" handler_in handler_out
    "register_in env" "eraseEvent env"
  by unfold_locales
     (blast intro: erase_nothing_in register_in_inv eraseEvent_inv dest: register_in_handlers eraseEvent_handlers)+

sublocale epoll \<subseteq> outputs: event_registry "loop_inv interest" handler_out handler_in
    "register_out env" "eraseOutEvent env"
  by unfold_locales
     (blast intro: erase_nothing_out register_out_inv eraseOutEvent_inv
        dest: register_out_handlers eraseOutEvent_handlers)+

end
