(* ===== verification/Event_Loop_Script.thy ===== *)
theory Event_Loop_Script
  imports Event_Registry
begin

text \<open>
  An environment of the event loop that computes: callbacks are scripts of operations on the loop
  with a result, the interest list is a map, and \<open>epoll_wait\<close> follows a list of the descriptors that
  become ready. It provides the laws of the locale \<open>epoll\<close>, reuses the addresses of nodes that are
  gone, and the witnesses run on it.
\<close>

datatype script = Script (script_cmds: "cmd list") (script_result: outcome)
and cmd = Add_In fd script | Add_Out fd script | Erase_In fd | Erase_Out fd | Log nat | Close fd

record script_world =
  s_interest :: "fd \<rightharpoonup> epoll_event"
  s_waits :: "(fd \<times> u32) list list"
  s_log :: "nat list"

text \<open>The first free address\<close>

definition first_free :: "addr list \<Rightarrow> addr" where
  "first_free as = hd (filter (\<lambda>a. a \<notin> set as) [0..<Suc (length as)])"

lemma first_free: "first_free as \<notin> set as"
proof -
  have "\<not> set [0..<Suc (length as)] \<subseteq> set as"
  proof
    assume "set [0..<Suc (length as)] \<subseteq> set as"
    then have "card (set [0..<Suc (length as)]) \<le> card (set as)" by (rule card_mono [OF finite_set])
    then show False using card_length [of as] by simp
  qed
  then have "filter (\<lambda>a. a \<notin> set as) [0..<Suc (length as)] \<noteq> []"
    by (auto simp: filter_empty_conv)
  from hd_in_set [OF this] show ?thesis unfolding first_free_def set_filter by blast
qed

text \<open>What \<open>epoll_wait\<close> reports of the descriptors that are ready: those it observes.\<close>

fun observed :: "(fd \<rightharpoonup> epoll_event) \<Rightarrow> (fd \<times> u32) list \<Rightarrow> (fd \<times> epoll_event) list" where
  "observed I [] = []"
| "observed I ((fd, m) # rs) =
     (case I fd of
        None \<Rightarrow> observed I rs
      | Some i \<Rightarrow> if fd \<in> set (map fst (observed I rs)) then observed I rs
          else (fd, \<lparr>events = m AND events i, data_ptr = data_ptr i\<rparr>) # observed I rs)"

lemma observed_reports: "reports I (map fst (take n (observed I rs))) (map snd (take n (observed I rs)))"
proof -
  have "distinct (map fst (observed I rs)) \<and>
    (\<forall>(fd, e)\<in>set (observed I rs). \<exists>i. I fd = Some i \<and> data_ptr e = data_ptr i \<and>
       (wants_in (events e) \<longrightarrow> wants_in (events i)) \<and> (wants_out (events e) \<longrightarrow> wants_out (events i)))"
    by (induction I rs rule: observed.induct) (auto split: option.splits simp: bit_simps)
  moreover have "list_all2 P (map fst xs) (map snd xs)" if "\<forall>(fd, e)\<in>set xs. P fd e"
    for P and xs :: "(fd \<times> epoll_event) list"
    using that by (induction xs) auto
  ultimately show ?thesis
    unfolding reports_def by (auto simp flip: take_map dest: in_set_takeD)
qed

definition script_wait :: "script_world \<Rightarrow> nat \<Rightarrow> epoll_event list sysres \<times> script_world" where
  "script_wait w n = (case s_waits w of
     [] \<Rightarrow> (Inl (EOTHER 0), w)
   | rs # rss \<Rightarrow> (Inr (map snd (take n (observed (s_interest w) rs))), w\<lparr>s_waits := rss\<rparr>))"

fun script_ctl :: "ctl_op \<Rightarrow> fd \<Rightarrow> epoll_event \<Rightarrow> script_world \<Rightarrow> bool \<times> script_world" where
  "script_ctl CTL_ADD fd ev w =
     (if s_interest w fd = None \<and> 0 \<le> fd then (True, w\<lparr>s_interest := (s_interest w)(fd \<mapsto> ev)\<rparr>) else (False, w))"
| "script_ctl CTL_MOD fd ev w =
     (if s_interest w fd \<noteq> None then (True, w\<lparr>s_interest := (s_interest w)(fd \<mapsto> ev)\<rparr>) else (False, w))"
| "script_ctl CTL_DEL fd ev w =
     (s_interest w fd \<noteq> None, w\<lparr>s_interest := (s_interest w)(fd := None)\<rparr>)"

text \<open>A write to the stop descriptor, 1 here, makes it ready.\<close>

definition script_kernel :: "(script, script_world) loop_env" where
  "script_kernel = \<lparr>k_epoll_create = (\<lambda>w. (Inr 0, w\<lparr>s_interest := Map.empty\<rparr>)), k_eventfd = (\<lambda>w. (1, w)),
     k_epoll_ctl = (\<lambda>ep. script_ctl), k_epoll_wait = (\<lambda>ep n w. script_wait w n),
     k_write = (\<lambda>fd v w. w\<lparr>s_waits := [(fd, EPOLLIN)] # s_waits w\<rparr>), k_close = (\<lambda>fd w. w),
     run = (\<lambda>s l. (script_result s, l)), alloc = first_free\<rparr>"

fun exec_cmd :: "cmd \<Rightarrow> (script, script_world) loop \<Rightarrow> (script, script_world) loop" where
  "exec_cmd (Add_In fd s) l = snd (register_in script_kernel fd s l)"
| "exec_cmd (Add_Out fd s) l = snd (register_out script_kernel fd s l)"
| "exec_cmd (Erase_In fd) l = snd (eraseEvent script_kernel fd l)"
| "exec_cmd (Erase_Out fd) l = snd (eraseOutEvent script_kernel fd l)"
| "exec_cmd (Log n) l = l\<lparr>world := (world l)\<lparr>s_log := s_log (world l) @ [n]\<rparr>\<rparr>"
| "exec_cmd (Close fd) l = l\<lparr>world := (world l)\<lparr>s_interest := (s_interest (world l))(fd := None)\<rparr>\<rparr>"

definition script_run :: "script \<Rightarrow> (script, script_world) loop \<Rightarrow> outcome \<times> (script, script_world) loop" where
  "script_run s l = (script_result s, fold exec_cmd (script_cmds s) l)"

definition script_env :: "(script, script_world) loop_env" where
  "script_env = script_kernel\<lparr>run := script_run\<rparr>"

definition script_interest :: "fd \<Rightarrow> script_world \<Rightarrow> fd \<rightharpoonup> epoll_event" where
  "script_interest ep = s_interest"

section \<open>The laws\<close>

lemma script_env_simps [simp, kernel_calls]:
  "k_epoll_ctl script_env = (\<lambda>ep. script_ctl)" "k_epoll_wait script_env = (\<lambda>ep n w. script_wait w n)"
  "k_epoll_create script_env w = (Inr 0, w\<lparr>s_interest := Map.empty\<rparr>)" "k_eventfd script_env w = (1, w)"
  "alloc script_env = first_free" "run script_env = script_run"
  "k_write script_env fd v w = w\<lparr>s_waits := [(fd, EPOLLIN)] # s_waits w\<rparr>"
  "k_epoll_ctl script_kernel = (\<lambda>ep. script_ctl)" "alloc script_kernel = first_free"
  by (simp_all add: script_env_def script_kernel_def)

text \<open>Registration does not call callbacks, so it is the same in both environments.\<close>

lemma script_steps:
  "epoll_ctl script_kernel = epoll_ctl script_env" "emplace script_kernel = emplace script_env"
  by (simp_all add: fun_eq_iff epoll_ctl_def emplace_def)

lemma script_register:
  "register_in script_kernel = register_in script_env" "register_out script_kernel = register_out script_env"
  "eraseEvent script_kernel = eraseEvent script_env" "eraseOutEvent script_kernel = eraseOutEvent script_env"
  unfolding fun_eq_iff register_in_def register_out_def eraseEvent_def eraseOutEvent_def script_steps
  by simp_all

lemma exec_cmd_api: "api_steps script_env script_interest l (exec_cmd c l)"
proof (cases c)
  case (Close fd)
  then show ?thesis
    using api_outside [OF api_refl, of script_interest l
        "(world l)\<lparr>s_interest := (s_interest (world l))(fd := None)\<rparr>" script_env]
    by (simp add: script_interest_def map_le_def)
next
  case (Log n)
  then show ?thesis
    using api_outside [OF api_refl, of script_interest l "(world l)\<lparr>s_log := s_log (world l) @ [n]\<rparr>" script_env]
    by (simp add: script_interest_def)
qed (auto simp: script_register intro: api_register_in [OF api_refl] api_register_out [OF api_refl]
      api_erase_in [OF api_refl] api_erase_out [OF api_refl] prod.collapse [symmetric])

lemma api_steps_trans:
  "api_steps env interest l' l'' \<Longrightarrow> api_steps env interest l l' \<Longrightarrow> api_steps env interest l l''"
  by (induction rule: api_steps.induct) (auto intro: api_steps.intros)

lemma script_cmds_api: "api_steps script_env script_interest l (fold exec_cmd cs l)"
  by (induction cs arbitrary: l) (auto intro: api_refl api_steps_trans exec_cmd_api)

interpretation scripted: epoll script_env script_interest
proof
  show "alloc script_env as \<notin> set as" for as by (simp add: first_free)
  show "run script_env h l = (r, l') \<Longrightarrow> api_steps script_env script_interest l l'" for h l r l'
    using script_cmds_api by (auto simp: script_run_def)
  show "k_epoll_wait script_env ep n w = (Inr es, w') \<Longrightarrow>
      script_interest ep w' = script_interest ep w \<and> length es \<le> n \<and>
      (\<exists>fds. reports (script_interest ep w) fds es)" for ep n w es w'
    using observed_reports
    by (auto simp: script_wait_def script_interest_def split: list.splits)
qed (auto simp: script_interest_def script_wait_def split: if_splits list.splits)

end
