(* ===== verification/Event_Loop_Props.thy ===== *)
theory Event_Loop_Props
  imports Event_Loop_Script
begin

text \<open>
  The properties of the event loop, each with a run of the scripted environment as its witness:
  safety of the dispatch and the race that breaks it, the end of the loop, the contracts of
  registering and erasing, the drain of an edge triggered descriptor, and fairness of a round.
\<close>

section \<open>What the kernel observes, and what is pending\<close>

context epoll
begin

lemma register_in_interest:
  assumes inv: "loop_inv interest l" and reg: "register_in env fd h l = (True, l')"
  shows "\<exists>i. interest (m_epollfd l') (world l') fd = Some i \<and> wants_in (events i) \<and>
    (wants_out (events i) \<longleftrightarrow> handler_out l fd \<noteq> None)"
proof -
  have "\<exists>i a. interest (m_epollfd l') (world l') fd = Some i \<and> data_ptr i = Some a"
    using reg unfolding loop_simps Let_def
    by (auto split: option.splits prod.splits dest!: ctl_add ctl_mod)
  then obtain i a where i: "interest (m_epollfd l') (world l') fd = Some i" "data_ptr i = Some a" by blast
  then have "find_info l' fd = Some a \<and> serves (heap l') a (events i)"
    using register_in_inv [OF inv reg] by (simp add: loop_inv_def kernel_ok_def)
  then have "wants_in (events i) \<longleftrightarrow> handler_in l' fd \<noteq> None" "wants_out (events i) \<longleftrightarrow> handler_out l' fd \<noteq> None"
    by (auto simp: serves_def matches_def handler_in_def handler_out_def node_def)
  with i(1) register_in_handlers [OF inv reg] show ?thesis by auto
qed

end

lemma pending_registered:
  assumes inv: "loop_inv interest l" and e: "e \<in> set (pending l)" "data_ptr e = Some a"
    and bit: "wants_in (events e) \<or> wants_out (events e)"
  shows "\<exists>fd. find_info l fd = Some a \<and> (wants_in (events e) \<longrightarrow> handler_in l fd \<noteq> None) \<and>
    (wants_out (events e) \<longrightarrow> handler_out l fd \<noteq> None)"
proof -
  have ok: "nodes_ok l" using inv by (simp add: loop_inv_def)
  have "served (heap l) a (events e)" using inv e by (simp add: loop_inv_def pending_ok_def events_ok_def)
  with bit obtain hs where hs: "heap l a = Some hs" "covers hs (events e)" by (auto simp: served_def)
  then have "a \<in> snd ` set (m_eventInfos l)" using ok by (auto simp: nodes_ok_def)
  then obtain fd where "find_info l fd = Some a" using ok by (auto simp: find_info_mem)
  with hs show ?thesis by (auto simp: covers_def handler_in_def handler_out_def node_def)
qed

section \<open>Edge triggered descriptors\<close>

text \<open>The callback is called until it returns a number that is not positive.\<close>

inductive drains :: "('h, 'w) loop_env \<Rightarrow> 'h \<Rightarrow> ('h, 'w) loop \<Rightarrow> ('h, 'w) loop \<Rightarrow> bool" for env h where
  drained: "run env h l = (Returns n, l') \<Longrightarrow> n \<le> 0 \<Longrightarrow> drains env h l l'"
| drain_more: "run env h l = (Returns n, l1) \<Longrightarrow> 0 < n \<Longrightarrow> drains env h l1 l' \<Longrightarrow> drains env h l l'"

lemma call_until_drains: "drains env h l l' \<Longrightarrow> call_until env h l = Some (Returns 0, l')"
  by (induction rule: drains.induct) (subst call_until.simps, simp)+

lemma call_until_result:
  "call_until env h l = Some y \<Longrightarrow> fst y = Throws \<or> fst y = Returns 0 \<and> drains env h l (snd y)"
proof (rule call_until.raw_induct
    [where P = "\<lambda>e h l y. fst y = Throws \<or> fst y = Returns 0 \<and> drains e h l (snd y)"])
  fix f e h l y
  assume IH: "\<And>e h l y. f e h l = Some y \<Longrightarrow> fst y = Throws \<or> fst y = Returns 0 \<and> drains e h l (snd y)"
    and eq: "(case run e h l of (r, l') \<Rightarrow> case r of Throws \<Rightarrow> Some (Throws, l')
      | Returns n \<Rightarrow> if 0 < n then f e h l' else Some (Returns 0, l')) = Some y"
  obtain o1 l1 where "run e h l = (o1, l1)" by fastforce
  with IH [of e h l1 y] eq show "fst y = Throws \<or> fst y = Returns 0 \<and> drains e h l (snd y)"
    by (cases o1) (auto split: if_splits intro: drained drain_more)
qed auto

section \<open>A round\<close>

text \<open>Callbacks that leave the loop alone, in a world that notes which ones were called.\<close>

definition noting :: "('h, 'w) loop_env \<Rightarrow> ('w \<Rightarrow> 'h list) \<Rightarrow> bool" where
  "noting env notes \<longleftrightarrow>
     (\<forall>h l. \<exists>r w. run env h l = (r, l\<lparr>world := w\<rparr>) \<and> notes w = notes (world l) @ [h])"

text \<open>The callbacks due for an event, input first.\<close>

definition due :: "(addr \<rightharpoonup> 'h handlers) \<Rightarrow> epoll_event \<Rightarrow> 'h list" where
  "due hp e = (case Option.bind (data_ptr e) hp of
     None \<Rightarrow> []
   | Some hs \<Rightarrow>
       (if wants_in (events e) then (case inEvent hs of None \<Rightarrow> [] | Some h \<Rightarrow> [h]) else []) @
       (if wants_out (events e) then (case outEvent hs of None \<Rightarrow> [] | Some h \<Rightarrow> [h]) else []))"

lemma call_noting:
  assumes "noting env notes"
  obtains r w where "call env h l = (r, l\<lparr>world := w\<rparr>)"
    "notes w = notes (world l) @ (case h of None \<Rightarrow> [] | Some h \<Rightarrow> [h])"
proof (cases h)
  case None
  then show ?thesis using that [of Throws "world l"] by (simp add: call_def)
next
  case (Some h')
  with assms that show ?thesis unfolding noting_def call_def by fastforce
qed

lemma dispatch_half_noting:
  assumes "noting env notes" "heap l p = Some hs" "n < length (m_events l)"
  obtains k e w where "dispatch_half env handler flag p n l = Next k (l\<lparr>m_events := (m_events l)[n := e], world := w\<rparr>)"
    "data_ptr e = data_ptr (m_events l ! n)"
    "events e = events (m_events l ! n) \<or> events e = events (m_events l ! n) AND NOT flag"
    "notes w = notes (world l) @ (if events (m_events l ! n) AND flag = 0 then []
       else case handler hs of None \<Rightarrow> [] | Some h \<Rightarrow> [h])"
proof (cases "events (m_events l ! n) AND flag = 0")
  case True
  then show ?thesis using that [where k = 0 and e = "m_events l ! n" and w = "world l"] by (simp add: dispatch_half_def)
next
  case False
  obtain r w where r: "call env (handler hs) l = (r, l\<lparr>world := w\<rparr>)"
    "notes w = notes (world l) @ (case handler hs of None \<Rightarrow> [] | Some h \<Rightarrow> [h])"
    using call_noting [OF assms(1)] by blast
  let ?e = "m_events l ! n"
  have half: "dispatch_half env handler flag p n l = (case r of
      Throws \<Rightarrow> Next 0 (l\<lparr>m_events := (m_events l)[n := ?e], world := w\<rparr>)
    | Returns k \<Rightarrow> if 0 < k then Next 1 (l\<lparr>m_events := (m_events l)[n := ?e], world := w\<rparr>)
        else Next 0 (l\<lparr>m_events := (m_events l)[n := ?e\<lparr>events := events ?e AND NOT flag\<rparr>], world := w\<rparr>))"
    using False r(1) assms(2) by (simp add: dispatch_half_def clear_flag_def split: outcome.splits)
  note same = that [where e = ?e and w = w] and cleared = that [where e = "?e\<lparr>events := events ?e AND NOT flag\<rparr>" and w = w]
  show ?thesis
  proof (cases r)
    case (Returns k)
    then show ?thesis using half False r(2) same [of 1] cleared [of 0] by (cases "0 < k") simp_all
  next
    case Throws
    then show ?thesis using half False r(2) same [of 0] by simp
  qed
qed

lemma dispatch_one_noting:
  assumes "noting env notes" "n < length (m_events l)" "data_ptr (m_events l ! n) = Some p" "heap l p = Some hs"
  obtains k e w where "dispatch_one env n l = Next k (l\<lparr>m_events := (m_events l)[n := e], world := w\<rparr>)"
    "notes w = notes (world l) @ due (heap l) (m_events l ! n)"
proof -
  obtain a e1 w1 where 1: "dispatch_half env inEvent EPOLLIN p n l = Next a (l\<lparr>m_events := (m_events l)[n := e1], world := w1\<rparr>)"
    "events e1 = events (m_events l ! n) \<or> events e1 = events (m_events l ! n) AND NOT EPOLLIN"
    "notes w1 = notes (world l) @ (if events (m_events l ! n) AND EPOLLIN = 0 then []
       else case inEvent hs of None \<Rightarrow> [] | Some h \<Rightarrow> [h])"
    using dispatch_half_noting [OF assms(1,4,2)] by metis
  let ?l = "l\<lparr>m_events := (m_events l)[n := e1], world := w1\<rparr>"
  obtain b e2 w2 where 2: "dispatch_half env outEvent EPOLLOUT p n ?l = Next b (?l\<lparr>m_events := (m_events ?l)[n := e2], world := w2\<rparr>)"
    "notes w2 = notes (world ?l) @ (if events (m_events ?l ! n) AND EPOLLOUT = 0 then []
       else case outEvent hs of None \<Rightarrow> [] | Some h \<Rightarrow> [h])"
    by (rule dispatch_half_noting [OF assms(1), of ?l p hs n outEvent EPOLLOUT]) (use assms(2,4) in auto)
  have "wants_out (events e1) = wants_out (events (m_events l ! n))" using 1(2) by auto
  with 1 2 assms that [where k = "a + b" and e = e2 and w = w2] show ?thesis
    by (simp add: dispatch_one_def due_def)
qed

lemma dispatch_round_noting:
  assumes "noting env notes" "distinct ns"
    "\<forall>n\<in>set ns. n < length (m_events l) \<and> (\<exists>p hs. data_ptr (m_events l ! n) = Some p \<and> heap l p = Some hs)"
  shows "\<exists>j l'. dispatch_round env ns k l = Next j l' \<and>
    notes (world l') = notes (world l) @ concat (map (\<lambda>n. due (heap l) (m_events l ! n)) ns)"
  using assms(2,3)
proof (induction ns arbitrary: k l)
  case (Cons n ns)
  then obtain p hs where n: "n < length (m_events l)" "data_ptr (m_events l ! n) = Some p" "heap l p = Some hs"
    by auto
  obtain i e w where 1: "dispatch_one env n l = Next i (l\<lparr>m_events := (m_events l)[n := e], world := w\<rparr>)"
    "notes w = notes (world l) @ due (heap l) (m_events l ! n)"
    using dispatch_one_noting [OF assms(1) n] by blast
  let ?l = "l\<lparr>m_events := (m_events l)[n := e], world := w\<rparr>"
  have rest: "m_events ?l ! i = m_events l ! i" if "i \<in> set ns" for i
    using that Cons.prems(1) by (cases "n = i") auto
  have "\<forall>i\<in>set ns. i < length (m_events ?l) \<and>
      (\<exists>p hs. data_ptr (m_events ?l ! i) = Some p \<and> heap ?l p = Some hs)"
  proof
    fix i assume i: "i \<in> set ns"
    then have "m_events ?l ! i = m_events l ! i" by (rule rest)
    with i Cons.prems(2) show "i < length (m_events ?l) \<and>
      (\<exists>p hs. data_ptr (m_events ?l ! i) = Some p \<and> heap ?l p = Some hs)" by auto
  qed
  with Cons.IH [of ?l "k + i"] Cons.prems(1) obtain j l' where
    "dispatch_round env ns (k + i) ?l = Next j l'"
    "notes (world l') = notes w @ concat (map (\<lambda>n. due (heap l) (m_events ?l ! n)) ns)" by auto
  moreover have "map (\<lambda>n. due (heap l) (m_events ?l ! n)) ns = map (\<lambda>n. due (heap l) (m_events l ! n)) ns"
    using rest by (intro map_cong) simp_all
  ultimately show ?case using 1 by (simp cong: map_cong)
qed simp

section \<open>Properties\<close>

text \<open>A freshly constructed loop of the scripted environment.\<close>

definition script_world0 :: "(fd \<times> u32) list list \<Rightarrow> script_world" where
  "script_world0 waits = \<lparr>s_interest = Map.empty, s_waits = waits, s_log = []\<rparr>"

definition script_loop :: "(fd \<times> u32) list list \<Rightarrow> (script, script_world) loop" where
  "script_loop waits = \<lparr>m_epollfd = 0, m_stopFd = 1, m_eventInfos = [], heap = Map.empty, m_events = [],
     m_eventCount = 0,
     world = (script_world0 waits)\<lparr>s_interest := [1 \<mapsto> \<lparr>events = EPOLLIN OR EPOLLET, data_ptr = None\<rparr>]\<rparr>\<rparr>"

lemma script_loop_init:
  "EventLoop_init script_env [] (script_world0 waits) = (Inr (script_loop waits), world (script_loop waits))"
  by (simp add: EventLoop_init_def script_loop_def script_world0_def)

lemma script_loop_inv: "loop_inv script_interest (script_loop waits)"
  by (rule scripted.init_inv [OF script_loop_init])



text \<open>
  The count of events is assigned outside the lock, after \<open>epoll_wait\<close> has returned. If another
  thread erases a descriptor just then, its pending event keeps the pointer to the erased handlers,
  and the dispatch follows it.
\<close>

theorem erase_race_dangles:
  "\<exists>l0 w1 l. EventLoop_init script_env [] (script_world0 [[(5, EPOLLIN)]]) = (Inr l0, w1) \<and>
     loop_steps script_env script_interest True (Waiting, l0) (Over None, l)"
proof -
  let ?s = "Script [] (Returns 0)"
  let ?S = "loop_steps script_env script_interest True"
  define l0 where "l0 = script_loop [[(5, EPOLLIN)]]"
  define l1 where "l1 = snd (register_in script_env 5 ?s l0)"
  define l2 where "l2 = fill_events [\<lparr>events = EPOLLIN, data_ptr = Some 0\<rparr>] ((world l1)\<lparr>s_waits := []\<rparr>) l1"
  define l3 where "l3 = snd (eraseEvent script_env 5 l2)"
  define l4 where "l4 = l3\<lparr>m_eventCount := 1\<rparr>"
  have l1: "l1 = l0\<lparr>m_eventInfos := [(5, 0)], heap := [0 \<mapsto> \<lparr>inEvent = Some ?s, outEvent = None\<rparr>],
      world := (world l0)\<lparr>s_interest := (s_interest (world l0))(5 \<mapsto> \<lparr>events = EPOLLIN OR EPOLLET, data_ptr = Some 0\<rparr>)\<rparr>\<rparr>"
    by (simp add: l1_def l0_def script_loop_def script_world0_def loop_simps
        first_free_def)
  have m: "EPOLLIN AND (EPOLLIN OR EPOLLET) = EPOLLIN" by (rule bit_word_eqI) (auto simp: bit_simps)
  have wait: "k_epoll_wait script_env (m_epollfd l1) MAXEVENTS (world l1) =
      (Inr [\<lparr>events = EPOLLIN, data_ptr = Some 0\<rparr>], (world l1)\<lparr>s_waits := []\<rparr>)"
    by (simp add: l1 l0_def script_loop_def script_world0_def script_wait_def MAXEVENTS_def m)
  have crash: "rounds script_env l4 = Some (Crashed l4)"
    by (simp add: rounds.simps l4_def l3_def l2_def l1 l0_def script_loop_def script_world0_def
        fill_events_def eraseEvent_def epoll_ctl_def node_def erase_info_def clear_pending_def
        no_event_def dispatch_one_def dispatch_half_def Let_def EPOLLIN_def)
  have "?S (Waiting, l0) (Waiting, l1)"
    unfolding l1_def
    by (rule r_into_rtranclp, rule step_others) (auto intro: api_register_in [OF api_refl] prod.collapse [symmetric])
  also have "?S (Waiting, l1) (Woken 1, l2)"
    using step_wait [OF wait] by (simp add: l2_def r_into_rtranclp)
  also have "?S (Woken 1, l2) (Woken 1, l3)"
    unfolding l3_def
    by (rule r_into_rtranclp, rule step_others) (auto intro: api_erase_in [OF api_refl] prod.collapse [symmetric])
  also have "?S (Woken 1, l3) (Ready, l4)"
    using step_assign [of script_env script_interest True 1 l3] by (simp add: l4_def r_into_rtranclp)
  also have "?S (Ready, l4) (Over None, l4)" using step_crashed [OF crash] by (rule r_into_rtranclp)
  finally show ?thesis using script_loop_init [of "[[(5, EPOLLIN)]]"] unfolding l0_def by blast
qed

text \<open>
  C9: \<open>execute\<close> returns 0 as soon as \<open>epoll_wait\<close> reports the stop event, in the same round, and
  leaves the loop consistent; the callbacks pending behind the stop event are not called.
\<close>

theorem execute_ends_on_stop:
  assumes "epoll env interest" "loop_inv interest l"
    and "k_epoll_wait env (m_epollfd l) MAXEVENTS (world l) = (Inr es, w)" "e \<in> set es" "data_ptr e = None"
  shows "\<exists>l'. execute env l = Some (Some 0, l') \<and> loop_inv interest l'"
  by (rule epoll.execute_stops [OF assms])

theorem execute_ends_on_stop_witness:
  "\<exists>l'. execute script_env (stop script_env (script_loop [])) = Some (Some 0, l')"
proof -
  let ?l = "stop script_env (script_loop [])"
  have eq: "?l = script_loop [[(1, EPOLLIN)]]" by (simp add: stop_def script_loop_def script_world0_def)
  have "k_epoll_wait script_env (m_epollfd ?l) MAXEVENTS (world ?l) =
      (Inr [\<lparr>events = EPOLLIN, data_ptr = None\<rparr>], (world ?l)\<lparr>s_waits := []\<rparr>)"
    unfolding eq by (simp add: script_loop_def script_world0_def script_wait_def MAXEVENTS_def)
  from execute_ends_on_stop [OF scripted.epoll_axioms _ this] script_loop_inv
  show ?thesis by (auto simp: eq)
qed

text \<open>
  C10: registering a callback for input keeps the loop consistent, puts exactly this callback in
  place, whatever was there, and touches no other callback; on success the kernel observes the
  descriptor for input, and for output just when a callback for output is registered.
\<close>

theorem addEvent_registers:
  assumes "epoll env interest" "loop_inv interest l" "register_in env fd h l = (ok, l')"
  shows "loop_inv interest l' \<and> handler_in l' = (handler_in l)(fd \<mapsto> h) \<and> handler_out l' = handler_out l \<and>
    (ok \<longrightarrow> (\<exists>i. interest (m_epollfd l') (world l') fd = Some i \<and> wants_in (events i) \<and>
      (wants_out (events i) \<longleftrightarrow> handler_out l fd \<noteq> None)))"
  using epoll.register_in_inv [OF assms] epoll.register_in_handlers [OF assms]
    epoll.register_in_interest [OF assms(1,2), of fd h l'] assms(3) by (cases ok) simp_all

theorem addEvent_registers_witness:
  "\<exists>l'. register_in script_env 5 (Script [] (Returns 0)) (script_loop []) = (True, l') \<and>
    handler_in l' 5 = Some (Script [] (Returns 0))"
proof -
  obtain l' where r: "register_in script_env 5 (Script [] (Returns 0)) (script_loop []) = (True, l')"
    by (simp add: loop_simps script_loop_def script_world0_def Let_def)
  with addEvent_registers [OF scripted.epoll_axioms script_loop_inv r] show ?thesis by simp
qed

text \<open>
  Erasing the callback for input removes it and nothing else: afterwards the descriptor has no
  callback for input, all others are as before, no event pending for its handlers asks for input,
  and erasing again returns -1 and changes nothing.
\<close>

theorem eraseEvent_erases:
  assumes "epoll env interest" "loop_inv interest l" "eraseEvent env fd l = (r, l')"
  shows "handler_in l' = (handler_in l)(fd := None) \<and> handler_out l' = handler_out l \<and>
    (\<forall>e a. e \<in> set (pending l') \<longrightarrow> data_ptr e = Some a \<longrightarrow> find_info l' fd = Some a \<longrightarrow> \<not> wants_in (events e)) \<and>
    (\<forall>e a. e \<in> set (pending l') \<longrightarrow> data_ptr e = Some a \<longrightarrow> a \<notin> dom (heap l') \<longrightarrow>
       \<not> wants_in (events e) \<and> \<not> wants_out (events e)) \<and>
    eraseEvent env fd l' = (-1, l')"
proof -
  have inv: "loop_inv interest l'" by (rule epoll.eraseEvent_inv [OF assms])
  have h: "handler_in l' = (handler_in l)(fd := None)" "handler_out l' = handler_out l"
    using epoll.eraseEvent_handlers [OF assms] by simp_all
  have served: "served (heap l') a (events e)" if "e \<in> set (pending l')" "data_ptr e = Some a" for e a
    using inv that by (simp add: loop_inv_def pending_ok_def events_ok_def)
  have "handler_in l' fd = None" using h(1) by simp
  then have "\<not> wants_in (events e)" if "served (heap l') a (events e)" "find_info l' fd = Some a" for e a
    using that by (auto simp: served_def covers_def handler_in_def node_def)
  with served have "\<forall>e a. e \<in> set (pending l') \<longrightarrow> data_ptr e = Some a \<longrightarrow> find_info l' fd = Some a \<longrightarrow>
      \<not> wants_in (events e)" by blast
  moreover have "\<forall>e a. e \<in> set (pending l') \<longrightarrow> data_ptr e = Some a \<longrightarrow> a \<notin> dom (heap l') \<longrightarrow>
      \<not> wants_in (events e) \<and> \<not> wants_out (events e)"
    using served unfolding served_def by blast
  moreover have "eraseEvent env fd l' = (-1, l')" using h(1) by (intro erase_nothing_in) simp
  ultimately show ?thesis using h by blast
qed

theorem eraseEvent_erases_witness:
  "handler_in (snd (eraseEvent script_env 5 (snd (register_in script_env 5 (Script [] Throws) (script_loop []))))) 5 = None"
proof -
  let ?l = "snd (register_in script_env 5 (Script [] Throws) (script_loop []))"
  have "loop_inv script_interest ?l"
    using scripted.register_in_inv [OF script_loop_inv prod.collapse [symmetric]] .
  from eraseEvent_erases [OF scripted.epoll_axioms this prod.collapse [symmetric], of 5] show ?thesis by simp
qed

text \<open>
  When the kernel refuses a descriptor, \<open>addEvent\<close> leaves its entry behind. From then on adding
  a callback to this descriptor fails, since the loop modifies an entry the kernel does not have,
  until the entry is erased.
\<close>

theorem refused_descriptor_stays_refused:
  assumes "epoll env interest" "loop_inv interest l" "find_info l fd = None"
    and "interest (m_epollfd l) (world l) fd = None" "register_in env fd h l = (False, l')"
    and "register_in env fd h' l' = (ok, l'')"
  shows "\<not> ok \<and> handler_in l' fd = Some h"
proof -
  obtain a where a: "find_info l' fd = Some a" and ep: "m_epollfd l' = m_epollfd l"
    using assms(3,5) by (auto simp: loop_simps Let_def split: prod.splits)
  have "interest (m_epollfd l) (world l') = interest (m_epollfd l) (world l)"
    using assms(3,5) epoll.ctl_add [OF assms(1)]
    by (fastforce simp: loop_simps Let_def split: prod.splits)
  with assms(4,6) a ep epoll.ctl_mod [OF assms(1)] have "\<not> ok"
    by (fastforce simp: register_in_def epoll_ctl_def Let_def split: prod.splits)
  with epoll.register_in_handlers [OF assms(1,2,5)] show ?thesis by simp
qed

theorem refused_descriptor_stays_refused_witness:
  "\<exists>l' l'' s. register_in script_env (-7) s (script_loop []) = (False, l') \<and>
     register_in script_env (-7) s l' = (False, l'')"
proof -
  let ?s = "Script [] (Returns 0)"
  obtain l' where r: "register_in script_env (-7) ?s (script_loop []) = (False, l')"
    by (simp add: loop_simps script_loop_def script_world0_def Let_def)
  obtain ok l'' where r': "register_in script_env (-7) ?s l' = (ok, l'')" by fastforce
  have "\<not> ok" using refused_descriptor_stays_refused [OF scripted.epoll_axioms script_loop_inv _ _ r r']
    by (simp add: script_loop_def script_world0_def script_interest_def)
  with r r' show ?thesis by auto
qed

text \<open>
  \<open>addEvent\<close> returns 0 just when the kernel has accepted the descriptor and the callback, called
  again and again as long as it returns a positive number, has returned one that is not.
\<close>

theorem addEvent_drains:
  assumes "fd \<noteq> -1"
  shows "addEvent env fd (Some h) l = Some (Returns 0, l') \<longleftrightarrow>
    (\<exists>l1. register_in env fd h l = (True, l1) \<and> drains env h l1 l')"
proof -
  obtain ok l1 where r: "register_in env fd h l = (ok, l1)" by fastforce
  show ?thesis
    using assms r call_until_drains [of env h l1 l'] call_until_result [of env h l1 "(Returns 0, l')"]
    by (auto simp: addEvent_def)
qed

theorem addEvent_drains_witness:
  "\<exists>l'. addEvent script_env 5 (Some (Script [Log 3] (Returns 0))) (script_loop []) = Some (Returns 0, l')"
proof -
  let ?s = "Script [Log 3] (Returns 0)"
  obtain l1 where r: "register_in script_env 5 ?s (script_loop []) = (True, l1)"
    by (simp add: loop_simps script_loop_def script_world0_def Let_def)
  have d: "drains script_env ?s l1 (l1\<lparr>world := (world l1)\<lparr>s_log := s_log (world l1) @ [3]\<rparr>\<rparr>)"
    by (rule drained [where n = 0]) (simp_all add: script_run_def)
  have "(5 :: fd) \<noteq> -1" by simp
  from addEvent_drains [OF this, THEN iffD2, OF exI, OF conjI, OF r d] show ?thesis by (rule exI)
qed

text \<open>
  A round is fair. Where the callbacks leave the loop alone and the stop event is not pending, a
  round calls each callback that is due exactly once, in the order of the events, input before
  output.
\<close>

theorem dispatch_round_fair:
  assumes "noting env notes" "loop_inv interest l"
    and "\<forall>e\<in>set (pending l). \<exists>a. data_ptr e = Some a \<and> a \<in> dom (heap l)"
  shows "\<exists>j l'. dispatch_round env [0..<nat (m_eventCount l)] 0 l = Next j l' \<and>
    notes (world l') = notes (world l) @ concat (map (due (heap l)) (pending l))"
proof -
  have len: "nat (m_eventCount l) \<le> length (m_events l)" using assms(2) by (simp add: loop_inv_def pending_ok_def)
  have "\<forall>n\<in>set [0..<nat (m_eventCount l)]. n < length (m_events l) \<and>
      (\<exists>p hs. data_ptr (m_events l ! n) = Some p \<and> heap l p = Some hs)"
  proof
    fix n assume "n \<in> set [0..<nat (m_eventCount l)]"
    with len have "n < length (m_events l)" "m_events l ! n \<in> set (pending l)"
      by (auto simp: in_set_conv_nth)
    with assms(3) show "n < length (m_events l) \<and> (\<exists>p hs. data_ptr (m_events l ! n) = Some p \<and> heap l p = Some hs)"
      by blast
  qed
  moreover have "map (\<lambda>n. due (heap l) (m_events l ! n)) [0..<nat (m_eventCount l)] = map (due (heap l)) (pending l)"
    using len by (intro nth_equalityI) simp_all
  ultimately show ?thesis using dispatch_round_noting [OF assms(1), of "[0..<nat (m_eventCount l)]" l 0] by simp
qed

theorem dispatch_round_fair_witness:
  "\<exists>env l j l'. dispatch_round env [0..<nat (m_eventCount l)] 0 l = Next j (l' :: (nat, nat list) loop) \<and>
    world l' = [10, 11]"
proof -
  define env where "env = \<lparr>k_epoll_create = (\<lambda>w. (Inr 0, w)), k_eventfd = (\<lambda>w. (1, w)),
     k_epoll_ctl = (\<lambda>ep op fd ev w. (True, w)), k_epoll_wait = (\<lambda>ep n w. (Inr [], w)),
     k_write = (\<lambda>fd v w. w), k_close = (\<lambda>fd w. w),
     run = (\<lambda>h (l :: (nat, nat list) loop). (Returns 0, l\<lparr>world := world l @ [h]\<rparr>)), alloc = first_free\<rparr>"
  define l :: "(nat, nat list) loop" where "l = \<lparr>m_epollfd = 0, m_stopFd = 1, m_eventInfos = [(5, 0)],
     heap = [0 \<mapsto> \<lparr>inEvent = Some 10, outEvent = Some 11\<rparr>],
     m_events = [\<lparr>events = EPOLLIN OR EPOLLOUT, data_ptr = Some 0\<rparr>], m_eventCount = 1, world = []\<rparr>"
  have "noting env (\<lambda>w. w)" by (auto simp: noting_def env_def)
  moreover have "loop_inv (\<lambda>_ _. Map.empty) l"
    by (simp add: loop_inv_def nodes_ok_def kernel_ok_def pending_ok_def events_ok_def served_def covers_def l_def)
  moreover have "\<forall>e\<in>set (pending l). \<exists>a. data_ptr e = Some a \<and> a \<in> dom (heap l)" by (simp add: l_def)
  ultimately obtain j l' where "dispatch_round env [0..<nat (m_eventCount l)] 0 l = Next j l'"
    "world l' = world l @ concat (map (due (heap l)) (pending l))"
    using dispatch_round_fair [of env "\<lambda>w. w" "\<lambda>_ _. Map.empty" l] by blast
  moreover have "world l @ concat (map (due (heap l)) (pending l)) = [10, 11]" by (simp add: l_def due_def)
  ultimately show ?thesis by auto
qed

end
