(* ===== verification/Timer_Notifier.thy ===== *)
theory Timer_Notifier
  imports Event_Registry
begin

text \<open>
  \<open>hbk::sys::Timer\<close> and \<open>hbk::sys::Notifier\<close> under Linux (\<^verbatim>\<open>lib/sys/linux/timer.cpp\<close>,
  \<^verbatim>\<open>lib/sys/linux/notifier.cpp\<close>): an object with a timerfd or an eventfd, registered with the event
  loop, and a callback that may be empty. A callback gets the whole object, so it can set, cancel or
  notify again. The kernel's calls are parameters; the locales \<open>timerfd\<close> and \<open>eventfd\<close> state what
  their manual pages promise, and both are interpreted on a small kernel with a clock and a counter.
\<close>

section \<open>Callbacks\<close>

text \<open>The static function \<open>nop\<close>, or a function of the user; an empty \<open>std::function\<close> is \<^term>\<open>None\<close>.\<close>

datatype 'c handler = nop | User 'c

datatype ctor_error = exception string | callback_threw

section \<open>The timer\<close>

record 'c Timer =
  t_fd :: fd
  t_handler :: "'c handler option"

record ('c, 'w) timer_state = "'c Timer" + t_world :: 'w

text \<open>Seconds and nanoseconds of a \<open>timespec\<close>\<close>

record itimerspec =
  it_interval :: "nat \<times> nat"
  it_value :: "nat \<times> nat"

record ('c, 'w) timer_env =
  k_settime :: "fd \<Rightarrow> itimerspec \<Rightarrow> 'w \<Rightarrow> int \<times> 'w"
  k_gettime :: "fd \<Rightarrow> 'w \<Rightarrow> itimerspec sysres \<times> 'w"
  k_read8 :: "fd \<Rightarrow> 'w \<Rightarrow> u64 sysres \<times> 'w"
  run_timer :: "'c \<Rightarrow> bool \<Rightarrow> ('c, 'w) timer_state \<Rightarrow> bool \<times> ('c, 'w) timer_state"

definition Timer_init ::
  "('w \<Rightarrow> fd sysres \<times> 'w) \<Rightarrow> (errno \<Rightarrow> string) \<Rightarrow> ('h, 'w) loop_env \<Rightarrow> 'h \<Rightarrow> ('h, 'w) loop
    \<Rightarrow> ((ctor_error + 'c Timer) \<times> ('h, 'w) loop) option" where
  "Timer_init timerfd_create strerror env process l =
     (case timerfd_create (world l) of (res, w) \<Rightarrow>
      let l = l\<lparr>world := w\<rparr> in
      case res of
        Inl e \<Rightarrow> Some (Inl (exception (''could not create timer fd '' @ strerror e)), l)
      | Inr fd \<Rightarrow> Option.bind (addEvent env fd (Some process) l) (\<lambda>(r, l).
          case r of
            Throws \<Rightarrow> Some (Inl callback_threw, l)
          | Returns n \<Rightarrow>
              if n < 0 then Some (Inl (exception ''could not add timer to event loop''), l)
              else Some (Inr \<lparr>t_fd = fd, t_handler = Some nop\<rparr>, l)))"

definition Timer_destroy :: "('h, 'w) loop_env \<Rightarrow> 'c Timer \<Rightarrow> ('h, 'w) loop \<Rightarrow> ('h, 'w) loop" where
  "Timer_destroy env t l =
     (case eraseEvent env (t_fd t) l of (_, l) \<Rightarrow> l\<lparr>world := k_close env (t_fd t) (world l)\<rparr>)"

definition no_time :: itimerspec where
  "no_time = \<lparr>it_interval = (0, 0), it_value = (0, 0)\<rparr>"

definition timespec_of :: "u32 \<Rightarrow> bool \<Rightarrow> itimerspec" where
  "timespec_of period_ms repeated =
     (let period_s = period_ms div 1000; rest = period_ms mod 1000;
          v = (unat period_s, unat (rest * 1000 * 1000))
      in if repeated then no_time\<lparr>it_value := v, it_interval := v\<rparr> else no_time\<lparr>it_value := v\<rparr>)"

text \<open>The guard tests the member \<open>m_eventHandler\<close>, not the argument, as the code does.\<close>

definition Timer_set ::
  "('c, 'w) timer_env \<Rightarrow> u32 \<Rightarrow> bool \<Rightarrow> 'c handler option \<Rightarrow> ('c, 'w) timer_state \<Rightarrow> int \<times> ('c, 'w) timer_state" where
  "Timer_set env period_ms repeated eventHandler t =
     (if period_ms = 0 then (-1, t)
      else
        (let t = t\<lparr>t_handler := (if t_handler t \<noteq> None then eventHandler else Some nop)\<rparr> in
         case k_settime env (t_fd t) (timespec_of period_ms repeated) (t_world t) of (r, w) \<Rightarrow>
           (r, t\<lparr>t_world := w\<rparr>)))"

text \<open>The count of \<open>std::chrono::milliseconds\<close> is cast to \<open>unsigned int\<close>.\<close>

definition Timer_set_chrono ::
  "('c, 'w) timer_env \<Rightarrow> int \<Rightarrow> bool \<Rightarrow> 'c handler option \<Rightarrow> ('c, 'w) timer_state \<Rightarrow> int \<times> ('c, 'w) timer_state" where
  "Timer_set_chrono env count repeated eventHandler t = Timer_set env (word_of_int count) repeated eventHandler t"

definition call_timer ::
  "('c, 'w) timer_env \<Rightarrow> 'c handler option \<Rightarrow> bool \<Rightarrow> ('c, 'w) timer_state \<Rightarrow> bool \<times> ('c, 'w) timer_state" where
  "call_timer env h fired t =
     (case h of None \<Rightarrow> (False, t) | Some nop \<Rightarrow> (True, t) | Some (User c) \<Rightarrow> run_timer env c fired t)"

definition disarm :: "('c, 'w) timer_env \<Rightarrow> ('c, 'w) timer_state \<Rightarrow> ('c, 'w) timer_state" where
  "disarm env t = t\<lparr>t_world := snd (k_settime env (t_fd t) no_time (t_world t))\<rparr>"

definition Timer_cancel :: "('c, 'w) timer_env \<Rightarrow> ('c, 'w) timer_state \<Rightarrow> outcome \<times> ('c, 'w) timer_state" where
  "Timer_cancel env t =
     (let originalEventHandler = t_handler t; t = t\<lparr>t_handler := Some nop\<rparr> in
      case k_gettime env (t_fd t) (t_world t) of (res, w) \<Rightarrow>
      let t = t\<lparr>t_world := w\<rparr> in
      case res of
        Inl e \<Rightarrow> (Returns (-1), t)
      | Inr timespec \<Rightarrow>
          if fst (it_value timespec) \<noteq> 0 \<or> snd (it_value timespec) \<noteq> 0 then
            (if originalEventHandler = None then (Returns 1, disarm env t)
             else case call_timer env originalEventHandler False t of (ok, t) \<Rightarrow>
               if ok then (Returns 1, disarm env t) else (Throws, t))
          else (Returns 0, disarm env t))"

definition Timer_process :: "('c, 'w) timer_env \<Rightarrow> ('c, 'w) timer_state \<Rightarrow> outcome \<times> ('c, 'w) timer_state" where
  "Timer_process env t =
     (case k_read8 env (t_fd t) (t_world t) of (result, w) \<Rightarrow>
      let t = t\<lparr>t_world := w\<rparr> in
      case result of
        Inl e \<Rightarrow> (Returns 0, t)
      | Inr timerEventCount \<Rightarrow>
          (case call_timer env (t_handler t) True t of (ok, t) \<Rightarrow> (if ok then Returns 0 else Throws, t)))"

section \<open>The notifier\<close>

record 'c Notifier =
  n_fd :: fd
  n_handler :: "'c handler option"

record ('c, 'w) notifier_state = "'c Notifier" + n_world :: 'w

text \<open>\<open>write\<close> and \<open>read\<close> of eight bytes; the result of \<open>write\<close> is handed through.\<close>

record ('c, 'w) notifier_env =
  k_write8 :: "fd \<Rightarrow> u64 \<Rightarrow> 'w \<Rightarrow> int \<times> 'w"
  k_count :: "fd \<Rightarrow> 'w \<Rightarrow> u64 sysres \<times> 'w"
  run_notified :: "'c \<Rightarrow> ('c, 'w) notifier_state \<Rightarrow> bool \<times> ('c, 'w) notifier_state"

definition Notifier_init ::
  "('w \<Rightarrow> fd sysres \<times> 'w) \<Rightarrow> ('h, 'w) loop_env \<Rightarrow> 'h \<Rightarrow> ('h, 'w) loop
    \<Rightarrow> ((ctor_error + 'c Notifier) \<times> ('h, 'w) loop) option" where
  "Notifier_init eventfd env process l =
     (case eventfd (world l) of (res, w) \<Rightarrow>
      let l = l\<lparr>world := w\<rparr> in
      case res of
        Inl e \<Rightarrow> Some (Inl (exception ''could not create event fd''), l)
      | Inr fd \<Rightarrow> Option.bind (addEvent env fd (Some process) l) (\<lambda>(r, l).
          case r of
            Throws \<Rightarrow> Some (Inl callback_threw, l)
          | Returns n \<Rightarrow>
              if n < 0 then Some (Inl (exception ''could not add notifier to event loop''), l)
              else Some (Inr \<lparr>n_fd = fd, n_handler = Some nop\<rparr>, l)))"

definition Notifier_destroy :: "('h, 'w) loop_env \<Rightarrow> 'c Notifier \<Rightarrow> ('h, 'w) loop \<Rightarrow> ('h, 'w) loop" where
  "Notifier_destroy env t l =
     (case eraseEvent env (n_fd t) l of (_, l) \<Rightarrow> l\<lparr>world := k_close env (n_fd t) (world l)\<rparr>)"

definition Notifier_set :: "'c handler option \<Rightarrow> ('c, 'w) notifier_state \<Rightarrow> int \<times> ('c, 'w) notifier_state" where
  "Notifier_set eventHandler t =
     (if eventHandler \<noteq> None then (0, t\<lparr>n_handler := eventHandler\<rparr>) else (0, t\<lparr>n_handler := Some nop\<rparr>))"

definition notify :: "('c, 'w) notifier_env \<Rightarrow> ('c, 'w) notifier_state \<Rightarrow> int \<times> ('c, 'w) notifier_state" where
  "notify env t = (case k_write8 env (n_fd t) 1 (n_world t) of (r, w) \<Rightarrow> (r, t\<lparr>n_world := w\<rparr>))"

definition call_notified ::
  "('c, 'w) notifier_env \<Rightarrow> 'c handler option \<Rightarrow> ('c, 'w) notifier_state \<Rightarrow> bool \<times> ('c, 'w) notifier_state" where
  "call_notified env h t =
     (case h of None \<Rightarrow> (False, t) | Some nop \<Rightarrow> (True, t) | Some (User c) \<Rightarrow> run_notified env c t)"

text \<open>The loop over the count; each time the callback that is set by then is called.\<close>

fun notified_loop ::
  "('c, 'w) notifier_env \<Rightarrow> nat \<Rightarrow> ('c, 'w) notifier_state \<Rightarrow> outcome \<times> ('c, 'w) notifier_state" where
  "notified_loop env 0 t = (Returns 0, t)"
| "notified_loop env (Suc n) t =
     (case call_notified env (n_handler t) t of (ok, t) \<Rightarrow> if ok then notified_loop env n t else (Throws, t))"

definition Notifier_process ::
  "('c, 'w) notifier_env \<Rightarrow> ('c, 'w) notifier_state \<Rightarrow> outcome \<times> ('c, 'w) notifier_state" where
  "Notifier_process env t =
     (case k_count env (n_fd t) (n_world t) of (result, w) \<Rightarrow>
      let t = t\<lparr>n_world := w\<rparr> in
      case result of
        Inl e \<Rightarrow> (Returns (-1), t)
      | Inr eventCount \<Rightarrow> notified_loop env (unat eventCount) t)"

section \<open>What the kernel promises\<close>

text \<open>
  A timerfd as its manual page describes it: the nanoseconds until it expires next, the period it is
  then armed with again, and whether it has expired since it was set or read. \<open>elapse\<close> lets time pass.
\<close>

record timerfd_view =
  due :: "nat option"
  cycle :: nat
  ticked :: bool

abbreviation nanos :: "nat \<times> nat \<Rightarrow> nat" where
  "nanos v \<equiv> fst v * 1000000000 + snd v"

definition pass :: "nat \<Rightarrow> timerfd_view \<Rightarrow> timerfd_view" where
  "pass d v = (case due v of None \<Rightarrow> v | Some r \<Rightarrow>
     if d < r then v\<lparr>due := Some (r - d)\<rparr>
     else v\<lparr>due := (if cycle v = 0 then None else Some (cycle v - (d - r) mod cycle v)), ticked := True\<rparr>)"

definition armed :: "itimerspec \<Rightarrow> timerfd_view" where
  "armed s = \<lparr>due = (if nanos (it_value s) = 0 then None else Some (nanos (it_value s))),
     cycle = nanos (it_interval s), ticked = False\<rparr>"

locale timerfd =
  fixes env :: "('c, 'w) timer_env" and view :: "fd \<Rightarrow> 'w \<Rightarrow> timerfd_view" and elapse :: "nat \<Rightarrow> 'w \<Rightarrow> 'w"
    and calls :: "'w \<Rightarrow> nat"
  assumes settime: "k_settime env fd s w = (r, w') \<Longrightarrow> r = 0 \<and> view fd w' = armed s \<and> calls w' = calls w"
    and gettime: "k_gettime env fd w = (g, w') \<Longrightarrow> \<exists>s. g = Inr s \<and>
      nanos (it_value s) = (case due (view fd w) of None \<Rightarrow> 0 | Some n \<Rightarrow> n) \<and> view fd w' = view fd w \<and> calls w' = calls w"
    and read8: "k_read8 env fd w = (b, w') \<Longrightarrow> (\<exists>n. b = Inr n) = ticked (view fd w) \<and>
      view fd w' = (view fd w)\<lparr>ticked := False\<rparr> \<and> calls w' = calls w"
    and passing: "view fd (elapse d w) = pass d (view fd w) \<and> calls (elapse d w) = calls w"

text \<open>Time passes for each delay, and after each the event loop calls \<open>process\<close>.\<close>

primrec serve :: "('c, 'w) timer_env \<Rightarrow> (nat \<Rightarrow> 'w \<Rightarrow> 'w) \<Rightarrow> nat list \<Rightarrow> ('c, 'w) timer_state \<Rightarrow> ('c, 'w) timer_state" where
  "serve env elapse [] t = t"
| "serve env elapse (d # ds) t =
     serve env elapse ds (snd (Timer_process env (t\<lparr>t_world := elapse d (t_world t)\<rparr>)))"

text \<open>In how many of the delays a multiple of the period lies, counted from \<open>T\<close> on; only the first without repetition\<close>

primrec windows :: "nat \<Rightarrow> bool \<Rightarrow> nat \<Rightarrow> nat list \<Rightarrow> nat" where
  "windows q repeated T [] = 0"
| "windows q repeated T (d # ds) =
     (if T div q < (T + d) div q \<and> (repeated \<or> T < q) then 1 else 0) + windows q repeated (T + d) ds"

definition period_nanos :: "u32 \<Rightarrow> nat" where
  "period_nanos p = unat p * 1000000"

lemma timespec_nanos:
  "nanos (it_value (timespec_of p rep)) = period_nanos p \<and> snd (it_value (timespec_of p rep)) < 1000000000 \<and>
   nanos (it_interval (timespec_of p rep)) = (if rep then period_nanos p else 0)"
proof -
  define r where "r = unat p mod 1000"
  have r: "r < 1000" by (simp add: r_def)
  then have "unat (p mod 1000 * 1000 * 1000) = r * 1000000"
    by (simp add: unat_word_ariths unat_mod r_def)
  moreover have "unat (p div 1000) * 1000000000 + r * 1000000 = unat p * 1000000"
  proof -
    have "unat p = unat p div 1000 * 1000 + r" by (simp add: r_def)
    then show ?thesis by (simp add: unat_div)
  qed
  ultimately show ?thesis using r by (auto simp: timespec_of_def Let_def no_time_def period_nanos_def)
qed

lemma period_nanos_0 [simp]: "period_nanos p = 0 \<longleftrightarrow> p = 0" "0 < period_nanos p \<longleftrightarrow> p \<noteq> 0"
  by (simp_all add: period_nanos_def unat_eq_0 word_neq_0_conv unat_gt_0)

text \<open>Reaching the next multiple of \<open>q\<close>\<close>

lemma div_step:
  fixes T d q :: nat
  assumes "0 < q"
  shows "d < q - T mod q \<Longrightarrow> (T + d) div q = T div q \<and> q - (T + d) mod q = q - T mod q - d"
    and "q - T mod q \<le> d \<Longrightarrow> T div q < (T + d) div q \<and> (T + d) mod q = (d - (q - T mod q)) mod q"
proof -
  define a b where "a = T div q" and "b = T mod q"
  have T: "T = a * q + b" and b: "b < q" using assms by (simp_all add: a_def b_def)
  have sums: "(a * q + x) div q = a + x div q" "(a * q + x) mod q = x mod q" for x
    using assms by (simp_all add: div_mult_self3)
  show "(T + d) div q = T div q \<and> q - (T + d) mod q = q - T mod q - d" if "d < q - T mod q"
  proof -
    have "b + d < q" using that by (simp add: b_def)
    then show ?thesis using sums [of "b + d"] by (simp add: T add.assoc sums b)
  qed
  show "T div q < (T + d) div q \<and> (T + d) mod q = (d - (q - T mod q)) mod q" if "q - T mod q \<le> d"
  proof -
    define x where "x = d - (q - b)"
    have x: "b + d = q + x" using that b by (simp add: x_def b_def)
    have "(q + x) div q = 1 + x div q" using assms by simp
    moreover have "(q + x) mod q = x mod q" by simp
    ultimately show ?thesis using sums [of "b + d"] sums [of b] b
      by (simp add: T add.assoc x x_def)
  qed
qed

text \<open>A timer that has run for the time \<open>T\<close> since it was set\<close>

definition running :: "nat \<Rightarrow> bool \<Rightarrow> nat \<Rightarrow> timerfd_view" where
  "running q repeated T = \<lparr>due = (if repeated \<or> T < q then Some (q - T mod q) else None),
     cycle = (if repeated then q else 0), ticked = False\<rparr>"

lemma pass_running:
  assumes "0 < q"
  shows "(pass d (running q repeated T))\<lparr>ticked := False\<rparr> = running q repeated (T + d) \<and>
    (ticked (pass d (running q repeated T)) \<longleftrightarrow> T div q < (T + d) div q \<and> (repeated \<or> T < q))"
proof (cases "repeated \<or> T < q")
  case False
  then show ?thesis by (simp add: running_def pass_def)
next
  case here: True
  show ?thesis
  proof (cases "d < q - T mod q")
    case True
    moreover have "\<not> repeated \<Longrightarrow> T + d < q" using here True by auto
    ultimately show ?thesis using div_step(1) [OF assms True] here assms
      by (auto simp: running_def pass_def)
  next
    case False
    then have "q - T mod q \<le> d" by simp
    note s = div_step(2) [OF assms this]
    have "\<not> repeated \<Longrightarrow> \<not> T + d < q" using False here by auto
    with s here False assms show ?thesis by (auto simp: running_def pass_def)
  qed
qed

lemma armed_timespec: "p \<noteq> 0 \<Longrightarrow> armed (timespec_of p repeated) = running (period_nanos p) repeated 0"
  using timespec_nanos [of p repeated] by (simp add: armed_def running_def)

context timerfd
begin

lemma serve_calls:
  assumes q: "0 < q"
    and cb: "\<And>t. run_timer env c True t = (True, t\<lparr>t_world := tick (t_world t)\<rparr>)"
    and tick': "\<And>w. calls (tick w) = Suc (calls w) \<and> view fd (tick w) = view fd w"
    and t: "t_fd t = fd" "t_handler t = Some (User c)" "view fd (t_world t) = running q repeated T"
  shows "calls (t_world (serve env elapse ds t)) = calls (t_world t) + windows q repeated T ds"
  using t
proof (induction ds arbitrary: t T)
  case (Cons d ds)
  let ?w = "elapse d (t_world t)"
  obtain b w where b: "k_read8 env fd ?w = (b, w)" by fastforce
  have v: "view fd ?w = pass d (running q repeated T)" "calls ?w = calls (t_world t)"
    using passing [of fd d "t_world t"] Cons.prems(3) by simp_all
  have w: "view fd w = running q repeated (T + d)" "calls w = calls (t_world t)"
    "(\<exists>n. b = Inr n) = (T div q < (T + d) div q \<and> (repeated \<or> T < q))"
    using read8 [OF b] v pass_running [OF q, of d repeated T] by simp_all
  define t' where "t' = snd (Timer_process env (t\<lparr>t_world := ?w\<rparr>))"
  have "t_fd t' = fd \<and> t_handler t' = Some (User c) \<and> view fd (t_world t') = running q repeated (T + d) \<and>
    calls (t_world t') = calls (t_world t) + (if T div q < (T + d) div q \<and> (repeated \<or> T < q) then 1 else 0)"
    using b w Cons.prems by (cases b) (simp_all add: t'_def Timer_process_def Let_def call_timer_def cb tick')
  with Cons.IH [of t' "T + d"] show ?case by (simp add: t'_def)
qed simp

text \<open>An empty callback, and \<open>nop\<close>\<close>

lemma expired_throws:
  assumes "ticked (view (t_fd t) (t_world t))" and "t_handler t = None"
  shows "fst (Timer_process env t) = Throws"
proof -
  obtain b w where b: "k_read8 env (t_fd t) (t_world t) = (b, w)" by fastforce
  with read8 [OF b] assms show ?thesis by (auto simp: Timer_process_def Let_def call_timer_def)
qed

lemma serve_nop:
  assumes "t_handler t = Some nop"
  shows "calls (t_world (serve env elapse ds t)) = calls (t_world t)"
  using assms
proof (induction ds arbitrary: t)
  case (Cons d ds)
  obtain b w where b: "k_read8 env (t_fd t) (elapse d (t_world t)) = (b, w)" by fastforce
  with read8 [OF b] passing [of _ d "t_world t"] Cons show ?case
    by (simp add: Timer_process_def Let_def call_timer_def split: sum.splits)
qed simp

text \<open>Canceling: what the callback is told, and what it finds of the timer\<close>

lemma cancel_running:
  assumes h: "t_handler t = Some (User c)" and run: "due (view (t_fd t) (t_world t)) = Some n" "0 < n"
  shows "\<exists>t1. t_handler t1 = Some nop \<and> t_fd t1 = t_fd t \<and> calls (t_world t1) = calls (t_world t) \<and>
    Timer_cancel env t = (case run_timer env c False t1 of (ok, t2) \<Rightarrow>
      if ok then (Returns 1, disarm env t2) else (Throws, t2))"
proof -
  obtain g w where g: "k_gettime env (t_fd t) (t_world t) = (g, w)" by fastforce
  from gettime [OF g] run obtain s where s: "g = Inr s" "nanos (it_value s) = n" "calls w = calls (t_world t)"
    by auto
  with run have "fst (it_value s) \<noteq> 0 \<or> snd (it_value s) \<noteq> 0" by auto
  with g s h show ?thesis
    by (intro exI [of _ "t\<lparr>t_handler := Some nop, t_world := w\<rparr>"])
      (simp add: Timer_cancel_def Let_def call_timer_def)
qed

lemma disarmed: "view (t_fd t) (t_world (disarm env t)) = armed no_time \<and> calls (t_world (disarm env t)) = calls (t_world t)"
proof -
  obtain r w where "k_settime env (t_fd t) no_time (t_world t) = (r, w)" by fastforce
  from settime [OF this] this show ?thesis by (simp add: disarm_def)
qed

text \<open>A callback that is \<open>nop\<close> makes \<open>cancel\<close> independent of the user's functions.\<close>

lemma cancel_nop:
  assumes "t_handler t = Some nop"
  shows "\<exists>r t'. Timer_cancel env t = (Returns r, t') \<and> t_handler t' = Some nop \<and> t_fd t' = t_fd t \<and>
    calls (t_world t') = calls (t_world t) \<and> view (t_fd t) (t_world t') = armed no_time"
proof -
  obtain g w where g: "k_gettime env (t_fd t) (t_world t) = (g, w)" by fastforce
  from gettime [OF g] obtain s where "g = Inr s" "calls w = calls (t_world t)" by auto
  with g assms disarmed [of "t\<lparr>t_handler := Some nop, t_world := w\<rparr>"] show ?thesis
    by (auto simp: Timer_cancel_def Let_def call_timer_def disarm_def)
qed

end

text \<open>A sequence of notifications, with what each returned\<close>

primrec notify_times :: "('c, 'w) notifier_env \<Rightarrow> nat \<Rightarrow> ('c, 'w) notifier_state \<Rightarrow> int list \<times> ('c, 'w) notifier_state" where
  "notify_times env 0 t = ([], t)"
| "notify_times env (Suc n) t =
     (case notify env t of (r, t) \<Rightarrow> case notify_times env n t of (rs, t) \<Rightarrow> (r # rs, t))"

text \<open>An eventfd: a counter \<open>write\<close> adds to, below its limit, and \<open>read\<close> takes.\<close>

locale eventfd =
  fixes env :: "('c, 'w) notifier_env" and pending :: "fd \<Rightarrow> 'w \<Rightarrow> nat" and calls :: "'w \<Rightarrow> nat"
  assumes write8: "k_write8 env fd v w = (r, w') \<Longrightarrow> calls w' = calls w \<and>
      (if pending fd w + unat v < 2 ^ 64 - 1 then r = 8 \<and> pending fd w' = pending fd w + unat v
       else r = -1 \<and> pending fd w' = pending fd w)"
    and count: "k_count env fd w = (b, w') \<Longrightarrow> calls w' = calls w \<and> pending fd w' = 0 \<and>
      (case b of Inl e \<Rightarrow> pending fd w = 0 | Inr n \<Rightarrow> 0 < n \<and> unat n = pending fd w)"
begin

text \<open>Each of \<open>n\<close> notifications is accepted and counted.\<close>

lemma notifies:
  assumes "pending (n_fd t) (n_world t) + n < 2 ^ 64 - 1" and "notify_times env n t = (rs, t')"
  shows "rs = replicate n 8 \<and> n_fd t' = n_fd t \<and> n_handler t' = n_handler t \<and>
    pending (n_fd t) (n_world t') = pending (n_fd t) (n_world t) + n \<and> calls (n_world t') = calls (n_world t)"
  using assms
proof (induction n arbitrary: t rs)
  case (Suc n)
  obtain r w where w: "k_write8 env (n_fd t) 1 (n_world t) = (r, w)" by fastforce
  let ?t = "t\<lparr>n_world := w\<rparr>"
  obtain rs' where rs': "notify_times env n ?t = (rs', t')" "rs = r # rs'"
    using Suc.prems(2) w by (auto simp: notify_def split: prod.splits)
  have "r = 8" "pending (n_fd t) w = pending (n_fd t) (n_world t) + 1" "calls w = calls (n_world t)"
    using write8 [OF w] Suc.prems(1) by simp_all
  with Suc.IH [OF _ rs'(1)] Suc.prems(1) rs'(2) show ?case by simp
qed simp

lemma notified_loop_calls:
  assumes cb: "\<And>t. run_notified env c t = (True, t\<lparr>n_world := tick (n_world t)\<rparr>)"
    and tick': "\<And>w. calls (tick w) = Suc (calls w) \<and> pending fd (tick w) = pending fd w"
    and h: "n_handler t = Some (User c)"
  shows "\<exists>t'. notified_loop env n t = (Returns 0, t') \<and> n_handler t' = n_handler t \<and> n_fd t' = n_fd t \<and>
    calls (n_world t') = calls (n_world t) + n \<and> pending fd (n_world t') = pending fd (n_world t)"
  using h
proof (induction n arbitrary: t)
  case (Suc n)
  from Suc.IH [of "t\<lparr>n_world := tick (n_world t)\<rparr>"] Suc.prems show ?case
    by (auto simp: call_notified_def cb tick')
qed simp

lemma process_calls:
  assumes cb: "\<And>t. run_notified env c t = (True, t\<lparr>n_world := tick (n_world t)\<rparr>)"
    and tick': "\<And>w. calls (tick w) = Suc (calls w) \<and> pending (n_fd t) (tick w) = pending (n_fd t) w"
    and h: "n_handler t = Some (User c)"
    and p: "Notifier_process env t = (r, t')"
  shows "r = (if pending (n_fd t) (n_world t) = 0 then Returns (-1) else Returns 0) \<and>
    calls (n_world t') = calls (n_world t) + pending (n_fd t) (n_world t) \<and>
    pending (n_fd t) (n_world t') = 0"
proof -
  obtain b w where b: "k_count env (n_fd t) (n_world t) = (b, w)" by fastforce
  show ?thesis
  proof (cases b)
    case (Inl e)
    with count [OF b] b p show ?thesis by (auto simp: Notifier_process_def Let_def)
  next
    case (Inr n)
    from notified_loop_calls [of c tick "n_fd t" "t\<lparr>n_world := w\<rparr>" "unat n"] cb tick' h
    have "\<exists>t1. notified_loop env (unat n) (t\<lparr>n_world := w\<rparr>) = (Returns 0, t1) \<and>
      calls (n_world t1) = calls w + unat n \<and> pending (n_fd t) (n_world t1) = pending (n_fd t) w"
      by auto
    moreover have "0 < n \<longleftrightarrow> 0 < unat n" by (simp add: unat_gt_0 word_neq_0_conv)
    ultimately show ?thesis using Inr count [OF b] b p by (auto simp: Notifier_process_def Let_def)
  qed
qed

end

section \<open>A kernel with a clock and counters\<close>

record clock_world =
  c_timers :: "fd \<Rightarrow> timerfd_view"
  c_counts :: "fd \<Rightarrow> u64"
  c_calls :: nat

definition clock_settime :: "fd \<Rightarrow> itimerspec \<Rightarrow> clock_world \<Rightarrow> int \<times> clock_world" where
  "clock_settime fd s w = (0, w\<lparr>c_timers := (c_timers w)(fd := armed s)\<rparr>)"

definition clock_gettime :: "fd \<Rightarrow> clock_world \<Rightarrow> itimerspec sysres \<times> clock_world" where
  "clock_gettime fd w =
     (let v = c_timers w fd; n = (case due v of None \<Rightarrow> 0 | Some n \<Rightarrow> n) in
      (Inr \<lparr>it_interval = (0, cycle v), it_value = (n div 1000000000, n mod 1000000000)\<rparr>, w))"

definition clock_read :: "fd \<Rightarrow> clock_world \<Rightarrow> u64 sysres \<times> clock_world" where
  "clock_read fd w = (let v = c_timers w fd in
     (if ticked v then Inr 1 else Inl EAGAIN, w\<lparr>c_timers := (c_timers w)(fd := v\<lparr>ticked := False\<rparr>)\<rparr>))"

definition clock_elapse :: "nat \<Rightarrow> clock_world \<Rightarrow> clock_world" where
  "clock_elapse d w = w\<lparr>c_timers := (\<lambda>fd. pass d (c_timers w fd))\<rparr>"

definition counted :: "clock_world \<Rightarrow> clock_world" where
  "counted w = w\<lparr>c_calls := Suc (c_calls w)\<rparr>"

datatype clock_cb = Count | Count_and_cancel

definition quiet_clock :: "(clock_cb, clock_world) timer_env" where
  "quiet_clock = \<lparr>k_settime = clock_settime, k_gettime = clock_gettime, k_read8 = clock_read,
     run_timer = (\<lambda>_ _ t. (True, t))\<rparr>"

text \<open>The callback of a canceled timer finds \<open>nop\<close> in it, so what it cancels runs no callback.\<close>

definition clock :: "(clock_cb, clock_world) timer_env" where
  "clock = quiet_clock\<lparr>run_timer := (\<lambda>c _ t.
     let t = t\<lparr>t_world := counted (t_world t)\<rparr> in
     (True, case c of Count \<Rightarrow> t | Count_and_cancel \<Rightarrow> snd (Timer_cancel quiet_clock t)))\<rparr>"

text \<open>With \<open>nop\<close> in the timer, \<open>cancel\<close> does not depend on the user's functions.\<close>

lemma cancel_same_kernel:
  assumes "t_handler t = Some nop" "k_settime env' = k_settime env" "k_gettime env' = k_gettime env"
  shows "Timer_cancel env' t = Timer_cancel env t"
proof -
  have "disarm env' = disarm env" using assms(2) by (simp add: disarm_def fun_eq_iff)
  moreover have "call_timer env' (Some nop) False = call_timer env (Some nop) False"
    by (simp add: call_timer_def fun_eq_iff)
  ultimately show ?thesis unfolding Timer_cancel_def Let_def assms by (simp only:)
qed

lemma cancel_quiet: "t_handler t = Some nop \<Longrightarrow> Timer_cancel quiet_clock t = Timer_cancel clock t"
  by (rule cancel_same_kernel) (simp_all add: clock_def)

interpretation ticking: timerfd clock "\<lambda>fd w. c_timers w fd" clock_elapse c_calls
  by unfold_locales
    (auto simp: clock_def quiet_clock_def clock_settime_def clock_gettime_def clock_read_def clock_elapse_def
      Let_def split: option.splits if_splits)

definition counter :: "(unit, clock_world) notifier_env" where
  "counter = \<lparr>
     k_write8 = (\<lambda>fd v w. if unat (c_counts w fd) + unat v < 2 ^ 64 - 1
       then (8, w\<lparr>c_counts := (c_counts w)(fd := c_counts w fd + v)\<rparr>) else (-1, w)),
     k_count = (\<lambda>fd w. (if c_counts w fd = 0 then Inl EAGAIN else Inr (c_counts w fd),
       w\<lparr>c_counts := (c_counts w)(fd := 0)\<rparr>)),
     run_notified = (\<lambda>_ t. (True, t\<lparr>n_world := counted (n_world t)\<rparr>))\<rparr>"

lemma unat_add_below: "unat (a :: u64) + unat b < 2 ^ 64 - 1 \<Longrightarrow> unat (a + b) = unat a + unat b"
  by (simp add: unat_word_ariths)

interpretation counting: eventfd counter "\<lambda>fd w. unat (c_counts w fd)" c_calls
  by unfold_locales (auto simp: counter_def unat_add_below word_neq_0_conv split: if_splits)

section \<open>Properties\<close>



text \<open>
  Canceling a running timer calls its callback exactly once, even when the callback cancels the
  timer again; the timer is stopped then, and its callback is \<open>nop\<close>.
\<close>

theorem timer_cancel_once:
  assumes "timerfd env view elapse calls" and "t_handler t = Some (User c)"
    and "due (view (t_fd t) (t_world t)) = Some n" and "0 < n"
    and "\<And>t. t_handler t = Some nop \<Longrightarrow> run_timer env c False t = (True, snd (Timer_cancel env (t\<lparr>t_world := tick (t_world t)\<rparr>)))"
    and "\<And>w. calls (tick w) = Suc (calls w)"
    and "Timer_cancel env t = (r, t')"
  shows "r = Returns 1 \<and> calls (t_world t') = Suc (calls (t_world t)) \<and>
    view (t_fd t) (t_world t') = armed no_time \<and> t_handler t' = Some nop"
proof -
  obtain t1 where t1: "t_handler t1 = Some nop" "t_fd t1 = t_fd t" "calls (t_world t1) = calls (t_world t)"
      "Timer_cancel env t = (case run_timer env c False t1 of (ok, t2) \<Rightarrow>
         if ok then (Returns 1, disarm env t2) else (Throws, t2))"
    using timerfd.cancel_running [OF assms(1-4)] by blast
  obtain q t2 where t2: "Timer_cancel env (t1\<lparr>t_world := tick (t_world t1)\<rparr>) = (Returns q, t2)"
      "t_handler t2 = Some nop" "t_fd t2 = t_fd t" "calls (t_world t2) = Suc (calls (t_world t))"
    using timerfd.cancel_nop [OF assms(1), of "t1\<lparr>t_world := tick (t_world t1)\<rparr>"] t1 assms(6) by auto
  have "r = Returns 1" "t' = disarm env t2" using t1(1,4) t2(1) assms(5,7) by simp_all
  with timerfd.disarmed [OF assms(1), of t2] t2 show ?thesis by (simp add: disarm_def)
qed

theorem timer_cancel_once_witness:
  "\<forall>v. let t = \<lparr>t_fd = 4, t_handler = Some (User Count_and_cancel),
             t_world = v\<lparr>c_timers := (c_timers v)(4 := running 5000000 False 1)\<rparr>\<rparr> in
     fst (Timer_cancel clock t) = Returns 1 \<and> c_calls (t_world (snd (Timer_cancel clock t))) = Suc (c_calls v)"
proof
  fix v :: clock_world
  let ?w = "v\<lparr>c_timers := (c_timers v)(4 := running 5000000 False 1)\<rparr>"
  let ?t = "\<lparr>t_fd = 4, t_handler = Some (User Count_and_cancel), t_world = ?w\<rparr>"
  have again: "run_timer clock Count_and_cancel False t =
      (True, snd (Timer_cancel clock (t\<lparr>t_world := counted (t_world t)\<rparr>)))" if "t_handler t = Some nop" for t
    using cancel_quiet [of "t\<lparr>t_world := counted (t_world t)\<rparr>"] that by (simp add: clock_def Let_def)
  show "let t = ?t in fst (Timer_cancel clock t) = Returns 1 \<and>
      c_calls (t_world (snd (Timer_cancel clock t))) = Suc (c_calls v)"
    using timer_cancel_once [OF ticking.timerfd_axioms, of ?t Count_and_cancel 4999999 counted
        "fst (Timer_cancel clock ?t)" "snd (Timer_cancel clock ?t)"] again
    by (simp add: running_def counted_def)
qed

text \<open>
  A callback that is empty. It is stored, since the guard tests the callback in place, and
  the expiration then throws \<open>std::bad_function_call\<close>; the next callback to be set is ignored, so
  that however long the timer runs, no callback is called.
\<close>

theorem timer_empty_callback:
  assumes "timerfd env view elapse calls" and "p \<noteq> 0" and "p' \<noteq> 0" and "t_handler t \<noteq> None"
    and "Timer_set env p repeated None t = (r, t1)" and "Timer_set env p' repeated' (Some (User c)) t1 = (r', t2)"
  shows "(period_nanos p \<le> d \<longrightarrow> fst (Timer_process env (t1\<lparr>t_world := elapse d (t_world t1)\<rparr>)) = Throws) \<and>
    r' = 0 \<and> calls (t_world (serve env elapse ds t2)) = calls (t_world t)"
proof -
  obtain s w where s: "k_settime env (t_fd t) (timespec_of p repeated) (t_world t) = (s, w)" by fastforce
  then have t1: "t1 = t\<lparr>t_handler := None, t_world := w\<rparr>"
    using assms(2,4,5) by (auto simp: Timer_set_def Let_def)
  obtain s' w' where s': "k_settime env (t_fd t) (timespec_of p' repeated') w = (s', w')" by fastforce
  then have t2: "r' = s'" "t2 = t\<lparr>t_handler := Some nop, t_world := w'\<rparr>"
    using assms(3,6) t1 by (auto simp: Timer_set_def Let_def)
  note sets = timerfd.settime [OF assms(1) s] timerfd.settime [OF assms(1) s']
  have "fst (Timer_process env (t1\<lparr>t_world := elapse d w\<rparr>)) = Throws" if "period_nanos p \<le> d"
    using timerfd.expired_throws [OF assms(1), of "t1\<lparr>t_world := elapse d w\<rparr>"] that sets(1)
      timerfd.passing [OF assms(1), of "t_fd t" d w] armed_timespec [OF assms(2), of repeated]
      pass_running [of "period_nanos p" d repeated 0] assms(2)
    by (simp add: t1 div_greater_zero_iff)
  with timerfd.serve_nop [OF assms(1), of t2 ds] sets show ?thesis by (simp add: t1 t2)
qed

theorem timer_empty_callback_witness:
  "\<forall>w. let t1 = snd (Timer_set clock 5 True None \<lparr>t_fd = 4, t_handler = Some nop, t_world = w\<rparr>);
       t2 = snd (Timer_set clock 7 True (Some (User Count)) t1) in
     fst (Timer_process clock (t1\<lparr>t_world := clock_elapse 5000000 (t_world t1)\<rparr>)) = Throws \<and>
     c_calls (t_world (serve clock clock_elapse [7000000, 7000000] t2)) = c_calls w"
proof (intro allI)
  fix w :: clock_world
  let ?t = "\<lparr>t_fd = 4, t_handler = Some nop, t_world = w\<rparr>"
  let ?s = "Timer_set clock 5 True None ?t"
  show "let t1 = snd ?s; t2 = snd (Timer_set clock 7 True (Some (User Count)) t1) in
     fst (Timer_process clock (t1\<lparr>t_world := clock_elapse 5000000 (t_world t1)\<rparr>)) = Throws \<and>
     c_calls (t_world (serve clock clock_elapse [7000000, 7000000] t2)) = c_calls w"
    using timer_empty_callback [OF ticking.timerfd_axioms, of 5 7 ?t True "fst ?s" "snd ?s" True Count
        "fst (Timer_set clock 7 True (Some (User Count)) (snd ?s))"
        "snd (Timer_set clock 7 True (Some (User Count)) (snd ?s))" 5000000 "[7000000, 7000000]"]
    by (simp add: period_nanos_def Let_def)
qed

text \<open>
  A notifier that was notified \<open>n\<close> times and is then processed calls its callback exactly \<open>n\<close>
  times, and every one of the notifications was accepted; the next processing finds nothing.
\<close>

theorem notifier_counts:
  assumes "eventfd env queued calls" and "n_handler t = Some (User c)"
    and "queued (n_fd t) (n_world t) = 0" and "n < 2 ^ 64 - 1"
    and "\<And>t. run_notified env c t = (True, t\<lparr>n_world := tick (n_world t)\<rparr>)"
    and "\<And>fd w. calls (tick w) = Suc (calls w) \<and> queued fd (tick w) = queued fd w"
    and "notify_times env n t = (rs, t1)" and "Notifier_process env t1 = (r, t2)"
  shows "rs = replicate n 8 \<and> r = (if n = 0 then Returns (-1) else Returns 0) \<and>
    calls (n_world t2) = calls (n_world t) + n \<and> queued (n_fd t) (n_world t2) = 0"
  using eventfd.notifies [OF assms(1) _ assms(7)] assms(3,4)
    eventfd.process_calls [OF assms(1) assms(5) _ _ assms(8)] assms(2,6)
  by simp

theorem notifier_counts_witness:
  "\<forall>v. let t = \<lparr>n_fd = 4, n_handler = Some (User ()), n_world = v\<lparr>c_counts := (c_counts v)(4 := 0)\<rparr>\<rparr> in
     c_calls (n_world (snd (Notifier_process counter (snd (notify_times counter 3 t))))) = c_calls v + 3"
proof
  fix v :: clock_world
  let ?t = "\<lparr>n_fd = 4, n_handler = Some (User ()), n_world = v\<lparr>c_counts := (c_counts v)(4 := 0)\<rparr>\<rparr>"
  show "let t = ?t in c_calls (n_world (snd (Notifier_process counter (snd (notify_times counter 3 t))))) = c_calls v + 3"
    using notifier_counts [OF counting.eventfd_axioms, of ?t "()" 3 counted "fst (notify_times counter 3 ?t)"
        "snd (notify_times counter 3 ?t)" "fst (Notifier_process counter (snd (notify_times counter 3 ?t)))"
        "snd (Notifier_process counter (snd (notify_times counter 3 ?t)))"]
    by (simp add: counter_def counted_def)
qed

end
