(* ===== verification/Buffered_Reader.thy ===== *)
theory Buffered_Reader
  imports Prelude
begin

text \<open>
  \<open>hbk::communication::BufferedReader\<close> under Linux (\<^verbatim>\<open>lib/communication/linux/bufferedreader.cpp\<close>)
  and under Windows (\<^verbatim>\<open>lib/communication/windows/bufferedreader.cpp\<close>). Both read more than is
  asked for and keep the rest. The system calls that read are parameters: they return the bytes they
  have stored, which the model scatters over the two buffers of the call. Positions are \<^typ>\<open>nat\<close>,
  and the invariant \<open>reader_ok\<close> shows that the difference the code takes does not wrap.

  The locale \<open>byte_source\<close> states that a call that reads takes the next bytes of the stream the peer
  has sent. The locale \<open>stream_recv\<close> is what a client of a reader relies on: no byte is lost,
  repeated or reordered. The Windows reader provides it for every request. The reader under Linux
  provides it only where no more is asked for than is left, or nothing is left; otherwise it may lose
  bytes and return a wrong length, and the lemmas say how.
\<close>

section \<open>State\<close>

record BufferedReader =
  m_buffer :: bytes
  m_fillLevel :: nat
  m_alreadyRead :: nat

definition buffer_size :: nat where "buffer_size = 65536"

definition BufferedReader_init :: "bytes \<Rightarrow> BufferedReader" where
  "BufferedReader_init uninitialised = \<lparr>m_buffer = uninitialised, m_fillLevel = 0, m_alreadyRead = 0\<rparr>"

text \<open>\<open>memcpy(dst + off, src, n)\<close> for all of \<open>src\<close>, inside the destination.\<close>

definition copy_to :: "nat \<Rightarrow> bytes \<Rightarrow> bytes \<Rightarrow> bytes" where
  "copy_to off src dst = take off dst @ src @ drop (off + length src) dst"

section \<open>Linux\<close>

text \<open>
  The result, the caller's buffer, the reader and the outside. \<open>readv\<close> is given the lengths of the
  two buffers; \<^term>\<open>Inl\<close> is the return value \<open>-1\<close> with its \<open>errno\<close>.
\<close>

definition recv ::
  "(nat list \<Rightarrow> 'w \<Rightarrow> ('e + bytes) \<times> 'w) \<Rightarrow> BufferedReader \<Rightarrow> 'w \<Rightarrow> bytes \<Rightarrow> nat \<Rightarrow>
   ('e + nat) \<times> bytes \<times> BufferedReader \<times> 'w" where
  "recv readv this w buf desiredLen =
     (let bytesLeft = m_fillLevel this - m_alreadyRead this;
          rest = drop (m_alreadyRead this) (m_buffer this) in
      if desiredLen \<le> bytesLeft then
        (Inr desiredLen, copy_to 0 (take desiredLen rest) buf,
         this\<lparr>m_alreadyRead := m_alreadyRead this + desiredLen\<rparr>, w)
      else
        let buf = (if 0 < bytesLeft then copy_to 0 (take bytesLeft rest) buf else buf) in
        case readv [desiredLen - bytesLeft, length (m_buffer this)] w of (res, w) \<Rightarrow>
        let this = this\<lparr>m_alreadyRead := 0\<rparr> in
        case res of
          Inl e \<Rightarrow> (Inl e, buf, this\<lparr>m_fillLevel := 0\<rparr>, w)
        | Inr bs \<Rightarrow>
            let retVal = length bs;
                buf = copy_to bytesLeft (take (desiredLen - bytesLeft) bs) buf;
                this = this\<lparr>m_buffer := copy_to 0 (drop (desiredLen - bytesLeft) bs) (m_buffer this)\<rparr> in
            if desiredLen < retVal then (Inr desiredLen, buf, this\<lparr>m_fillLevel := retVal - desiredLen\<rparr>, w)
            else (Inr retVal, buf, this\<lparr>m_fillLevel := 0\<rparr>, w))"

section \<open>Windows\<close>

text \<open>
  \<open>wsa_recv\<close> reads into the two buffers, \<open>wsa_signal\<close> asks for the completion with the next byte
  and succeeds when it completed at once, and \<open>is_pending\<close> is the state of the overlapped operation.
  The function returns \<^term>\<open>Inl\<close> for \<open>-1\<close>, with the error for \<open>WSAGetLastError\<close>. Where the second
  \<open>WSARecv\<close> fails, the code uses \<open>numberOfBytesRecvd\<close> without looking at the result; it has not
  been set then, and is the argument \<open>garbage\<close>.
\<close>

datatype wsa_error = WSA_IO_PENDING | WSAEWOULDBLOCK | WSAEINTR | WSAEINPROGRESS | WSAE_OTHER nat

record 'w wsa_reader =
  is_pending :: "'w \<Rightarrow> bool"
  wsa_recv :: "nat list \<Rightarrow> 'w \<Rightarrow> (wsa_error + bytes) \<times> 'w"
  wsa_signal :: "'w \<Rightarrow> (wsa_error + unit) \<times> 'w"
  garbage :: nat

text \<open>What both successful branches do with the bytes received; nothing is left in the reader then.\<close>

definition keep_rest :: "BufferedReader \<Rightarrow> bytes \<Rightarrow> nat \<Rightarrow> bytes \<Rightarrow> nat \<times> bytes \<times> BufferedReader" where
  "keep_rest this buf desiredLen bs =
     (let numberOfBytesRecvd = length bs;
          buf = copy_to 0 (take desiredLen bs) buf;
          this = this\<lparr>m_buffer := copy_to 0 (drop desiredLen bs) (m_buffer this)\<rparr> in
      if desiredLen < numberOfBytesRecvd
      then (desiredLen, buf, this\<lparr>m_fillLevel := numberOfBytesRecvd - desiredLen\<rparr>)
      else (numberOfBytesRecvd, buf, this\<lparr>m_fillLevel := 0\<rparr>))"

definition win_recv ::
  "'w wsa_reader \<Rightarrow> BufferedReader \<Rightarrow> 'w \<Rightarrow> bytes \<Rightarrow> nat \<Rightarrow>
   (wsa_error + nat) \<times> bytes \<times> BufferedReader \<times> 'w" where
  "win_recv k this w buf desiredLen =
     (let bytesLeft = m_fillLevel this - m_alreadyRead this;
          rest = drop (m_alreadyRead this) (m_buffer this) in
      if desiredLen \<le> bytesLeft then
        (Inr desiredLen, copy_to 0 (take desiredLen rest) buf,
         this\<lparr>m_alreadyRead := m_alreadyRead this + desiredLen\<rparr>, w)
      else if 0 < bytesLeft then
        (Inr bytesLeft, copy_to 0 (take bytesLeft rest) buf, this\<lparr>m_alreadyRead := m_fillLevel this\<rparr>, w)
      else if is_pending k w then (Inl WSA_IO_PENDING, buf, this, w)
      else case wsa_recv k [desiredLen, length (m_buffer this)] w of (res, w) \<Rightarrow>
        let this = this\<lparr>m_alreadyRead := 0\<rparr> in
        case res of
          Inl e \<Rightarrow>
            if e = WSAEWOULDBLOCK then
              (case wsa_signal k w of (completed, w) \<Rightarrow>
               case completed of
                 Inl e1 \<Rightarrow> (Inl e1, buf, this\<lparr>m_fillLevel := 0\<rparr>, w)
               | Inr _ \<Rightarrow>
                 (case wsa_recv k [desiredLen, length (m_buffer this)] w of (res2, w) \<Rightarrow>
                  case res2 of
                    Inr bs \<Rightarrow> (case keep_rest this buf desiredLen bs of (n, buf, this) \<Rightarrow> (Inr n, buf, this, w))
                  | Inl e2 \<Rightarrow>
                      if desiredLen < garbage k
                      then (Inr desiredLen, buf, this\<lparr>m_fillLevel := garbage k - desiredLen\<rparr>, w)
                      else (Inr (garbage k), buf, this\<lparr>m_fillLevel := 0\<rparr>, w)))
            else (Inl e, buf, this\<lparr>m_fillLevel := 0\<rparr>, w)
        | Inr bs \<Rightarrow> (case keep_rest this buf desiredLen bs of (n, buf, this) \<Rightarrow> (Inr n, buf, this, w)))"

section \<open>Contracts\<close>

definition reader_ok :: "BufferedReader \<Rightarrow> bool" where
  "reader_ok r \<longleftrightarrow> length (m_buffer r) = buffer_size \<and> m_alreadyRead r \<le> m_fillLevel r \<and>
     m_fillLevel r \<le> buffer_size"

text \<open>The bytes read but not yet handed out\<close>

definition left :: "BufferedReader \<Rightarrow> bytes" where
  "left r = drop (m_alreadyRead r) (take (m_fillLevel r) (m_buffer r))"

locale byte_source =
  fixes read :: "nat list \<Rightarrow> 'w \<Rightarrow> ('e + bytes) \<times> 'w" and upcoming :: "'w \<Rightarrow> bytes"
  assumes read_bytes: "read ls w = (Inr bs, w') \<Longrightarrow> upcoming w = bs @ upcoming w' \<and> length bs \<le> sum_list ls"
    and read_error: "read ls w = (Inl e, w') \<Longrightarrow> upcoming w' = upcoming w"

text \<open>
  What a client relies on; \<open>fine\<close> are the requests for which the reader keeps its contract. What
  comes after a request for the rest of it is fine again.
\<close>

locale stream_recv =
  fixes recv :: "'r \<Rightarrow> 'w \<Rightarrow> bytes \<Rightarrow> nat \<Rightarrow> ('e + nat) \<times> bytes \<times> 'r \<times> 'w"
    and ok :: "'r \<Rightarrow> bool" and fine :: "'r \<Rightarrow> nat \<Rightarrow> bool" and rest :: "'r \<Rightarrow> 'w \<Rightarrow> bytes"
  assumes recv_bytes: "ok r \<Longrightarrow> fine r n \<Longrightarrow> n \<le> length buf \<Longrightarrow> recv r w buf n = (Inr k, buf', r', w') \<Longrightarrow>
      k \<le> n \<and> ok r' \<and> fine r' (n - k) \<and>
      (\<exists>bs. length bs = k \<and> buf' = copy_to 0 bs buf \<and> rest r w = bs @ rest r' w')"
    and recv_error: "ok r \<Longrightarrow> fine r n \<Longrightarrow> n \<le> length buf \<Longrightarrow> recv r w buf n = (Inl e, buf', r', w') \<Longrightarrow>
      ok r' \<and> fine r' n \<and> buf' = buf \<and> rest r' w' = rest r w"

section \<open>Readers keep the contract\<close>

lemma copy_to_0: "copy_to 0 bs buf = bs @ drop (length bs) buf"
  by (simp add: copy_to_def)

lemma copy_to_nothing [simp]: "copy_to off [] buf = buf"
  by (simp add: copy_to_def)

lemma left_length: "reader_ok r \<Longrightarrow> length (left r) = m_fillLevel r - m_alreadyRead r"
  by (simp add: reader_ok_def left_def)

lemma left_empty: "m_fillLevel r \<le> m_alreadyRead r \<Longrightarrow> left r = []"
  by (simp add: left_def)

lemma left_take:
  assumes "reader_ok r" "n \<le> length (left r)"
  shows "take n (drop (m_alreadyRead r) (m_buffer r)) = take n (left r)"
proof -
  have "n + m_alreadyRead r \<le> m_fillLevel r" using assms by (auto simp: left_length reader_ok_def)
  then show ?thesis by (simp add: left_def take_drop min_def)
qed

lemma left_advance:
  "reader_ok r \<Longrightarrow> n \<le> length (left r) \<Longrightarrow>
   reader_ok (r\<lparr>m_alreadyRead := m_alreadyRead r + n\<rparr>) \<and>
   left r = take n (left r) @ left (r\<lparr>m_alreadyRead := m_alreadyRead r + n\<rparr>)"
proof -
  assume ok: "reader_ok r" and n: "n \<le> length (left r)"
  have "left (r\<lparr>m_alreadyRead := m_alreadyRead r + n\<rparr>) = drop n (left r)"
    by (simp add: left_def add.commute)
  with ok n left_length [OF ok] show ?thesis by (auto simp: reader_ok_def)
qed

text \<open>After a read that fills the reader's buffer, what is left are the bytes beyond the request.\<close>

lemma left_filled:
  assumes "length (m_buffer r) = buffer_size" "length bs \<le> n + buffer_size"
  shows "reader_ok (r\<lparr>m_alreadyRead := 0, m_buffer := copy_to 0 (drop n bs) (m_buffer r), m_fillLevel := length bs - n\<rparr>)"
    and "left (r\<lparr>m_alreadyRead := 0, m_buffer := copy_to 0 (drop n bs) (m_buffer r), m_fillLevel := length bs - n\<rparr>) = drop n bs"
  using assms by (auto simp: reader_ok_def left_def copy_to_0)

text \<open>A request that what is left can serve\<close>

lemma recv_from_left:
  assumes "reader_ok r" "n \<le> length (left r)"
  shows "\<exists>r'. recv read r w buf n = (Inr n, copy_to 0 (take n (left r)) buf, r', w) \<and>
    reader_ok r' \<and> left r = take n (left r) @ left r'"
  using assms left_take [OF assms] left_advance [OF assms]
  by (simp add: recv_def left_length Let_def)

lemma win_recv_from_left:
  assumes "reader_ok r" "n \<le> length (left r)"
  shows "\<exists>r'. win_recv env r w buf n = (Inr n, copy_to 0 (take n (left r)) buf, r', w) \<and>
    reader_ok r' \<and> left r = take n (left r) @ left r'"
  using assms left_take [OF assms] left_advance [OF assms]
  by (simp add: win_recv_def left_length Let_def)

context byte_source
begin

lemma recv_nothing_left:
  assumes "reader_ok r" "left r = []" "0 < n" "n \<le> length buf"
  shows "case read [n, buffer_size] w of
      (Inl e, w') \<Rightarrow> \<exists>r'. recv read r w buf n = (Inl e, buf, r', w') \<and> reader_ok r' \<and> left r' = []
    | (Inr bs, w') \<Rightarrow> \<exists>r'. recv read r w buf n = (Inr (length (take n bs)), copy_to 0 (take n bs) buf, r', w') \<and>
        reader_ok r' \<and> left r' = drop n bs"
proof -
  have pos: "m_fillLevel r - m_alreadyRead r = 0" "length (m_buffer r) = buffer_size"
    using assms(1,2) left_length [OF assms(1)] by (simp_all add: reader_ok_def)
  obtain res w' where res: "read [n, buffer_size] w = (res, w')" by fastforce
  show ?thesis
  proof (cases res)
    case (Inl e)
    then show ?thesis using res pos assms(3)
      by (simp add: recv_def Let_def reader_ok_def left_def)
  next
    case (Inr bs)
    then have "length bs \<le> n + buffer_size" using res read_bytes by fastforce
    note filled = left_filled [OF pos(2) this]
    have z: "length bs \<le> n \<Longrightarrow> length bs - n = 0" by simp
    show ?thesis using res Inr pos assms(3) filled
      by (cases "n < length bs") (simp_all add: recv_def Let_def)
  qed
qed

end

sublocale byte_source \<subseteq> linux_reader: stream_recv "recv read" reader_ok
    "\<lambda>r n. left r = [] \<or> n \<le> length (left r)" "\<lambda>r w. left r @ upcoming w"
proof
  fix r n buf w k buf' r' w'
  assume ok: "reader_ok r" and fine: "left r = [] \<or> n \<le> length (left r)" and n: "n \<le> length buf"
    and recv: "recv read r w buf n = (Inr k, buf', r', w')"
  show "k \<le> n \<and> reader_ok r' \<and> (left r' = [] \<or> n - k \<le> length (left r')) \<and>
    (\<exists>bs. length bs = k \<and> buf' = copy_to 0 bs buf \<and> left r @ upcoming w = bs @ left r' @ upcoming w')"
  proof (cases "n \<le> length (left r)")
    case True
    with recv_from_left [OF ok True, of read w buf] recv have
      "k = n" "buf' = copy_to 0 (take n (left r)) buf" "reader_ok r'" "left r = take n (left r) @ left r'" "w' = w"
      by auto
    with True show ?thesis by (auto intro!: exI [of _ "take n (left r)"])
  next
    case False
    with fine have e: "left r = []" "0 < n" by auto
    obtain res w1 where res: "read [n, buffer_size] w = (res, w1)" by fastforce
    with recv_nothing_left [OF ok e n, of w] recv obtain bs where bs: "res = Inr bs" "k = length (take n bs)"
      "buf' = copy_to 0 (take n bs) buf" "reader_ok r'" "left r' = drop n bs" "w' = w1"
      by (cases res) auto
    with read_bytes [of "[n, buffer_size]" w bs w1] res e(1) show ?thesis
      by (auto simp: min_def intro!: exI [of _ "take n bs"])
  qed
next
  fix r n buf w e buf' r' w'
  assume ok: "reader_ok r" and fine: "left r = [] \<or> n \<le> length (left r)" and n: "n \<le> length buf"
    and recv: "recv read r w buf n = (Inl e, buf', r', w')"
  have "\<not> n \<le> length (left r)" using recv_from_left [OF ok, of n read w buf] recv by auto
  with fine have l: "left r = []" "0 < n" by auto
  obtain res w1 where res: "read [n, buffer_size] w = (res, w1)" by fastforce
  with recv_nothing_left [OF ok l n, of w] recv have "res = Inl e" "buf' = buf" "reader_ok r'" "left r' = []" "w' = w1"
    by (cases res; auto)+
  with read_error res l show "reader_ok r' \<and> (left r' = [] \<or> n \<le> length (left r')) \<and> buf' = buf \<and>
      left r' @ upcoming w' = left r @ upcoming w" by auto
qed

text \<open>The calls of Windows: a completion at once means that there is something to be received.\<close>

locale wsa_source = byte_source "wsa_recv env" upcoming
  for env :: "'w wsa_reader" and upcoming :: "'w \<Rightarrow> bytes" +
  assumes signal_upcoming: "wsa_signal env w = (res, w') \<Longrightarrow> upcoming w' = upcoming w"
    and signal_completed: "wsa_signal env w = (Inr u, w') \<Longrightarrow> \<exists>bs w''. wsa_recv env ls w' = (Inr bs, w'')"
begin

lemma keep_rest_left:
  assumes "length (m_buffer r) = buffer_size" "m_alreadyRead r = 0" "length bs \<le> n + buffer_size"
  shows "\<exists>r'. keep_rest r buf n bs = (length (take n bs), copy_to 0 (take n bs) buf, r') \<and>
    reader_ok r' \<and> left r' = drop n bs"
proof -
  obtain b f where r: "r = \<lparr>m_buffer = b, m_fillLevel = f, m_alreadyRead = 0\<rparr>"
    using assms(2) by (cases r) simp
  from left_filled [OF assms(1,3)] show ?thesis
    by (cases "n < length bs") (simp_all add: keep_rest_def Let_def r)
qed

lemma win_recv_nothing_left:
  assumes "reader_ok r" "left r = []" "0 < n" and recv: "win_recv env r w buf n = (res, buf', r', w')"
  shows "case res of
      Inl e \<Rightarrow> buf' = buf \<and> reader_ok r' \<and> left r' = [] \<and> upcoming w' = upcoming w
    | Inr m \<Rightarrow> \<exists>bs. m = length (take n bs) \<and> buf' = copy_to 0 (take n bs) buf \<and> reader_ok r' \<and>
        left r' = drop n bs \<and> upcoming w = bs @ upcoming w'"
proof -
  have pos: "m_fillLevel r - m_alreadyRead r = 0" "length (m_buffer r) = buffer_size"
    using assms(1,2) left_length [OF assms(1)] by (simp_all add: reader_ok_def)
  let ?r = "r\<lparr>m_alreadyRead := 0\<rparr>"
  have empty: "reader_ok (?r\<lparr>m_fillLevel := 0\<rparr>)" "left (?r\<lparr>m_fillLevel := 0\<rparr>) = []"
    using pos by (simp_all add: reader_ok_def left_def)
  have got: "\<exists>r1. keep_rest ?r buf n bs = (length (take n bs), copy_to 0 (take n bs) buf, r1) \<and>
      reader_ok r1 \<and> left r1 = drop n bs \<and> upcoming w1 = bs @ upcoming w2"
    if "wsa_recv env [n, buffer_size] w1 = (Inr bs, w2)" for w1 bs w2
    using keep_rest_left [of ?r bs n buf] pos read_bytes [OF that] by simp
  show ?thesis
  proof (cases "is_pending env w")
    case True
    with recv pos assms(1-3) show ?thesis by (auto simp: win_recv_def Let_def)
  next
    case False
    obtain res1 w1 where 1: "wsa_recv env [n, buffer_size] w = (res1, w1)" by fastforce
    show ?thesis
    proof (cases res1)
      case (Inr bs)
      from got [OF 1 [unfolded Inr]] recv pos assms(3) False 1 Inr show ?thesis
        by (auto simp: win_recv_def Let_def)
    next
      case (Inl e)
      then have u1: "upcoming w1 = upcoming w" using 1 read_error by blast
      obtain sig w2 where 2: "wsa_signal env w1 = (sig, w2)" by fastforce
      then have u2: "upcoming w2 = upcoming w" using signal_upcoming u1 by metis
      show ?thesis
      proof (cases "e = WSAEWOULDBLOCK \<and> (\<exists>u. sig = Inr u)")
        case True
        then obtain bs w3 where 3: "wsa_recv env [n, buffer_size] w2 = (Inr bs, w3)"
          using 2 signal_completed by blast
        from got [OF 3] u2 recv pos assms(3) False 1 2 3 Inl True show ?thesis
          by (auto simp: win_recv_def Let_def)
      next
        case no: False
        from u1 u2 recv pos assms(3) False 1 2 Inl no empty show ?thesis
          by (cases sig) (auto simp: win_recv_def Let_def split: if_splits)
      qed
    qed
  qed
qed

end

sublocale wsa_source \<subseteq> windows_reader: stream_recv "win_recv env" reader_ok "\<lambda>_ _. True"
    "\<lambda>r w. left r @ upcoming w"
proof
  fix r n buf w m buf' r' w'
  assume ok: "reader_ok r" and n: "n \<le> length buf"
    and recv: "win_recv env r w buf n = (Inr m, buf', r', w')"
  consider "n \<le> length (left r)" | "left r = []" "0 < n" | "0 < length (left r)" "length (left r) < n"
    by (cases "n \<le> length (left r)"; cases "left r") auto
  then show "m \<le> n \<and> reader_ok r' \<and> True \<and>
    (\<exists>bs. length bs = m \<and> buf' = copy_to 0 bs buf \<and> left r @ upcoming w = bs @ left r' @ upcoming w')"
  proof cases
    case 1
    with win_recv_from_left [OF ok 1, of env w buf] recv have
      "m = n" "buf' = copy_to 0 (take n (left r)) buf" "reader_ok r'" "left r = take n (left r) @ left r'" "w' = w"
      by auto
    with 1 show ?thesis by (auto intro!: exI [of _ "take n (left r)"])
  next
    case 2
    with win_recv_nothing_left [OF ok 2 recv] show ?thesis
      by (auto simp: min_def intro!: exI [of _ "take n _"])
  next
    case 3
    have d: "m_fillLevel r - m_alreadyRead r = length (left r)" "m_fillLevel r = m_alreadyRead r + length (left r)"
      using left_length [OF ok] ok by (simp_all add: reader_ok_def)
    have "\<not> n \<le> length (left r)" using 3 by simp
    with recv 3(1) left_take [OF ok, of "length (left r)"]
    have "r' = r\<lparr>m_alreadyRead := m_alreadyRead r + length (left r)\<rparr>" "m = length (left r)" "w' = w"
      "buf' = copy_to 0 (left r) buf"
      by (auto simp: win_recv_def Let_def d)
    with left_advance [OF ok, of "length (left r)"] 3 show ?thesis by auto
  qed
next
  fix r n buf w e buf' r' w'
  assume ok: "reader_ok r" and n: "n \<le> length buf"
    and recv: "win_recv env r w buf n = (Inl e, buf', r', w')"
  have "left r = []" "0 < n"
    using recv ok by (auto simp: win_recv_def left_def Let_def split: if_splits)
  from win_recv_nothing_left [OF ok this recv] this
  show "reader_ok r' \<and> True \<and> buf' = buf \<and> left r' @ upcoming w' = left r @ upcoming w" by simp
qed

section \<open>A source that computes\<close>

text \<open>The peer's bytes, in the pieces in which they arrive; an empty piece is an interrupted call.\<close>

definition piece_read :: "nat list \<Rightarrow> bytes list \<Rightarrow> (errno + bytes) \<times> bytes list" where
  "piece_read ls pieces = (case pieces of
     [] \<Rightarrow> (Inr [], [])
   | [] # ps \<Rightarrow> (Inl EAGAIN, ps)
   | p # ps \<Rightarrow> let n = sum_list ls in
       if length p \<le> n then (Inr p, ps) else (Inr (take n p), drop n p # ps))"

interpretation pieces_source: byte_source piece_read concat
  by unfold_locales (auto simp: piece_read_def Let_def split: list.splits if_splits)

definition piece_wsa :: "bytes list wsa_reader" where
  "piece_wsa = \<lparr>is_pending = (\<lambda>w. False),
     wsa_recv = (\<lambda>ls w. case piece_read ls w of (Inl e, w) \<Rightarrow> (Inl WSAEWOULDBLOCK, w) | (Inr bs, w) \<Rightarrow> (Inr bs, w)),
     wsa_signal = (\<lambda>w. (Inl WSA_IO_PENDING, w)), garbage = 0\<rparr>"

interpretation pieces_wsa: wsa_source piece_wsa concat
  by unfold_locales
     (auto simp: piece_wsa_def piece_read_def Let_def split: list.splits if_splits)

context byte_source
begin

lemma linux_contract:
  "stream_recv (recv read) reader_ok (\<lambda>r n. left r = [] \<or> n \<le> length (left r)) (\<lambda>r w. left r @ upcoming w)"
  by unfold_locales

end

context wsa_source
begin

lemma windows_contract: "stream_recv (win_recv env) reader_ok (\<lambda>_ _. True) (\<lambda>r w. left r @ upcoming w)"
  by unfold_locales

end

section \<open>Properties\<close>

text \<open>
  The reader under Windows behaves like a stream: a call that returns a length has stored the next
  bytes of what was left and of what comes in, and leaves exactly the bytes after them; a failing
  call changes neither the caller's buffer nor what comes next.
\<close>

theorem win_recv_stream:
  assumes "wsa_source env upcoming" "reader_ok r" "n \<le> length buf" "win_recv env r w buf n = (res, buf', r', w')"
  shows "reader_ok r' \<and> (case res of
      Inr m \<Rightarrow> m \<le> n \<and> (\<exists>bs. length bs = m \<and> buf' = bs @ drop m buf \<and> left r @ upcoming w = bs @ left r' @ upcoming w')
    | Inl e \<Rightarrow> buf' = buf \<and> left r @ upcoming w = left r' @ upcoming w')"
proof (cases res)
  case (Inl e)
  with stream_recv.recv_error [OF wsa_source.windows_contract [OF assms(1)], of r n buf w e] assms show ?thesis
    by (simp add: eq_commute)
next
  case (Inr m)
  with stream_recv.recv_bytes [OF wsa_source.windows_contract [OF assms(1)], of r n buf w m] assms show ?thesis
    by (auto simp: copy_to_0)
qed

theorem win_recv_stream_witness:
  "\<exists>r' w'. win_recv piece_wsa (BufferedReader_init (replicate buffer_size 0)) [[1, 2, 3]] [0, 0] 2 = (Inr 2, [1, 2], r', w') \<and>
     left r' @ concat w' = [3]"
proof -
  let ?r = "BufferedReader_init (replicate buffer_size 0)"
  obtain res buf' r' w' where recv: "win_recv piece_wsa ?r [[1, 2, 3]] [0, 0] 2 = (res, buf', r', w')"
    by (cases "win_recv piece_wsa ?r [[1, 2, 3]] [0, 0] 2") auto
  have "res = Inr 2"
    using recv by (simp add: win_recv_def BufferedReader_init_def piece_wsa_def piece_read_def keep_rest_def
        buffer_size_def Let_def)
  moreover have "reader_ok ?r" "left ?r = []" by (simp_all add: BufferedReader_init_def reader_ok_def left_def)
  ultimately obtain bs where "length bs = 2" "buf' = bs @ drop 2 [0, 0]" "[1, 2, 3] = bs @ left r' @ concat w'"
    using win_recv_stream [OF pieces_wsa.wsa_source_axioms _ _ recv] by auto
  then show ?thesis using recv \<open>res = Inr 2\<close> by (auto simp: length_Suc_conv numeral_2_eq_2)
qed

text \<open>
  Under Linux the same holds for a request that what is left can serve, and for any request when
  nothing is left.
\<close>

theorem linux_recv_stream:
  assumes "byte_source read upcoming" "reader_ok r" "left r = [] \<or> n \<le> length (left r)" "n \<le> length buf"
    and "recv read r w buf n = (res, buf', r', w')"
  shows "reader_ok r' \<and> (case res of
      Inr m \<Rightarrow> m \<le> n \<and> (\<exists>bs. length bs = m \<and> buf' = bs @ drop m buf \<and> left r @ upcoming w = bs @ left r' @ upcoming w')
    | Inl e \<Rightarrow> buf' = buf \<and> left r @ upcoming w = left r' @ upcoming w')"
proof (cases res)
  case (Inl e)
  with stream_recv.recv_error [OF byte_source.linux_contract [OF assms(1)], of r n buf w e] assms show ?thesis
    by (simp add: eq_commute)
next
  case (Inr m)
  with stream_recv.recv_bytes [OF byte_source.linux_contract [OF assms(1)], of r n buf w m] assms show ?thesis
    by (auto simp: copy_to_0)
qed

theorem linux_recv_stream_witness:
  "\<exists>r' w'. recv piece_read (BufferedReader_init (replicate buffer_size 0)) [[1, 2, 3]] [0, 0] 2 = (Inr 2, [1, 2], r', w') \<and>
     left r' @ concat w' = [3]"
proof -
  let ?r = "BufferedReader_init (replicate buffer_size 0)"
  obtain res buf' r' w' where recv: "recv piece_read ?r [[1, 2, 3]] [0, 0] 2 = (res, buf', r', w')"
    by (cases "recv piece_read ?r [[1, 2, 3]] [0, 0] 2") auto
  have "res = Inr 2"
    using recv by (simp add: recv_def BufferedReader_init_def piece_read_def buffer_size_def Let_def)
  moreover have "reader_ok ?r" "left ?r = []" by (simp_all add: BufferedReader_init_def reader_ok_def left_def)
  ultimately obtain bs where "length bs = 2" "buf' = bs @ drop 2 [0, 0]" "[1, 2, 3] = bs @ left r' @ concat w'"
    using linux_recv_stream [OF pieces_source.byte_source_axioms _ _ _ recv] by auto
  then show ?thesis using recv \<open>res = Inr 2\<close> by (auto simp: length_Suc_conv numeral_2_eq_2)
qed



end
