(* ===== verification/Socket_Io.thy ===== *)
theory Socket_Io
  imports Buffered_Reader
begin

text \<open>
  The blocking transfers of \<open>hbk::communication::SocketNonblocking\<close>, as the Linux sources have them
  (\<^verbatim>\<open>lib/communication/linux/socketnonblocking.cpp\<close>): \<open>sendBlock\<close>, \<open>sendBlocks\<close>, \<open>send\<close>,
  \<open>receive\<close> and \<open>receiveComplete\<close>. The system calls are the fields of the record \<open>sock_io\<close>. Loops
  that wait for the kernel are partial functions, so that not returning is the value \<^term>\<open>None\<close>; the
  locale \<open>wire\<close> states what POSIX promises of the calls, and that the kernel interrupts a call or
  refuses data finitely often only, from which the lemmas show that the transfers return.

  The lemmas show that what has reached the wire is the data in order, without gaps or repetitions,
  completely where the length is returned, and up to some point where an error is.
\<close>

section \<open>System calls\<close>

definition MSG_NOSIGNAL :: u32 where "MSG_NOSIGNAL = 0x4000"
definition MSG_MORE :: u32 where "MSG_MORE = 0x8000"

datatype pollev = POLLIN | POLLOUT

record 'w sock_io =
  s_send :: "fd \<Rightarrow> bytes \<Rightarrow> u32 \<Rightarrow> 'w \<Rightarrow> nat sysres \<times> 'w"
  s_sendmsg :: "fd \<Rightarrow> bytes list \<Rightarrow> u32 \<Rightarrow> 'w \<Rightarrow> nat sysres \<times> 'w"
  s_readv :: "fd \<Rightarrow> nat list \<Rightarrow> 'w \<Rightarrow> bytes sysres \<times> 'w"
  s_poll :: "fd \<Rightarrow> pollev \<Rightarrow> int \<Rightarrow> 'w \<Rightarrow> nat sysres \<times> 'w"

section \<open>The code\<close>

text \<open>\<open>poll\<close>, repeated while it is interrupted\<close>

partial_function (option) poll_retry ::
  "('w \<Rightarrow> nat sysres \<times> 'w) \<Rightarrow> 'w \<Rightarrow> (nat sysres \<times> 'w) option" where
  "poll_retry poll w =
     (case poll w of (err, w) \<Rightarrow> if err = Inl EINTR then poll_retry poll w else Some (err, w))"

definition waitForWritable :: "'w sock_io \<Rightarrow> fd \<Rightarrow> int \<Rightarrow> 'w \<Rightarrow> (nat sysres \<times> 'w) option" where
  "waitForWritable io fd timeoutMilliSeconds w = poll_retry (s_poll io fd POLLOUT timeoutMilliSeconds) w"

text \<open>\<open>pDat\<close> is the part of the block that is still to be sent.\<close>

partial_function (option) sendBlock_loop ::
  "'w sock_io \<Rightarrow> fd \<Rightarrow> u32 \<Rightarrow> nat \<Rightarrow> bytes \<Rightarrow> 'w \<Rightarrow> (int \<times> 'w) option" where
  "sendBlock_loop io fd flags len pDat w =
     (if pDat = [] then Some (int len, w)
      else case s_send io fd pDat flags w of (numBytes, w) \<Rightarrow>
        case numBytes of
          Inr n \<Rightarrow> if 0 < n then sendBlock_loop io fd flags len (drop n pDat) w else Some (-1, w)
        | Inl e \<Rightarrow>
            if e = EWOULDBLOCK \<or> e = EAGAIN then
              Option.bind (waitForWritable io fd (-1) w) (\<lambda>(err, w).
                if err \<noteq> Inr 1 then Some (-1, w) else sendBlock_loop io fd flags len pDat w)
            else if e \<noteq> EINTR then Some (-1, w)
            else sendBlock_loop io fd flags len pDat w)"

definition sendBlock :: "'w sock_io \<Rightarrow> fd \<Rightarrow> bytes \<Rightarrow> bool \<Rightarrow> 'w \<Rightarrow> (int \<times> 'w) option" where
  "sendBlock io fd pBlock more_data w =
     (let flags = MSG_NOSIGNAL; flags = (if more_data then flags OR MSG_MORE else flags)
      in sendBlock_loop io fd flags (length pBlock) pBlock w)"

text \<open>
  Skipping what has been written: the blocks done with, and the blocks left, the first of them cut.
  \<^term>\<open>None\<close> is the pointer running past the last block.
\<close>

fun skip_blocks :: "nat \<Rightarrow> bytes list \<Rightarrow> (bytes list \<times> bytes list) option" where
  "skip_blocks remainingOffset [] = None"
| "skip_blocks remainingOffset (b # bs) =
     (if length b \<le> remainingOffset then
        map_option (\<lambda>(skipped, rest). (b # skipped, rest)) (skip_blocks (remainingOffset - length b) bs)
      else Some ([], drop remainingOffset b # bs))"

text \<open>
  \<open>before\<close> are the blocks in front of \<open>pBlockPos\<close>; the array of the caller is changed in place, so it
  is part of the result. A result of \<^term>\<open>None\<close> inside is the access past its end.
\<close>

partial_function (option) sendBlocks_loop ::
  "'w sock_io \<Rightarrow> fd \<Rightarrow> u32 \<Rightarrow> nat \<Rightarrow> nat \<Rightarrow> bytes list \<Rightarrow> bytes list \<Rightarrow> 'w \<Rightarrow>
   (int option \<times> bytes list \<times> 'w) option" where
  "sendBlocks_loop io fd flags totalLength totalBytesRemaining before blocks w =
     (case s_sendmsg io fd blocks flags w of (retVal, w) \<Rightarrow>
      if retVal = Inr 0 then Some (Some 0, before @ blocks, w)
      else if (\<exists>e. retVal = Inl e \<and> e \<noteq> EWOULDBLOCK \<and> e \<noteq> EAGAIN \<and> e \<noteq> EINTR)
        then Some (Some (-1), before @ blocks, w)
      else
        let bytesWritten = (case retVal of Inl e \<Rightarrow> 0 | Inr n \<Rightarrow> n);
            totalBytesRemaining = totalBytesRemaining - bytesWritten in
        if totalBytesRemaining = 0 then Some (Some (int totalLength), before @ blocks, w)
        else case skip_blocks bytesWritten blocks of
          None \<Rightarrow> Some (None, before @ blocks, w)
        | Some (skipped, rest) \<Rightarrow>
            Option.bind (waitForWritable io fd (-1) w) (\<lambda>(err, w).
              if err \<noteq> Inr 1 then Some (Some (-1), before @ skipped @ rest, w)
              else sendBlocks_loop io fd flags totalLength totalBytesRemaining (before @ skipped) rest w))"

definition sendBlocks ::
  "'w sock_io \<Rightarrow> fd \<Rightarrow> bytes list \<Rightarrow> bool \<Rightarrow> 'w \<Rightarrow> (int option \<times> bytes list \<times> 'w) option" where
  "sendBlocks io fd blocks more_data w =
     (let flags = MSG_NOSIGNAL; flags = (if more_data then MSG_MORE else flags);
          totalLength = sum_list (map length blocks)
      in sendBlocks_loop io fd flags totalLength totalLength [] blocks w)"

text \<open>The overload for a list of blocks works on a copy.\<close>

definition sendBlocks_list ::
  "'w sock_io \<Rightarrow> fd \<Rightarrow> bytes list \<Rightarrow> bool \<Rightarrow> 'w \<Rightarrow> (int option \<times> 'w) option" where
  "sendBlocks_list io fd blocks more_data w =
     map_option (\<lambda>(r, _, w). (r, w)) (sendBlocks io fd blocks more_data w)"

definition send :: "'w sock_io \<Rightarrow> fd \<Rightarrow> bytes \<Rightarrow> bool \<Rightarrow> 'w \<Rightarrow> nat sysres \<times> 'w" where
  "send io fd pBlock more_data w =
     (let flags = MSG_NOSIGNAL; flags = (if more_data then flags OR MSG_MORE else flags)
      in s_send io fd pBlock flags w)"

definition receive ::
  "'w sock_io \<Rightarrow> fd \<Rightarrow> BufferedReader \<Rightarrow> 'w \<Rightarrow> bytes \<Rightarrow> nat \<Rightarrow> nat sysres \<times> bytes \<times> BufferedReader \<times> 'w" where
  "receive io fd reader w pBlock len = recv (s_readv io fd) reader w pBlock len"

text \<open>
  The loop of \<open>receiveComplete\<close> over the buffer of the caller, for a reader \<open>rd\<close>. \<open>again\<close> are the
  errors after which it waits; \<open>wait\<close> says whether there is something to read.
\<close>

partial_function (option) receive_loop ::
  "('r \<Rightarrow> 'w \<Rightarrow> bytes \<Rightarrow> nat \<Rightarrow> ('e + nat) \<times> bytes \<times> 'r \<times> 'w) \<Rightarrow> ('e \<Rightarrow> bool) \<Rightarrow>
   ('w \<Rightarrow> (bool \<times> 'w) option) \<Rightarrow> nat \<Rightarrow> nat \<Rightarrow> bytes \<Rightarrow> 'r \<Rightarrow> 'w \<Rightarrow> (int \<times> bytes \<times> 'r \<times> 'w) option" where
  "receive_loop rd again wait len sizeLeft block r w =
     (if sizeLeft = 0 then Some (int len, block, r, w)
      else case rd r w (drop (len - sizeLeft) block) sizeLeft of (retVal, part, r, w) \<Rightarrow>
        let block = take (len - sizeLeft) block @ part in
        case retVal of
          Inr n \<Rightarrow>
            if 0 < n then receive_loop rd again wait len (sizeLeft - n) block r w
            else Some (int (len - sizeLeft), block, r, w)
        | Inl e \<Rightarrow>
            if again e then
              Option.bind (wait w) (\<lambda>(ready, w).
                if \<not> ready then Some (-1, block, r, w)
                else receive_loop rd again wait len sizeLeft block r w)
            else Some (-1, block, r, w))"

definition waitForReadable :: "'w sock_io \<Rightarrow> fd \<Rightarrow> int \<Rightarrow> 'w \<Rightarrow> (bool \<times> 'w) option" where
  "waitForReadable io fd msTimeout w =
     map_option (\<lambda>(nfds, w). (nfds = Inr 1, w)) (poll_retry (s_poll io fd POLLIN msTimeout) w)"

definition receiveComplete ::
  "'w sock_io \<Rightarrow> fd \<Rightarrow> BufferedReader \<Rightarrow> 'w \<Rightarrow> bytes \<Rightarrow> nat \<Rightarrow> int \<Rightarrow> (int \<times> bytes \<times> BufferedReader \<times> 'w) option" where
  "receiveComplete io fd reader w pBlock len msTimeout =
     receive_loop (recv (s_readv io fd)) (\<lambda>e. e = EWOULDBLOCK \<or> e = EAGAIN) (waitForReadable io fd msTimeout)
       len len pBlock reader w"

section \<open>What the kernel promises\<close>

text \<open>
  \<open>sent\<close> are the bytes handed to the peer of the socket so far, \<open>upcoming\<close> the bytes still to be read
  from it; \<open>patience\<close> bounds the number of calls that fail for the time being.
\<close>

definition transient :: "errno \<Rightarrow> bool" where
  "transient e \<longleftrightarrow> e = EINTR \<or> e = EAGAIN"

locale wire =
  fixes io :: "'w sock_io" and fd :: fd and sent upcoming :: "'w \<Rightarrow> bytes" and patience :: "'w \<Rightarrow> nat"
  assumes send_ok: "s_send io fd d fl w = (Inr n, w') \<Longrightarrow>
      n \<le> length d \<and> sent w' = sent w @ take n d \<and> patience w' \<le> patience w"
    and send_error: "s_send io fd d fl w = (Inl e, w') \<Longrightarrow>
      sent w' = sent w \<and> patience w' \<le> patience w \<and> (transient e \<longrightarrow> patience w' < patience w)"
    and sendmsg_ok: "s_sendmsg io fd bs fl w = (Inr n, w') \<Longrightarrow>
      n \<le> length (concat bs) \<and> sent w' = sent w @ take n (concat bs) \<and> patience w' \<le> patience w"
    and sendmsg_error: "s_sendmsg io fd bs fl w = (Inl e, w') \<Longrightarrow>
      sent w' = sent w \<and> patience w' \<le> patience w \<and> (transient e \<longrightarrow> patience w' < patience w)"
    and readv_ok: "s_readv io fd ls w = (Inr rs, w') \<Longrightarrow>
      upcoming w = rs @ upcoming w' \<and> length rs \<le> sum_list ls \<and> patience w' \<le> patience w"
    and readv_error: "s_readv io fd ls w = (Inl e, w') \<Longrightarrow>
      upcoming w' = upcoming w \<and> patience w' \<le> patience w \<and> (transient e \<longrightarrow> patience w' < patience w)"
    and poll_frame: "s_poll io fd ev t w = (r, w') \<Longrightarrow>
      sent w' = sent w \<and> upcoming w' = upcoming w \<and> patience w' \<le> patience w \<and>
      (r = Inl EINTR \<longrightarrow> patience w' < patience w)"
begin

lemma poll_retry_returns:
  "\<exists>r w'. poll_retry (s_poll io fd ev t) w = Some (r, w') \<and> sent w' = sent w \<and> upcoming w' = upcoming w \<and>
     patience w' \<le> patience w"
proof (induction "patience w" arbitrary: w rule: less_induct)
  case less
  obtain r w1 where p: "s_poll io fd ev t w = (r, w1)" by fastforce
  show ?case
  proof (cases "r = Inl EINTR")
    case True
    with poll_frame [OF p] less [of w1] p show ?thesis
      by (subst poll_retry.simps) (auto intro: le_trans)
  next
    case False
    with poll_frame [OF p] p show ?thesis by (subst poll_retry.simps) auto
  qed
qed

lemma sendBlock_loop_sent:
  "\<exists>r w'. sendBlock_loop io fd fl len d w = Some (r, w') \<and>
     (r = int len \<and> sent w' = sent w @ d \<or> r = -1 \<and> (\<exists>k<length d. sent w' = sent w @ take k d))"
proof (induction "(length d, patience w)" arbitrary: d w rule: wf_induct_rule [OF wf_lex_prod [OF wf_less wf_less]])
  case (1 d w)
  show ?case
  proof (cases "d = []")
    case True
    then show ?thesis by (subst sendBlock_loop.simps) simp
  next
    case False
    then have pos_len: "0 < length d" by simp
    obtain res w1 where s: "s_send io fd d fl w = (res, w1)" by fastforce
    show ?thesis
    proof (cases res)
      case (Inr n)
      note ok = send_ok [OF s [unfolded Inr]]
      show ?thesis
      proof (cases "n = 0")
        case True
        with False s Inr ok pos_len show ?thesis by (subst sendBlock_loop.simps) (auto intro!: exI [of _ 0])
      next
        case pos: False
        obtain r w' where r: "sendBlock_loop io fd fl len (drop n d) w1 = Some (r, w')"
          "r = int len \<and> sent w' = sent w1 @ drop n d \<or>
           r = -1 \<and> (\<exists>k<length (drop n d). sent w' = sent w1 @ take k (drop n d))"
          using 1 [of "drop n d" w1] pos pos_len by (auto simp: in_lex_prod)
        have "sent w1 @ take k (drop n d) = sent w @ take (n + k) d" for k
          using ok by (simp add: take_add)
        then have "r = int len \<and> sent w' = sent w @ d \<or> r = -1 \<and> (\<exists>k<length d. sent w' = sent w @ take k d)"
          using r(2) ok by (auto intro!: exI [of _ "n + _"])
        with r(1) False s Inr pos show ?thesis by (subst sendBlock_loop.simps) simp
      qed
    next
      case (Inl e)
      note er = send_error [OF s [unfolded Inl]]
      have stop: "\<exists>k<length d. sent w1 = sent w @ take k d" using er pos_len by (auto intro!: exI [of _ 0])
      show ?thesis
      proof (cases "e = EAGAIN")
        case True
        obtain p w2 where p: "waitForWritable io fd (-1) w1 = Some (p, w2)" "sent w2 = sent w1" "patience w2 \<le> patience w1"
          using poll_retry_returns [of POLLOUT "-1" w1] by (auto simp: waitForWritable_def)
        have "patience w2 < patience w" using er True p(3) by (simp add: transient_def)
        then show ?thesis using 1 [of d w2] False s Inl True p stop er
          by (subst sendBlock_loop.simps) (auto simp: in_lex_prod)
      next
        case no: False
        show ?thesis
        proof (cases "e = EINTR")
          case True
          then show ?thesis using 1 [of d w1] False s Inl er no
            by (subst sendBlock_loop.simps) (auto simp: in_lex_prod transient_def)
        next
          case False
          with \<open>d \<noteq> []\<close> s Inl no stop show ?thesis by (subst sendBlock_loop.simps) simp
        qed
      qed
    qed
  qed
qed

lemma skip_blocks_rest:
  "n < length (concat bs) \<Longrightarrow>
   \<exists>s r. skip_blocks n bs = Some (s, r) \<and> concat r = drop n (concat bs) \<and> length s + length r = length bs"
proof (induction bs arbitrary: n)
  case (Cons b bs)
  show ?case
  proof (cases "length b \<le> n")
    case True
    with Cons.prems have "n - length b < length (concat bs)" by simp
    from Cons.IH [OF this] True show ?thesis by auto
  qed simp
qed simp

lemma sendBlocks_loop_sent:
  "remaining = length (concat blocks) \<Longrightarrow>
   \<exists>r arr w'. sendBlocks_loop io fd fl tot remaining before blocks w = Some (Some r, arr, w') \<and>
     (r = int tot \<and> sent w' = sent w @ concat blocks \<or>
      (r = 0 \<or> r = -1) \<and> (\<exists>k. sent w' = sent w @ take k (concat blocks) \<and>
        (k < length (concat blocks) \<or> concat blocks = [])))"
proof (induction "(length (concat blocks), patience w)" arbitrary: blocks before remaining w
    rule: wf_induct_rule [OF wf_lex_prod [OF wf_less wf_less]])
  case (1 blocks w)
  note IH = "1"(1) [rotated]
  let ?d = "concat blocks"
  obtain res w1 where s: "s_sendmsg io fd blocks fl w = (res, w1)" by fastforce
  \<comment> \<open>the rest of a turn, after a call that has taken \<open>n\<close> bytes\<close>
  have turn: ?case
    if n: "n \<le> length ?d" "sent w1 = sent w @ take n ?d" "n < length ?d \<longrightarrow> 0 < n \<or> patience w1 < patience w"
      "patience w1 \<le> patience w"
      and res: "res = Inr n \<and> 0 < n \<or> (\<exists>e. res = Inl e \<and> transient e \<and> n = 0)" for n
  proof (cases "n = length ?d")
    case True
    with s res n "1.prems" show ?thesis by (subst sendBlocks_loop.simps) (auto simp: transient_def)
  next
    case False
    with n(1) have lt: "n < length ?d" by simp
    then obtain sk rest where sk: "skip_blocks n blocks = Some (sk, rest)" "concat rest = drop n ?d"
      using skip_blocks_rest by blast
    obtain p w2 where p: "waitForWritable io fd (-1) w1 = Some (p, w2)" "sent w2 = sent w1" "patience w2 \<le> patience w1"
      using poll_retry_returns [of POLLOUT "-1" w1] by (auto simp: waitForWritable_def)
    have left: "remaining - n \<noteq> 0" "remaining - n = length (concat rest)" using "1.prems" lt sk(2) by simp_all
    have unf: "sendBlocks_loop io fd fl tot remaining before blocks w =
        (if p = Inr 1 then sendBlocks_loop io fd fl tot (remaining - n) (before @ sk) rest w2
         else Some (Some (-1), before @ sk @ rest, w2))"
      using res
    proof (elim disjE exE conjE)
      assume r: "res = Inr n" "0 < n"
      show ?thesis by (subst sendBlocks_loop.simps) (use s r left(1) p(1) sk(1) in \<open>simp add: Let_def\<close>)
    next
      fix e assume r: "res = Inl e" "transient e" "n = 0"
      then show ?thesis
        by (subst sendBlocks_loop.simps) (use s left(1) p(1) sk(1) in \<open>auto simp: Let_def transient_def\<close>)
    qed
    show ?thesis
    proof (cases "p = Inr 1")
      case True
      have "length (concat rest) < length ?d \<or> length (concat rest) = length ?d \<and> patience w2 < patience w"
        using n(3,4) lt sk(2) p(3) by auto
      then obtain r arr w' where r: "sendBlocks_loop io fd fl tot (remaining - n) (before @ sk) rest w2 = Some (Some r, arr, w')"
        "r = int tot \<and> sent w' = sent w2 @ concat rest \<or>
         (r = 0 \<or> r = -1) \<and> (\<exists>k. sent w' = sent w2 @ take k (concat rest) \<and> (k < length (concat rest) \<or> concat rest = []))"
        using IH [OF left(2), of w2 "before @ sk"] unfolding in_lex_prod by auto
      have "sent w2 @ take k (concat rest) = sent w @ take (n + k) ?d" for k
        using n(2) p(2) sk(2) by (simp add: take_add)
      moreover have "concat rest \<noteq> []" using lt sk(2) by simp
      ultimately have "r = int tot \<and> sent w' = sent w @ ?d \<or>
         (r = 0 \<or> r = -1) \<and> (\<exists>k. sent w' = sent w @ take k ?d \<and> (k < length ?d \<or> ?d = []))"
        using r(2) n(2) p(2) sk(2) by (auto intro!: exI [of _ "n + _"])
      with r(1) unf True show ?thesis by simp
    next
      case False
      with unf p(2) n(2) lt show ?thesis by auto
    qed
  qed
  show ?case
  proof (cases res)
    case (Inr n)
    note ok = sendmsg_ok [OF s [unfolded Inr]]
    show ?thesis
    proof (cases "n = 0")
      case True
      with s Inr ok show ?thesis by (subst sendBlocks_loop.simps) (auto intro!: exI [of _ 0])
    next
      case False
      with turn [of n] ok Inr show ?thesis by simp
    qed
  next
    case (Inl e)
    note er = sendmsg_error [OF s [unfolded Inl]]
    show ?thesis
    proof (cases "transient e")
      case True
      with turn [of 0] er Inl show ?thesis by simp
    next
      case False
      with s Inl er show ?thesis by (subst sendBlocks_loop.simps) (auto simp: transient_def intro!: exI [of _ 0])
    qed
  qed
qed

end

section \<open>Receiving\<close>

locale blocking_recv = stream_recv rd ok fine rest
  for rd :: "'r \<Rightarrow> 'w \<Rightarrow> bytes \<Rightarrow> nat \<Rightarrow> ('e + nat) \<times> bytes \<times> 'r \<times> 'w" and ok fine rest +
  fixes again :: "'e \<Rightarrow> bool" and wait :: "'w \<Rightarrow> (bool \<times> 'w) option" and calm :: "'w \<Rightarrow> nat"
  assumes wait_frame: "\<exists>b w'. wait w = Some (b, w') \<and> rest r w' = rest r w \<and> calm w' \<le> calm w"
    and recv_calm: "rd r w buf n = (res, buf', r', w') \<Longrightarrow>
      calm w' \<le> calm w \<and> (\<forall>e. res = Inl e \<longrightarrow> again e \<longrightarrow> calm w' < calm w)"

lemma copy_to_part: "off \<le> length block \<Longrightarrow> take off block @ copy_to 0 bs (drop off block) = copy_to off bs block"
  by (simp add: copy_to_def add.commute)

lemma copy_to_append:
  "off + length bs \<le> length block \<Longrightarrow>
   copy_to (off + length bs) cs (copy_to off bs block) = copy_to off (bs @ cs) block"
  by (simp add: copy_to_def ac_simps)

lemma length_copy_to: "off + length bs \<le> length block \<Longrightarrow> length (copy_to off bs block) = length block"
  by (simp add: copy_to_def)

context blocking_recv
begin

lemma receive_loop_bytes:
  "ok r \<Longrightarrow> fine r n \<Longrightarrow> n \<le> len \<Longrightarrow> len \<le> length block \<Longrightarrow>
   \<exists>ret block' r' w' bs. receive_loop rd again wait len n block r w = Some (ret, block', r', w') \<and>
     ok r' \<and> rest r w = bs @ rest r' w' \<and> block' = copy_to (len - n) bs block \<and> length bs \<le> n \<and>
     (ret = int (len - n + length bs) \<or> ret = -1 \<and> length bs < n)"
proof (induction "(n, calm w)" arbitrary: n block r w
    rule: wf_induct_rule [OF wf_lex_prod [OF wf_less wf_less]])
  case (1 n w)
  note IH = "1"(1) [unfolded in_lex_prod, rotated]
  show ?case
  proof (cases "n = 0")
    case True
    then show ?thesis using 1 by (subst receive_loop.simps) (auto intro!: exI [of _ "[]"])
  next
    case False
    let ?off = "len - n"
    have off: "?off \<le> length block" "n \<le> length (drop ?off block)" using 1 by simp_all
    obtain res part r1 w1 where rd: "rd r w (drop ?off block) n = (res, part, r1, w1)"
      by (metis prod_cases4)
    note calm = recv_calm [OF rd]
    show ?thesis
    proof (cases res)
      case (Inr k)
      from recv_bytes [OF "1"(2,3) off(2) rd [unfolded Inr]] obtain bs where
        k: "k \<le> n" "ok r1" "fine r1 (n - k)" "length bs = k" "part = copy_to 0 bs (drop ?off block)"
        "rest r w = bs @ rest r1 w1" by blast
      let ?block = "copy_to ?off bs block"
      have block: "take ?off block @ part = ?block" "len \<le> length ?block"
        using off(1) k(1,4) "1"(4,5) by (simp_all add: k(5) copy_to_part length_copy_to)
      show ?thesis
      proof (cases "k = 0")
        case True
        then show ?thesis using False rd Inr k block(1)
          by (subst receive_loop.simps) (auto intro!: exI [of _ "[]"])
      next
        case pos: False
        then have less: "n - k < n" using False by simp
        obtain ret block' r' w' cs where r: "receive_loop rd again wait len (n - k) ?block r1 w1 = Some (ret, block', r', w')"
          "ok r'" "rest r1 w1 = cs @ rest r' w'" "block' = copy_to (len - (n - k)) cs ?block" "length cs \<le> n - k"
          "ret = int (len - (n - k) + length cs) \<or> ret = -1 \<and> length cs < n - k"
          using IH [of r1 "n - k" ?block w1] less k(2,3) "1"(4) block(2) by auto
        have unf: "receive_loop rd again wait len n block r w = receive_loop rd again wait len (n - k) ?block r1 w1"
          by (subst receive_loop.simps) (simp add: False rd Inr pos block(1) Let_def)
        have at: "len - (n - k) = ?off + length bs" "?off + length bs \<le> length block"
          using "1"(4,5) k(1,4) by simp_all
        have "block' = copy_to ?off (bs @ cs) block" unfolding r(4) at(1) by (rule copy_to_append [OF at(2)])
        moreover have "rest r w = (bs @ cs) @ rest r' w'" using k(6) r(3) by simp
        moreover have "length (bs @ cs) \<le> n" using r(5) k(1,4) by simp
        moreover have "ret = int (?off + length (bs @ cs)) \<or> ret = -1 \<and> length (bs @ cs) < n"
          using r(6) k(1,4) unfolding at(1) by auto
        ultimately show ?thesis unfolding unf using r(1,2) by blast
      qed
    next
      case (Inl e)
      from recv_error [OF "1"(2,3) off(2) rd [unfolded Inl]] have
        e: "ok r1" "fine r1 n" "part = drop ?off block" "rest r1 w1 = rest r w" by auto
      have block: "take ?off block @ part = block" by (simp add: e(3))
      show ?thesis
      proof (cases "again e")
        case True
        obtain b w2 where b: "wait w1 = Some (b, w2)" "rest r1 w2 = rest r1 w1" "calm w2 \<le> calm w1"
          using wait_frame by blast
        show ?thesis
        proof (cases b)
          case True
          have "calm w2 < calm w" using calm b(3) Inl \<open>again e\<close> by auto
          then show ?thesis using IH [of r1 n block w2] e "1"(4,5) False rd Inl \<open>again e\<close> b True block
            by (subst receive_loop.simps) auto
        next
          case no: False
          then show ?thesis using e False rd Inl \<open>again e\<close> b block
            by (subst receive_loop.simps) (auto intro!: exI [of _ "[]"])
        qed
      next
        case no: False
        then show ?thesis using e False rd Inl block
          by (subst receive_loop.simps) (auto intro!: exI [of _ "[]"])
      qed
    qed
  qed
qed

end

sublocale wire \<subseteq> source: byte_source "s_readv io fd" upcoming
  by unfold_locales (simp_all add: readv_ok readv_error)

context wire
begin

lemma waitForReadable_frame:
  "\<exists>b w'. waitForReadable io fd t w = Some (b, w') \<and> sent w' = sent w \<and> upcoming w' = upcoming w \<and>
     patience w' \<le> patience w"
  using poll_retry_returns [of POLLIN t w] by (auto simp: waitForReadable_def)

lemma recv_patience:
  "recv (s_readv io fd) r w buf n = (res, buf', r', w') \<Longrightarrow>
   patience w' \<le> patience w \<and> (\<forall>e. res = Inl e \<longrightarrow> transient e \<longrightarrow> patience w' < patience w)"
  using readv_ok readv_error
  by (fastforce simp: recv_def Let_def split: if_splits prod.splits sum.splits)

lemma receive_contract:
  "blocking_recv (recv (s_readv io fd)) reader_ok (\<lambda>r n. left r = [] \<or> n \<le> length (left r))
     (\<lambda>r w. left r @ upcoming w) (\<lambda>e. e = EWOULDBLOCK \<or> e = EAGAIN) (waitForReadable io fd t) patience"
  using waitForReadable_frame [of t] recv_patience
  by (intro blocking_recv.intro source.linux_contract blocking_recv_axioms.intro)
     (fastforce simp: transient_def)+

lemma sendBlock_sent:
  "\<exists>r w'. sendBlock io fd d m w = Some (r, w') \<and>
     (r = int (length d) \<and> sent w' = sent w @ d \<or> r = -1 \<and> (\<exists>k<length d. sent w' = sent w @ take k d))"
  unfolding sendBlock_def Let_def by (rule sendBlock_loop_sent)

lemma sendBlocks_sent:
  "\<exists>r arr w'. sendBlocks io fd blocks m w = Some (Some r, arr, w') \<and>
     (r = int (length (concat blocks)) \<and> sent w' = sent w @ concat blocks \<or>
      (r = 0 \<or> r = -1) \<and> (\<exists>k. sent w' = sent w @ take k (concat blocks) \<and>
        (k < length (concat blocks) \<or> concat blocks = [])))"
  unfolding sendBlocks_def Let_def using sendBlocks_loop_sent [OF refl]
  by (simp add: length_concat [symmetric])

lemma receiveComplete_bytes:
  assumes "reader_ok r" "left r = [] \<or> n \<le> length (left r)" "n \<le> length buf"
  shows "\<exists>ret buf' r' w' bs. receiveComplete io fd r w buf n t = Some (ret, buf', r', w') \<and>
    left r @ upcoming w = bs @ left r' @ upcoming w' \<and> buf' = bs @ drop (length bs) buf \<and> length bs \<le> n \<and>
    (ret = int (length bs) \<or> ret = -1 \<and> length bs < n)"
  using blocking_recv.receive_loop_bytes [OF receive_contract, of r n n buf t w] assms
  unfolding receiveComplete_def by (simp add: copy_to_0) blast

end

section \<open>A wire that computes\<close>

text \<open>
  The calls follow a script: an error, or how many bytes a call takes or gives at most, or what
  \<open>poll\<close> returns. After the script everything is taken at once.
\<close>

record wire_world =
  t_sent :: bytes
  t_upcoming :: bytes
  t_script :: "(errno + nat) list"

definition wire_step :: "wire_world \<Rightarrow> nat \<Rightarrow> (errno + nat) \<times> wire_world" where
  "wire_step w n = (case t_script w of
     [] \<Rightarrow> (Inr n, w)
   | Inl e # s \<Rightarrow> (Inl e, w\<lparr>t_script := s\<rparr>)
   | Inr k # s \<Rightarrow> (Inr (min k n), w\<lparr>t_script := s\<rparr>))"

definition wire_put :: "bytes \<Rightarrow> wire_world \<Rightarrow> nat sysres \<times> wire_world" where
  "wire_put d w = (case wire_step w (length d) of
     (Inl e, w) \<Rightarrow> (Inl e, w)
   | (Inr n, w) \<Rightarrow> (Inr n, w\<lparr>t_sent := t_sent w @ take n d\<rparr>))"

definition wire_get :: "nat list \<Rightarrow> wire_world \<Rightarrow> bytes sysres \<times> wire_world" where
  "wire_get ls w = (case wire_step w (sum_list ls) of
     (Inl e, w) \<Rightarrow> (Inl e, w)
   | (Inr n, w) \<Rightarrow> (Inr (take n (t_upcoming w)), w\<lparr>t_upcoming := drop n (t_upcoming w)\<rparr>))"

definition wire_io :: "wire_world sock_io" where
  "wire_io = \<lparr>s_send = (\<lambda>fd d fl. wire_put d), s_sendmsg = (\<lambda>fd bs fl. wire_put (concat bs)),
     s_readv = (\<lambda>fd. wire_get), s_poll = (\<lambda>fd ev t w. wire_step w 1)\<rparr>"

lemma wire_io_calls [kernel_calls]:
  "s_send wire_io fd d fl = wire_put d" "s_sendmsg wire_io fd bs fl = wire_put (concat bs)"
  "s_readv wire_io fd = wire_get" "s_poll wire_io fd ev t w = wire_step w 1"
  by (simp_all add: wire_io_def)

lemma wire_step_cases:
  "wire_step w n = (res, w') \<Longrightarrow> t_sent w' = t_sent w \<and> t_upcoming w' = t_upcoming w \<and>
     length (t_script w') \<le> length (t_script w) \<and>
     (case res of Inr k \<Rightarrow> k \<le> n | Inl e \<Rightarrow> length (t_script w') < length (t_script w))"
  by (auto simp: wire_step_def split: list.splits sum.splits)

lemma wire_put_cases:
  assumes "wire_put d w = (res, w')"
  shows "length (t_script w') \<le> length (t_script w) \<and>
    (case res of
       Inr k \<Rightarrow> k \<le> length d \<and> t_sent w' = t_sent w @ take k d
     | Inl e \<Rightarrow> t_sent w' = t_sent w \<and> length (t_script w') < length (t_script w))"
proof -
  obtain r w1 where st: "wire_step w (length d) = (r, w1)" by fastforce
  from assms wire_step_cases [OF st] show ?thesis by (cases r) (auto simp: wire_put_def st)
qed

lemma wire_get_cases:
  assumes "wire_get ls w = (res, w')"
  shows "length (t_script w') \<le> length (t_script w) \<and>
    (case res of
       Inr bs \<Rightarrow> t_upcoming w = bs @ t_upcoming w' \<and> length bs \<le> sum_list ls
     | Inl e \<Rightarrow> t_upcoming w' = t_upcoming w \<and> length (t_script w') < length (t_script w))"
proof -
  obtain r w1 where st: "wire_step w (sum_list ls) = (r, w1)" by fastforce
  from assms wire_step_cases [OF st] show ?thesis by (cases r) (auto simp: wire_get_def st)
qed

interpretation scripted_wire: wire wire_io fd t_sent t_upcoming "\<lambda>w. length (t_script w)"
  by (unfold_locales; (simp only: kernel_calls)?;
      (drule wire_put_cases wire_get_cases wire_step_cases)?) (auto split: sum.splits)

interpretation scripted_receiving: blocking_recv "recv (s_readv wire_io fd)" reader_ok
    "\<lambda>r n. left r = [] \<or> n \<le> length (left r)" "\<lambda>r w. left r @ t_upcoming w" "\<lambda>e. e = EWOULDBLOCK \<or> e = EAGAIN"
    "waitForReadable wire_io fd t" "\<lambda>w. length (t_script w)"
  by (rule scripted_wire.receive_contract)

section \<open>Properties\<close>

text \<open>
  C12: \<open>sendBlock\<close> returns, however often the kernel takes a part only, refuses or is interrupted. It
  returns the length when the block has reached the wire completely, once and in order; otherwise
  it returns -1, and a proper prefix of the block has reached the wire.
\<close>

theorem sendBlock_delivers:
  assumes "wire io fd sent upcoming patience"
  shows "\<exists>r w'. sendBlock io fd d m w = Some (r, w') \<and>
    (r = int (length d) \<and> sent w' = sent w @ d \<or> r = -1 \<and> (\<exists>k<length d. sent w' = sent w @ take k d))"
  by (rule wire.sendBlock_sent [OF assms])

theorem sendBlock_delivers_witness:
  "\<exists>r w'. sendBlock wire_io 3 [1, 2, 3] True \<lparr>t_sent = [9], t_upcoming = [], t_script = [Inl EINTR, Inr 2, Inl EAGAIN]\<rparr> =
      Some (r, w') \<and> (r = 3 \<and> t_sent w' = [9, 1, 2, 3] \<or> r = -1)"
  using sendBlock_delivers [OF scripted_wire.wire_axioms, of 3 "[1, 2, 3]" True
      "\<lparr>t_sent = [9], t_upcoming = [], t_script = [Inl EINTR, Inr 2, Inl EAGAIN]\<rparr>"] by auto

text \<open>
  \<open>sendBlocks\<close> returns and never runs past the end of the array. When it returns the length of all
  blocks, their bytes have reached the wire, one block after the other; otherwise it returns 0 or
  -1, and a proper prefix of these bytes has reached the wire, unless there was nothing to send.
\<close>

theorem sendBlocks_delivers:
  assumes "wire io fd sent upcoming patience"
  shows "\<exists>r arr w'. sendBlocks io fd blocks m w = Some (Some r, arr, w') \<and>
     (r = int (length (concat blocks)) \<and> sent w' = sent w @ concat blocks \<or>
      (r = 0 \<or> r = -1) \<and> (\<exists>k. sent w' = sent w @ take k (concat blocks) \<and>
        (k < length (concat blocks) \<or> concat blocks = [])))"
  by (rule wire.sendBlocks_sent [OF assms])

theorem sendBlocks_delivers_witness:
  "\<exists>r arr w'. sendBlocks wire_io 3 [[1, 2], [], [3]] False \<lparr>t_sent = [], t_upcoming = [], t_script = [Inr 1]\<rparr> =
      Some (Some r, arr, w') \<and> (r = 3 \<and> t_sent w' = [1, 2, 3] \<or> r = 0 \<or> r = -1)"
  using sendBlocks_delivers [OF scripted_wire.wire_axioms, of 3 "[[1, 2], [], [3]]" False
      "\<lparr>t_sent = [], t_upcoming = [], t_script = [Inr 1]\<rparr>"] by auto



end
