(* ===== verification/Socket_Object.thy ===== *)
theory Socket_Object
  imports Std_String Event_Loop_Props Socket_Io
begin

text \<open>
  The object \<open>hbk::communication::SocketNonblocking\<close> under Linux
  (\<^verbatim>\<open>lib/communication/linux/socketnonblocking.cpp\<close>) without its sending and receiving, which
  \<^theory_text>\<open>Socket_Io\<close> models: the descriptor, the two callbacks and their registration with the event loop,
  the options, connecting and disconnecting. The state of an operation is the object together with
  the event loop, whose \<open>world\<close> the system calls change. An operation can throw, since registering a
  callback calls it; \<^term>\<open>None\<close> is a callback that never comes to an end.
\<close>

section \<open>State and system calls\<close>

record 'cb Socket =
  m_event :: fd
  m_inDataHandler :: "'cb option"
  m_outDataHandler :: "'cb option"

type_synonym ('cb, 'h, 'w) socket_state = "'cb Socket \<times> ('h, 'w) loop"

datatype sockopt =
  TCP_NODELAY | TCP_KEEPIDLE | TCP_KEEPINTVL | TCP_KEEPCNT | SO_KEEPALIVE | SO_REUSEADDR | IP_OPTION nat

datatype domain = AF_UNSPEC | AF_UNIX | AF_INET | AF_INET6 | AF_OTHER nat

text \<open>A socket address as the bytes in memory, and the length given with it\<close>

type_synonym sockaddr = "bytes \<times> nat"

text \<open>What \<open>getaddrinfo\<close> finds first\<close>

record addrinfo =
  ai_family :: domain
  ai_addr :: sockaddr

record 'w net =
  k_socket :: "domain \<Rightarrow> 'w \<Rightarrow> fd sysres \<times> 'w"
  k_nonblock :: "fd \<Rightarrow> 'w \<Rightarrow> bool \<times> 'w"
  k_sockname :: "fd \<Rightarrow> 'w \<Rightarrow> domain sysres \<times> 'w"
  k_setsockopt :: "fd \<Rightarrow> sockopt \<Rightarrow> nat \<Rightarrow> 'w \<Rightarrow> bool \<times> 'w"
  k_connect :: "fd \<Rightarrow> sockaddr \<Rightarrow> 'w \<Rightarrow> unit sysres \<times> 'w"
  k_so_error :: "fd \<Rightarrow> 'w \<Rightarrow> int \<times> 'w"
  k_getaddrinfo :: "string \<Rightarrow> string \<Rightarrow> 'w \<Rightarrow> addrinfo option \<times> 'w"
  k_peername :: "fd \<Rightarrow> nat \<Rightarrow> 'w \<Rightarrow> sockaddr option"
  k_nameinfo :: "sockaddr \<Rightarrow> (string \<times> string) option"
  k_hwaddr :: "fd \<Rightarrow> 'w \<Rightarrow> u16 option"
  k_io :: "'w sock_io"

text \<open>
  The event loop, the calls, and \<open>std::bind(dataCb, std::ref( *this))\<close>, which is a callback of the
  event loop even when \<open>dataCb\<close> is empty.
\<close>

record ('cb, 'h, 'w) socket_env =
  e_loop :: "('h, 'w) loop_env"
  e_net :: "'w net"
  bind_data :: "'cb option \<Rightarrow> 'h"

definition TIMEOUT_CONNECT_S :: int where "TIMEOUT_CONNECT_S = 5"

text \<open>A call on the world of the loop\<close>

definition sys :: "('w \<Rightarrow> 'a \<times> 'w) \<Rightarrow> ('h, 'w) loop \<Rightarrow> 'a \<times> ('h, 'w) loop" where
  "sys f l = (case f (world l) of (a, w) \<Rightarrow> (a, l\<lparr>world := w\<rparr>))"

text \<open>Going on unless there was an exception\<close>

definition and_then ::
  "(outcome \<times> 's) option \<Rightarrow> (int \<Rightarrow> 's \<Rightarrow> (outcome \<times> 's) option) \<Rightarrow> (outcome \<times> 's) option" where
  "and_then m f = Option.bind m (\<lambda>(r, s). case r of Throws \<Rightarrow> Some (Throws, s) | Returns n \<Rightarrow> f n s)"

section \<open>Callbacks\<close>

definition Socket_init :: "'cb Socket" where
  "Socket_init = \<lparr>m_event = -1, m_inDataHandler = None, m_outDataHandler = None\<rparr>"

definition setDataCb ::
  "('cb, 'h, 'w) socket_env \<Rightarrow> 'cb option \<Rightarrow> ('cb, 'h, 'w) socket_state \<Rightarrow> (outcome \<times> ('cb, 'h, 'w) socket_state) option" where
  "setDataCb env dataCb = (\<lambda>(s, l).
     let s = s\<lparr>m_inDataHandler := dataCb\<rparr> in
     map_option (\<lambda>(r, l). (r, s, l)) (addEvent (e_loop env) (m_event s) (Some (bind_data env dataCb)) l))"

definition clearDataCb ::
  "('cb, 'h, 'w) socket_env \<Rightarrow> ('cb, 'h, 'w) socket_state \<Rightarrow> ('cb, 'h, 'w) socket_state" where
  "clearDataCb env = (\<lambda>(s, l).
     let s = s\<lparr>m_inDataHandler := None\<rparr> in (s, snd (eraseEvent (e_loop env) (m_event s) l)))"

definition setOutDataCb ::
  "('cb, 'h, 'w) socket_env \<Rightarrow> 'cb option \<Rightarrow> ('cb, 'h, 'w) socket_state \<Rightarrow> (outcome \<times> ('cb, 'h, 'w) socket_state) option" where
  "setOutDataCb env dataCb = (\<lambda>(s, l).
     let s = s\<lparr>m_outDataHandler := dataCb\<rparr> in
     map_option (\<lambda>(r, l). (r, s, l)) (addOutEvent (e_loop env) (m_event s) (Some (bind_data env dataCb)) l))"

text \<open>The code clears the callback for input here.\<close>

definition clearOutDataCb ::
  "('cb, 'h, 'w) socket_env \<Rightarrow> ('cb, 'h, 'w) socket_state \<Rightarrow> ('cb, 'h, 'w) socket_state" where
  "clearOutDataCb env = (\<lambda>(s, l).
     let s = s\<lparr>m_inDataHandler := None\<rparr> in (s, snd (eraseOutEvent (e_loop env) (m_event s) l)))"

section \<open>Options\<close>

text \<open>One option after the other, up to the first that fails\<close>

fun set_options :: "'w net \<Rightarrow> fd \<Rightarrow> (sockopt \<times> nat) list \<Rightarrow> 'w \<Rightarrow> bool \<times> 'w" where
  "set_options net fd [] w = (True, w)"
| "set_options net fd ((opt, v) # opts) w =
     (case k_setsockopt net fd opt v w of (ok, w) \<Rightarrow> if ok then set_options net fd opts w else (False, w))"

definition ip_options :: "(sockopt \<times> nat) list" where
  "ip_options = [(TCP_NODELAY, 1), (TCP_KEEPIDLE, 12), (TCP_KEEPINTVL, 3), (TCP_KEEPCNT, 2)]"

definition setSocketOptions :: "'w net \<Rightarrow> fd \<Rightarrow> 'w \<Rightarrow> int \<times> 'w" where
  "setSocketOptions net fd w =
     (case k_sockname net fd w of (res, w) \<Rightarrow>
      case res of
        Inl e \<Rightarrow> (-1, w)
      | Inr ss_family \<Rightarrow>
          (case set_options net fd
             ((if ss_family = AF_INET \<or> ss_family = AF_INET6 then ip_options else []) @ [(SO_KEEPALIVE, 1)]) w
           of (ok, w) \<Rightarrow> (if ok then 0 else -1, w)))"

text \<open>The constructor for a descriptor that was accepted; \<^term>\<open>Inl\<close> is what it throws.\<close>

definition Socket_accepted :: "'w net \<Rightarrow> fd \<Rightarrow> 'w \<Rightarrow> (std_exn + 'cb Socket) \<times> 'w" where
  "Socket_accepted net fd w =
     (if fd = -1 then (Inl (runtime_error ''not a valid socket''), w)
      else case k_nonblock net fd w of (ok, w) \<Rightarrow>
        if \<not> ok then (Inl (runtime_error ''error setting socket to non-blocking''), w)
        else case setSocketOptions net fd w of (r, w) \<Rightarrow>
          if r < 0 then (Inl (runtime_error ''error setting socket options''), w)
          else (Inr \<lparr>m_event = fd, m_inDataHandler = None, m_outDataHandler = None\<rparr>, w))"

section \<open>Connecting\<close>

definition register_data ::
  "('cb, 'h, 'w) socket_env \<Rightarrow> ('cb, 'h, 'w) socket_state \<Rightarrow> (outcome \<times> ('cb, 'h, 'w) socket_state) option" where
  "register_data env = (\<lambda>(s, l).
     and_then
       (if m_inDataHandler s = None then Some (Returns 0, (s, l))
        else map_option (\<lambda>(r, l). (r, s, l))
          (addEvent (e_loop env) (m_event s) (Some (bind_data env (m_inDataHandler s))) l))
       (\<lambda>_ (s, l).
         if m_outDataHandler s = None then Some (Returns 0, (s, l))
         else map_option (\<lambda>(r, l). (r, s, l))
           (addOutEvent (e_loop env) (m_event s) (Some (bind_data env (m_outDataHandler s))) l)))"

text \<open>The part of \<open>connect\<close> after the registration: options, \<open>::connect\<close>, and the wait for it\<close>

definition establish :: "'w net \<Rightarrow> fd \<Rightarrow> sockaddr \<Rightarrow> 'w \<Rightarrow> (int \<times> 'w) option" where
  "establish net fd addr w =
     (case setSocketOptions net fd w of (r, w) \<Rightarrow>
      if r < 0 then Some (-1, w)
      else case k_connect net fd addr w of (err, w) \<Rightarrow>
        case err of
          Inr _ \<Rightarrow> Some (0, w)
        | Inl e \<Rightarrow>
            if e \<noteq> EINPROGRESS then Some (-1, w)
            else Option.bind (waitForWritable (k_io net) fd (TIMEOUT_CONNECT_S * 1000) w) (\<lambda>(err, w).
              if err \<noteq> Inr 1 then Some (-1, w)
              else case k_so_error net fd w of (v, w) \<Rightarrow> Some (if v \<noteq> 0 then -1 else 0, w)))"

definition connect ::
  "('cb, 'h, 'w) socket_env \<Rightarrow> domain \<Rightarrow> sockaddr \<Rightarrow> ('cb, 'h, 'w) socket_state
    \<Rightarrow> (outcome \<times> ('cb, 'h, 'w) socket_state) option" where
  "connect env domain addr = (\<lambda>(s, l).
     case sys (k_socket (e_net env) domain) l of (res, l) \<Rightarrow>
     case res of
       Inl e \<Rightarrow> Some (Returns (-1), s\<lparr>m_event := -1\<rparr>, l)
     | Inr fd \<Rightarrow> and_then (register_data env (s\<lparr>m_event := fd\<rparr>, l)) (\<lambda>_ (s, l).
         map_option (\<lambda>(r, w). (Returns r, s, l\<lparr>world := w\<rparr>)) (establish (e_net env) (m_event s) addr (world l))))"

definition connect_tcp ::
  "('cb, 'h, 'w) socket_env \<Rightarrow> string \<Rightarrow> string \<Rightarrow> ('cb, 'h, 'w) socket_state
    \<Rightarrow> (outcome \<times> ('cb, 'h, 'w) socket_state) option" where
  "connect_tcp env address port = (\<lambda>(s, l).
     case sys (k_getaddrinfo (e_net env) address port) l of (res, l) \<Rightarrow>
     case res of
       None \<Rightarrow> Some (Returns (-1), s, l)
     | Some pResult \<Rightarrow> connect env (ai_family pResult) (ai_addr pResult) (s, l))"

text \<open>
  The address of a unix domain socket: the family, then the 108 bytes of \<open>sun_path\<close>, which are zero
  where \<open>strncpy\<close> leaves them. The length counts the whole path, whatever was copied.
\<close>

definition strncpy :: "string \<Rightarrow> nat \<Rightarrow> bytes" where
  "strncpy s n = (let bs = take n (map of_char (c_str s)) in bs @ replicate (n - length bs) 0)"

definition sun_path :: "string \<Rightarrow> bool \<Rightarrow> bytes" where
  "sun_path path useAbstractNamespace =
     (if useAbstractNamespace then 0 # strncpy path 106 @ [0] else strncpy path 107 @ [0])"

definition unix_address :: "string \<Rightarrow> bool \<Rightarrow> sockaddr" where
  "unix_address path useAbstractNamespace =
     ([1, 0] @ sun_path path useAbstractNamespace,
      if useAbstractNamespace then 1 + length path + 2 else length path + 2)"

definition connect_unix ::
  "('cb, 'h, 'w) socket_env \<Rightarrow> string \<Rightarrow> bool \<Rightarrow> ('cb, 'h, 'w) socket_state
    \<Rightarrow> (outcome \<times> ('cb, 'h, 'w) socket_state) option" where
  "connect_unix env path useAbstractNamespace = connect env AF_UNIX (unix_address path useAbstractNamespace)"

section \<open>The peer, and disconnecting\<close>

text \<open>The peer's name is fetched into a \<open>struct sockaddr\<close>, which has 16 bytes.\<close>

definition checkSockAddr :: "'w net \<Rightarrow> fd \<Rightarrow> sockaddr \<Rightarrow> 'w \<Rightarrow> bool" where
  "checkSockAddr net fd pCheckSockAddr w =
     (case k_nameinfo net pCheckSockAddr of None \<Rightarrow> False | Some (checkHost, checkService) \<Rightarrow>
      case k_peername net fd 16 w of None \<Rightarrow> False | Some sockAddr \<Rightarrow>
      case k_nameinfo net sockAddr of None \<Rightarrow> False | Some (host, service) \<Rightarrow>
        host = checkHost \<and> service = checkService)"

definition disconnect ::
  "('cb, 'h, 'w) socket_env \<Rightarrow> ('cb, 'h, 'w) socket_state \<Rightarrow> ('cb, 'h, 'w) socket_state" where
  "disconnect env = (\<lambda>(s, l).
     if m_event s \<noteq> -1 then
       (let l = l\<lparr>world := k_close (e_loop env) (m_event s) (world l)\<rparr>;
            l = snd (eraseEvent (e_loop env) (m_event s) l);
            l = snd (eraseOutEvent (e_loop env) (m_event s) l)
        in (s\<lparr>m_event := -1\<rparr>, l))
     else (s\<lparr>m_event := -1\<rparr>, l))"

definition Socket_destroy ::
  "('cb, 'h, 'w) socket_env \<Rightarrow> ('cb, 'h, 'w) socket_state \<Rightarrow> ('h, 'w) loop" where
  "Socket_destroy env s = snd (disconnect env s)"

definition ARPHRD_IEEE1394 :: u16 where "ARPHRD_IEEE1394 = 24"

definition isFirewire :: "'w net \<Rightarrow> fd \<Rightarrow> 'w \<Rightarrow> bool" where
  "isFirewire net fd w = (k_hwaddr net fd w = Some ARPHRD_IEEE1394)"

section \<open>Unix domain addresses\<close>

text \<open>The bytes the kernel looks at\<close>

definition seen :: "sockaddr \<Rightarrow> bytes" where
  "seen a = take (snd a) (fst a)"

lemma strncpy_fits:
  "CHR 0x00 \<notin> set s \<Longrightarrow> length s \<le> n \<Longrightarrow> strncpy s n = map of_char s @ replicate (n - length s) 0"
  by (simp add: strncpy_def c_str_id Let_def)

lemma of_char_u8: "(of_char c :: u8) = of_char d \<longleftrightarrow> c = d"
proof
  assume "(of_char c :: u8) = of_char d"
  then have "(of_nat (of_char c) :: u8) = of_nat (of_char d)" by (simp add: of_nat_of_char)
  then have "take_bit 8 (of_char c :: nat) = take_bit 8 (of_char d)" by (simp add: word_of_nat_eq_iff)
  then show "c = d" by (simp add: take_bit_eq_mod)
qed simp

lemma map_of_char_u8: "map of_char s = (map of_char s' :: bytes) \<longleftrightarrow> s = s'"
proof (induction s arbitrary: s')
  case (Cons c s)
  then show ?case by (cases s') (simp_all add: of_char_u8)
qed auto

text \<open>What the kernel sees of an address that fits\<close>

lemma seen_unix_address:
  assumes "CHR 0x00 \<notin> set path" and "length path \<le> (if abst then 106 else 107)"
  shows "seen (unix_address path abst) = [1, 0] @ (if abst then [0] else []) @ map of_char path"
  using assms by (auto simp: seen_def unix_address_def sun_path_def strncpy_fits)

section \<open>Callbacks of the socket in the event loop\<close>

text \<open>Closing a descriptor can take it out of the interest list, and adds nothing.\<close>

definition closing :: "('h, 'w) loop_env \<Rightarrow> (fd \<Rightarrow> 'w \<Rightarrow> fd \<rightharpoonup> epoll_event) \<Rightarrow> bool" where
  "closing env interest \<longleftrightarrow> (\<forall>ep fd w. interest ep (k_close env fd w) \<subseteq>\<^sub>m interest ep w)"

lemma handlers_world [simp]:
  "handler_in (l\<lparr>world := w\<rparr>) = handler_in l" "handler_out (l\<lparr>world := w\<rparr>) = handler_out l"
  by (simp_all add: fun_eq_iff handler_in_def handler_out_def node_def split: option.splits)

text \<open>Registering callbacks that have nothing to do yet\<close>

lemma addEvent_quiet:
  assumes "fd \<noteq> -1" "\<And>l. run env h l = (Returns 0, l)"
  shows "addEvent env fd (Some h) l = Some (Returns (if fst (register_in env fd h l) then 0 else -1), snd (register_in env fd h l))"
    and "addOutEvent env fd (Some h) l = Some (Returns (if fst (register_out env fd h l) then 0 else -1), snd (register_out env fd h l))"
  using assms by (simp_all add: addEvent_def addOutEvent_def call_until.simps split: prod.splits)

context epoll
begin

lemma close_inv:
  fixes l :: "('h, 'w) loop"
  assumes "closing env interest" "loop_inv interest l"
  shows "loop_inv interest (l\<lparr>world := k_close env fd (world l)\<rparr>)"
  using api_steps_inv [OF api_outside [OF api_refl] assms(2)] assms(1) by (simp add: closing_def)

text \<open>Closing a descriptor and erasing it on both sides\<close>

lemma close_erase:
  fixes l :: "('h, 'w) loop"
  assumes "closing env interest" "loop_inv interest l"
    and "l' = snd (eraseOutEvent env fd (snd (eraseEvent env fd (l\<lparr>world := k_close env fd (world l)\<rparr>))))"
  shows "loop_inv interest l' \<and> handler_in l' = (handler_in l)(fd := None) \<and> handler_out l' = (handler_out l)(fd := None)"
proof -
  let ?l0 = "l\<lparr>world := k_close env fd (world l)\<rparr>"
  obtain r1 l1 where 1: "eraseEvent env fd ?l0 = (r1, l1)" by fastforce
  obtain r2 l2 where 2: "eraseOutEvent env fd l1 = (r2, l2)" by fastforce
  have inv1: "loop_inv interest l1" by (rule eraseEvent_inv [OF close_inv [OF assms(1,2)] 1])
  have "handler_in l1 = (handler_in l)(fd := None)" "handler_out l1 = handler_out l"
    using eraseEvent_handlers [OF close_inv [OF assms(1,2)] 1] by simp_all
  moreover have "handler_out l2 = (handler_out l1)(fd := None)" "handler_in l2 = handler_in l1"
    using eraseOutEvent_handlers [OF inv1 2] by simp_all
  ultimately show ?thesis using eraseOutEvent_inv [OF inv1 2] assms(3) 1 2 by simp
qed

lemma disconnect_closed:
  assumes "closing (e_loop senv) interest" "e_loop senv = env" "loop_inv interest l"
    and "m_event s \<noteq> -1" "disconnect senv (s, l) = (s', l')"
  shows "s' = s\<lparr>m_event := -1\<rparr> \<and> loop_inv interest l' \<and>
    handler_in l' = (handler_in l)(m_event s := None) \<and> handler_out l' = (handler_out l)(m_event s := None)"
  using assms close_erase [OF _ assms(3) refl, of "m_event s"] by (auto simp: disconnect_def Let_def)

text \<open>Connecting, with such callbacks, and a new descriptor\<close>

lemma connect_handlers:
  fixes l :: "('h, 'w) loop" and senv :: "('cb, 'h, 'w) socket_env"
  assumes env: "e_loop senv = env" and inv: "loop_inv interest l"
    and sock: "k_socket (e_net senv) domain (world l) = (Inr fd, w)" "interest (m_epollfd l) w \<subseteq>\<^sub>m interest (m_epollfd l) (world l)"
    and fd: "fd \<noteq> -1"
    and quiet: "\<And>cb l. run env (bind_data senv (Some cb)) l = (Returns 0, l)"
    and con: "connect senv domain addr (s, l) = Some (r, s', l')"
  shows "s' = s\<lparr>m_event := fd\<rparr> \<and>
    handler_in l' = (if m_inDataHandler s = None then handler_in l
      else (handler_in l)(fd \<mapsto> bind_data senv (m_inDataHandler s))) \<and>
    handler_out l' = (if m_outDataHandler s = None then handler_out l
      else (handler_out l)(fd \<mapsto> bind_data senv (m_outDataHandler s)))"
proof -
  let ?l0 = "l\<lparr>world := w\<rparr>"
  have inv0: "loop_inv interest ?l0"
    using api_steps_inv [OF api_outside [OF api_refl, of interest l w] inv] sock(2) by simp
  define l1 where "l1 = (case m_inDataHandler s of None \<Rightarrow> ?l0 | Some cb \<Rightarrow> snd (register_in env fd (bind_data senv (Some cb)) ?l0))"
  define l2 where "l2 = (case m_outDataHandler s of None \<Rightarrow> l1 | Some cb \<Rightarrow> snd (register_out env fd (bind_data senv (Some cb)) l1))"
  have l1: "loop_inv interest l1" "handler_out l1 = handler_out l"
      "handler_in l1 = (if m_inDataHandler s = None then handler_in l
        else (handler_in l)(fd \<mapsto> bind_data senv (m_inDataHandler s)))"
    using inv0 register_in_inv [OF inv0 prod.collapse [symmetric]] register_in_handlers [OF inv0 prod.collapse [symmetric]]
    by (auto simp: l1_def split: option.splits)
  have l2: "handler_in l2 = handler_in l1"
      "handler_out l2 = (if m_outDataHandler s = None then handler_out l1
        else (handler_out l1)(fd \<mapsto> bind_data senv (m_outDataHandler s)))"
    using register_out_handlers [OF l1(1) prod.collapse [symmetric]] by (auto simp: l2_def split: option.splits)
  have reg: "\<exists>n. register_data senv (s\<lparr>m_event := fd\<rparr>, ?l0) = Some (Returns n, s\<lparr>m_event := fd\<rparr>, l2)"
    using fd quiet by (auto simp: register_data_def and_then_def env l1_def l2_def addEvent_quiet split: option.splits)
  then obtain n where "register_data senv (s\<lparr>m_event := fd\<rparr>, ?l0) = Some (Returns n, s\<lparr>m_event := fd\<rparr>, l2)" ..
  with con sock(1) have "s' = s\<lparr>m_event := fd\<rparr> \<and> (\<exists>w'. l' = l2\<lparr>world := w'\<rparr>)"
    by (auto simp: connect_def sys_def and_then_def)
  with l1 l2 show ?thesis by auto
qed

end

section \<open>A network on the scripted event loop\<close>

text \<open>Sockets get the descriptor 7; every call succeeds, and there is one callback, which has nothing to do.\<close>

definition script_net :: "script_world net" where
  "script_net = \<lparr>k_socket = (\<lambda>_ w. (Inr 7, w)), k_nonblock = (\<lambda>_ w. (True, w)), k_sockname = (\<lambda>_ w. (Inr AF_INET6, w)),
     k_setsockopt = (\<lambda>_ _ _ w. (True, w)), k_connect = (\<lambda>_ _ w. (Inr (), w)), k_so_error = (\<lambda>_ w. (0, w)),
     k_getaddrinfo = (\<lambda>_ _ w. (None, w)), k_peername = (\<lambda>_ _ _. None), k_nameinfo = (\<lambda>_. None), k_hwaddr = (\<lambda>_ _. None),
     k_io = \<lparr>s_send = (\<lambda>_ bs _ w. (Inr (length bs), w)), s_sendmsg = (\<lambda>_ bs _ w. (Inr (length (concat bs)), w)),
       s_readv = (\<lambda>_ _ w. (Inr [], w)), s_poll = (\<lambda>_ _ _ w. (Inr 1, w))\<rparr>\<rparr>"

definition script_socket :: "(unit, script, script_world) socket_env" where
  "script_socket = \<lparr>e_loop = script_env, e_net = script_net,
     bind_data = (\<lambda>cb. case cb of None \<Rightarrow> Script [] Throws | Some _ \<Rightarrow> Script [] (Returns 0))\<rparr>"

lemma script_closing: "closing script_env script_interest"
  by (simp add: closing_def script_env_def script_kernel_def)

lemma script_loop_handlers [simp]: "handler_in (script_loop ws) fd = None" "handler_out (script_loop ws) fd = None"
  by (simp_all add: handler_in_def handler_out_def script_loop_def)

lemma script_socket_simps [simp, kernel_calls]:
  "e_loop script_socket = script_env" "k_socket (e_net script_socket) d w = (Inr 7, w)"
  "bind_data script_socket (Some cb) = Script [] (Returns 0)" "bind_data script_socket None = Script [] Throws"
  "script_run (Script [] r) l = (r, l)"
  by (simp_all add: script_socket_def script_net_def script_run_def)

lemma establish_script: "establish script_net fd addr w = Some (0, w)"
  by (simp add: establish_def setSocketOptions_def script_net_def ip_options_def)

lemma connect_script: "\<exists>l'. connect script_socket d a (s, l) = Some (Returns 0, s\<lparr>m_event := 7\<rparr>, l')"
  using establish_script
  by (auto simp: connect_def sys_def register_data_def and_then_def addEvent_quiet script_socket_def script_run_def script_net_def
      split: option.splits)

section \<open>Properties\<close>

text \<open>
  C15: connecting registers exactly the callbacks that were set before, bound to the object, for the
  new descriptor: every other registration stays as it was, whether the connection is made or not.
\<close>

theorem connect_registers:
  assumes "epoll (e_loop env) interest" and "loop_inv interest l"
    and "k_socket (e_net env) domain (world l) = (Inr fd, w)"
    and "interest (m_epollfd l) w \<subseteq>\<^sub>m interest (m_epollfd l) (world l)" and "fd \<noteq> -1"
    and "\<And>cb l. run (e_loop env) (bind_data env (Some cb)) l = (Returns 0, l)"
    and "handler_in l fd = None" and "handler_out l fd = None"
    and "connect env domain addr (s, l) = Some (r, s', l')"
  shows "m_event s' = fd \<and> m_inDataHandler s' = m_inDataHandler s \<and> m_outDataHandler s' = m_outDataHandler s \<and>
    handler_in l' = (handler_in l)(fd := map_option (bind_data env \<circ> Some) (m_inDataHandler s)) \<and>
    handler_out l' = (handler_out l)(fd := map_option (bind_data env \<circ> Some) (m_outDataHandler s))"
  using epoll.connect_handlers [OF assms(1) refl assms(2-6,9)] assms(7,8) by auto

theorem connect_registers_witness:
  "\<exists>s' l'. connect script_socket AF_INET6 ([], 0) (Socket_init\<lparr>m_inDataHandler := Some ()\<rparr>, script_loop []) =
    Some (Returns 0, s', l') \<and> handler_in l' 7 = Some (Script [] (Returns 0)) \<and> handler_out l' 7 = None"
proof -
  let ?s = "Socket_init\<lparr>m_inDataHandler := Some ()\<rparr>"
  obtain l' where c: "connect script_socket AF_INET6 ([], 0) (?s, script_loop []) = Some (Returns 0, ?s\<lparr>m_event := 7\<rparr>, l')"
    using connect_script by blast
  have "epoll (e_loop script_socket) script_interest" using scripted.epoll_axioms by simp
  from connect_registers [OF this script_loop_inv _ _ _ _ _ _ c, of 7 "world (script_loop [])"] c show ?thesis
    by (auto simp: Socket_init_def)
qed

text \<open>
  After \<open>clearOutDataCb\<close> the socket has forgotten its callback for input and kept the one for
  output, so that connecting again registers the callback that was cleared, and not the other one.
\<close>

theorem clearOutDataCb_forgets_input:
  assumes "epoll (e_loop env) interest" and "loop_inv interest l"
    and "m_outDataHandler s = Some d" and "clearOutDataCb env (s, l) = (s1, l1)"
    and "k_socket (e_net env) domain (world l1) = (Inr fd, w)"
    and "interest (m_epollfd l1) w \<subseteq>\<^sub>m interest (m_epollfd l1) (world l1)" and "fd \<noteq> -1"
    and "\<And>cb l. run (e_loop env) (bind_data env (Some cb)) l = (Returns 0, l)"
    and "handler_in l fd = None"
    and "connect env domain addr (s1, l1) = Some (r, s2, l2)"
  shows "handler_in l2 fd = None \<and> handler_out l2 fd = Some (bind_data env (Some d))"
proof -
  obtain n where e: "eraseOutEvent (e_loop env) (m_event s) l = (n, l1)"
    using assms(4) by (cases "eraseOutEvent (e_loop env) (m_event s) l") (auto simp: clearOutDataCb_def Let_def)
  have s1: "s1 = s\<lparr>m_inDataHandler := None\<rparr>" using assms(4) by (auto simp: clearOutDataCb_def Let_def)
  have "handler_in l1 = handler_in l" using epoll.eraseOutEvent_handlers [OF assms(1,2) e] by simp
  with epoll.connect_handlers [OF assms(1) refl epoll.eraseOutEvent_inv [OF assms(1,2) e] assms(5-8,10)] s1 assms(3,9)
  show ?thesis by simp
qed

theorem clearOutDataCb_forgets_input_witness:
  "\<exists>s1 l1 s2 l2. clearOutDataCb script_socket (\<lparr>m_event = 5, m_inDataHandler = Some (), m_outDataHandler = Some ()\<rparr>,
      script_loop []) = (s1, l1) \<and> connect script_socket AF_INET6 ([], 0) (s1, l1) = Some (Returns 0, s2, l2) \<and>
    handler_in l2 7 = None \<and> handler_out l2 7 \<noteq> None"
proof -
  let ?s = "\<lparr>m_event = 5, m_inDataHandler = Some (), m_outDataHandler = Some ()\<rparr>"
  obtain s1 l1 where c: "clearOutDataCb script_socket (?s, script_loop []) = (s1, l1)" by fastforce
  obtain s2 l2 where d: "connect script_socket AF_INET6 ([], 0) (s1, l1) = Some (Returns 0, s2, l2)"
    using connect_script by blast
  have e: "epoll (e_loop script_socket) script_interest" using scripted.epoll_axioms by simp
  have o: "m_outDataHandler ?s = Some ()" by simp
  from clearOutDataCb_forgets_input [OF e script_loop_inv o c _ _ _ _ _ d, of 7 "world l1"] c d show ?thesis by auto
qed

text \<open>
  An empty callback given to \<open>setDataCb\<close> is not taken as a request to leave the event loop: the
  call that registering makes throws, and the event loop keeps a callback that throws.
\<close>

theorem setDataCb_empty_throws:
  assumes "epoll (e_loop env) interest" and "loop_inv interest l" and "m_event s \<noteq> -1"
    and "\<And>l. run (e_loop env) (bind_data env None) l = (Throws, l)"
    and "register_in (e_loop env) (m_event s) (bind_data env None) l = (True, l1)"
  shows "\<exists>s' l'. setDataCb env None (s, l) = Some (Throws, s', l') \<and> m_inDataHandler s' = None \<and>
    handler_in l' (m_event s) = Some (bind_data env None)"
  using assms(3,4,5) epoll.register_in_handlers [OF assms(1,2,5)]
  by (simp add: setDataCb_def addEvent_def call_until.simps)

theorem setDataCb_empty_throws_witness:
  "\<exists>s' l'. setDataCb script_socket None (\<lparr>m_event = 7, m_inDataHandler = Some (), m_outDataHandler = None\<rparr>, script_loop [])
    = Some (Throws, s', l')"
proof -
  let ?s = "\<lparr>m_event = 7, m_inDataHandler = Some (), m_outDataHandler = None\<rparr> :: unit Socket"
  have e: "epoll (e_loop script_socket) script_interest" using scripted.epoll_axioms by simp
  obtain l1 where "register_in (e_loop script_socket) (m_event ?s) (bind_data script_socket None) (script_loop []) = (True, l1)"
    by (simp add: loop_simps script_loop_def script_world0_def Let_def)
  from setDataCb_empty_throws [OF e script_loop_inv _ _ this] show ?thesis by auto
qed

text \<open>
  Disconnecting takes both callbacks of the descriptor out of the event loop and leaves every
  other registration, keeps the invariant of the event loop, and a second \<open>disconnect\<close>, such as the
  destructor's, does nothing: the descriptor is closed once.
\<close>

theorem disconnect_once:
  assumes "epoll (e_loop env) interest" and "closing (e_loop env) interest" and "loop_inv interest l"
    and "m_event s \<noteq> -1" and "disconnect env (s, l) = (s', l')"
  shows "loop_inv interest l' \<and> handler_in l' = (handler_in l)(m_event s := None) \<and>
    handler_out l' = (handler_out l)(m_event s := None) \<and>
    disconnect env (s', l') = (s', l') \<and> Socket_destroy env (s', l') = l'"
  using epoll.disconnect_closed [OF assms(1,2) refl assms(3-5)] by (simp add: disconnect_def Socket_destroy_def)

theorem disconnect_once_witness:
  "\<exists>s' l'. disconnect script_socket (\<lparr>m_event = 5, m_inDataHandler = Some (), m_outDataHandler = None\<rparr>, script_loop []) = (s', l') \<and>
    loop_inv script_interest l' \<and> disconnect script_socket (s', l') = (s', l')"
proof -
  let ?s = "\<lparr>m_event = 5, m_inDataHandler = Some (), m_outDataHandler = None\<rparr> :: unit Socket"
  have e: "epoll (e_loop script_socket) script_interest" "closing (e_loop script_socket) script_interest"
    using scripted.epoll_axioms script_closing by simp_all
  obtain s' l' where d: "disconnect script_socket (?s, script_loop []) = (s', l')" by fastforce
  from disconnect_once [OF e script_loop_inv _ d] d show ?thesis by auto
qed

end
