(* ===== verification/Tcp_Server.thy ===== *)
theory Tcp_Server
  imports Socket_Object
begin

text \<open>
  \<open>hbk::communication::TcpServer\<close> under Linux (\<^verbatim>\<open>lib/communication/linux/tcpserver.cpp\<close>): starting to
  listen on a port or a unix domain socket, accepting clients from the event loop, and stopping. The
  state is the object with the event loop; the calls of the network are parameters.
\<close>

section \<open>The code\<close>

text \<open>The access rights are the octal number 666.\<close>

record 'cb TcpServer =
  m_listeningEvent :: fd
  m_acceptCb :: "'cb option"
  m_unixDomainSocketPath :: string

type_synonym ('cb, 'h, 'w) server_state = "'cb TcpServer \<times> ('h, 'w) loop"

record 'w listen_net =
  k_bind :: "fd \<Rightarrow> sockaddr \<Rightarrow> 'w \<Rightarrow> bool \<times> 'w"
  k_listen :: "fd \<Rightarrow> int \<Rightarrow> 'w \<Rightarrow> bool \<times> 'w"
  k_accept :: "fd \<Rightarrow> 'w \<Rightarrow> fd sysres \<times> 'w"
  k_unlink :: "string \<Rightarrow> 'w \<Rightarrow> 'w"
  k_chmod :: "string \<Rightarrow> nat \<Rightarrow> 'w \<Rightarrow> 'w"

text \<open>
  \<open>bound_process\<close> is the handler that calls \<open>process\<close> of this object; \<open>run_accept\<close> is the callback with
  the new socket, and says whether it came to an end without an exception.
\<close>

record ('cb, 'd, 'h, 'w) server_env =
  v_sock :: "('d, 'h, 'w) socket_env"
  v_listen :: "'w listen_net"
  bound_process :: 'h
  run_accept :: "'cb \<Rightarrow> 'd Socket \<Rightarrow> ('cb, 'h, 'w) server_state \<Rightarrow> bool \<times> ('cb, 'h, 'w) server_state"

abbreviation v_loop :: "('cb, 'd, 'h, 'w) server_env \<Rightarrow> ('h, 'w) loop_env" where
  "v_loop env \<equiv> e_loop (v_sock env)"

abbreviation v_net :: "('cb, 'd, 'h, 'w) server_env \<Rightarrow> 'w net" where
  "v_net env \<equiv> e_net (v_sock env)"

definition TcpServer_init :: "'cb TcpServer" where
  "TcpServer_init = \<lparr>m_listeningEvent = -1, m_acceptCb = None, m_unixDomainSocketPath = []\<rparr>"

text \<open>A \<open>sockaddr_in6\<close> with the address \<open>in6addr_any\<close> and the port in network order\<close>

definition any_address :: "u16 \<Rightarrow> sockaddr" where
  "any_address port = ([10, 0] @ [ucast (drop_bit 8 port), ucast port] @ replicate 24 0, 28)"

text \<open>The end of both forms of \<open>start\<close>\<close>

definition listening ::
  "('cb, 'd, 'h, 'w) server_env \<Rightarrow> int \<Rightarrow> 'cb option \<Rightarrow> ('cb, 'h, 'w) server_state
    \<Rightarrow> (outcome \<times> ('cb, 'h, 'w) server_state) option" where
  "listening env backlog acceptCb = (\<lambda>(s, l).
     case sys (k_listen (v_listen env) (m_listeningEvent s) backlog) l of (ok, l) \<Rightarrow>
     if \<not> ok then Some (Returns (-1), s, l)
     else
       (let s = s\<lparr>m_acceptCb := acceptCb\<rparr> in
        map_option (\<lambda>(r, l). (case r of Throws \<Rightarrow> Throws | Returns _ \<Rightarrow> Returns 0, s, l))
          (addEvent (v_loop env) (m_listeningEvent s) (Some (bound_process env)) l)))"

definition start_tcp ::
  "('cb, 'd, 'h, 'w) server_env \<Rightarrow> u16 \<Rightarrow> int \<Rightarrow> 'cb option \<Rightarrow> ('cb, 'h, 'w) server_state
    \<Rightarrow> (outcome \<times> ('cb, 'h, 'w) server_state) option" where
  "start_tcp env port backlog acceptCb = (\<lambda>(s, l).
     if acceptCb = None then Some (Returns (-1), s, l)
     else case sys (k_socket (v_net env) AF_INET6) l of (res, l) \<Rightarrow>
     case res of
       Inl e \<Rightarrow> Some (Returns (-1), s\<lparr>m_listeningEvent := -1\<rparr>, l)
     | Inr fd \<Rightarrow>
         (let s = s\<lparr>m_listeningEvent := fd\<rparr> in
          case sys (k_setsockopt (v_net env) fd SO_REUSEADDR 1) l of (ok, l) \<Rightarrow>
          if \<not> ok then Some (Returns (-1), s, l)
          else case sys (k_bind (v_listen env) fd (any_address port)) l of (ok, l) \<Rightarrow>
          if \<not> ok then Some (Returns (-1), s, l)
          else listening env backlog acceptCb (s, l)))"

text \<open>The address a server binds to; the length counts the characters up to the first zero.\<close>

definition server_address :: "string \<Rightarrow> bool \<Rightarrow> sockaddr" where
  "server_address path useAbstractNamespace =
     ([1, 0] @ sun_path path useAbstractNamespace,
      if useAbstractNamespace then 1 + length (c_str path) + 2 else length (c_str path) + 2)"

definition start_unix ::
  "('cb, 'd, 'h, 'w) server_env \<Rightarrow> string \<Rightarrow> bool \<Rightarrow> int \<Rightarrow> 'cb option \<Rightarrow> ('cb, 'h, 'w) server_state
    \<Rightarrow> (outcome \<times> ('cb, 'h, 'w) server_state) option" where
  "start_unix env path useAbstractNamespace backlog acceptCb = (\<lambda>(s, l).
     let l = (if useAbstractNamespace then l else l\<lparr>world := k_unlink (v_listen env) (c_str path) (world l)\<rparr>) in
     case sys (k_socket (v_net env) AF_UNIX) l of (res, l) \<Rightarrow>
     case res of
       Inl e \<Rightarrow> Some (Returns (-1), s\<lparr>m_listeningEvent := -1\<rparr>, l)
     | Inr fd \<Rightarrow>
         (let s = s\<lparr>m_listeningEvent := fd\<rparr> in
          case sys (k_setsockopt (v_net env) fd SO_REUSEADDR 1) l of (ok, l) \<Rightarrow>
          if \<not> ok then Some (Returns (-1), s, l)
          else case sys (k_bind (v_listen env) fd (server_address path useAbstractNamespace)) l of (ok, l) \<Rightarrow>
          if \<not> ok then Some (Returns (-1), s, l)
          else listening env backlog acceptCb
            (if useAbstractNamespace then (s, l)
             else (s\<lparr>m_unixDomainSocketPath := path\<rparr>, l\<lparr>world := k_chmod (v_listen env) (c_str path) 438 (world l)\<rparr>))))"

text \<open>Neither the descriptor nor the path is reset.\<close>

definition server_stop ::
  "('cb, 'd, 'h, 'w) server_env \<Rightarrow> ('cb, 'h, 'w) server_state \<Rightarrow> ('cb, 'h, 'w) server_state" where
  "server_stop env = (\<lambda>(s, l).
     let l = snd (eraseEvent (v_loop env) (m_listeningEvent s) l);
         l = l\<lparr>world := k_close (v_loop env) (m_listeningEvent s) (world l)\<rparr>;
         l = (if m_unixDomainSocketPath s \<noteq> [] then l\<lparr>world := k_unlink (v_listen env) (c_str (m_unixDomainSocketPath s)) (world l)\<rparr> else l)
     in (s\<lparr>m_acceptCb := None\<rparr>, l))"

definition TcpServer_destroy ::
  "('cb, 'd, 'h, 'w) server_env \<Rightarrow> ('cb, 'h, 'w) server_state \<Rightarrow> ('h, 'w) loop" where
  "TcpServer_destroy env s = snd (server_stop env s)"

text \<open>
  The new socket belongs to the callback; with no callback to take it, it is destroyed again. When
  the constructor of the socket throws, nothing closes the client's descriptor.
\<close>

definition server_process ::
  "('cb, 'd, 'h, 'w) server_env \<Rightarrow> ('cb, 'h, 'w) server_state \<Rightarrow> outcome \<times> ('cb, 'h, 'w) server_state" where
  "server_process env = (\<lambda>(s, l).
     case sys (k_accept (v_listen env) (m_listeningEvent s)) l of (res, l) \<Rightarrow>
     case res of
       Inl e \<Rightarrow> (Returns (-1), s, l)
     | Inr clientFd \<Rightarrow>
         (case sys (Socket_accepted (v_net env) clientFd) l of (r, l) \<Rightarrow>
          case r of
            Inl e \<Rightarrow> (Throws, s, l)
          | Inr client \<Rightarrow>
              (case m_acceptCb s of
                 None \<Rightarrow> (Throws, s, Socket_destroy (v_sock env) (client, l))
               | Some cb \<Rightarrow>
                   (case run_accept env cb client (s, l) of (ok, st) \<Rightarrow> (if ok then Returns 1 else Throws, st)))))"

section \<open>What the network promises\<close>

text \<open>
  The clients waiting at a listening descriptor, and the descriptors that are open. A call of the
  options keeps both; what a callback does to them is not restricted here.
\<close>

locale listening_net =
  fixes env :: "('cb, 'd, 'h, 'w) server_env" and queue :: "fd \<Rightarrow> 'w \<Rightarrow> fd list" and opened :: "'w \<Rightarrow> fd set"
  assumes accept: "k_accept (v_listen env) fd w = (res, w') \<Longrightarrow>
      (case queue fd w of [] \<Rightarrow> res = Inl EAGAIN \<and> queue fd w' = [] \<and> opened w' = opened w
       | c # cs \<Rightarrow> res = Inr c \<and> c \<noteq> -1 \<and> queue fd w' = cs \<and> opened w' = insert c (opened w))"
    and socket: "k_socket (v_net env) d w = (Inr new, w') \<Longrightarrow>
      new \<notin> opened w \<and> new \<noteq> -1 \<and> opened w' = insert new (opened w) \<and> queue fd w' = queue fd w"
    and setsockopt: "k_setsockopt (v_net env) fd' opt v w = (ok, w') \<Longrightarrow> opened w' = opened w \<and> queue fd w' = queue fd w"
    and nonblock: "k_nonblock (v_net env) fd' w = (ok, w') \<Longrightarrow> ok \<and> opened w' = opened w \<and> queue fd w' = queue fd w"
    and sockname: "k_sockname (v_net env) fd' w = (family, w') \<Longrightarrow> opened w' = opened w \<and> queue fd w' = queue fd w"
    and binds: "k_bind (v_listen env) fd' a w = (ok, w') \<Longrightarrow> opened w' = opened w"
    and listens: "k_listen (v_listen env) fd' n w = (ok, w') \<Longrightarrow> opened w' = opened w"
begin

lemma set_options_keeps:
  "set_options (v_net env) fd' opts w = (ok, w') \<Longrightarrow> opened w' = opened w \<and> queue fd w' = queue fd w"
proof (induction opts arbitrary: w)
  case (Cons p opts)
  obtain opt v where p: "p = (opt, v)" by fastforce
  obtain o1 w1 where "k_setsockopt (v_net env) fd' opt v w = (o1, w1)" by fastforce
  with Cons setsockopt [OF this] p show ?case by (auto split: if_splits)
qed simp

lemma setSocketOptions_keeps:
  "setSocketOptions (v_net env) fd' w = (r, w') \<Longrightarrow> opened w' = opened w \<and> queue fd w' = queue fd w"
  using sockname set_options_keeps by (fastforce simp: setSocketOptions_def split: prod.splits sum.splits)

lemma accepted_keeps:
  "Socket_accepted (v_net env) c w = (r, w') \<Longrightarrow> opened w' = opened w \<and> queue fd w' = queue fd w"
  using nonblock setSocketOptions_keeps
  by (fastforce simp: Socket_accepted_def split: prod.splits if_splits)

text \<open>A failing \<open>start\<close> leaves the descriptor it opened.\<close>

lemma start_tcp_leaks:
  assumes "k_socket (v_net env) AF_INET6 (world l) = (Inr new, w)" and "m_acceptCb s = None" and "acceptCb \<noteq> None"
    and "start_tcp env port backlog acceptCb (s, l) = Some (r, s', l')" and "m_acceptCb s' = None"
  shows "r = Returns (-1) \<and> m_listeningEvent s' = new \<and> opened (world l') = insert new (opened (world l)) \<and>
    new \<notin> opened (world l)"
proof -
  obtain o1 w1 where 1: "k_setsockopt (v_net env) new SO_REUSEADDR 1 w = (o1, w1)" by fastforce
  obtain o2 w2 where 2: "k_bind (v_listen env) new (any_address port) w1 = (o2, w2)" by fastforce
  obtain o3 w3 where 3: "k_listen (v_listen env) new backlog w2 = (o3, w3)" by fastforce
  note keeps = socket [OF assms(1)] setsockopt [OF 1] binds [OF 2] listens [OF 3]
  show ?thesis
    using assms 1 2 3 keeps
    by (auto simp: start_tcp_def listening_def sys_def Let_def split: if_splits)
qed

end

text \<open>Calling \<open>process\<close> again and again, as the event loop does while it returns more than 0\<close>

primrec process_times ::
  "('cb, 'd, 'h, 'w) server_env \<Rightarrow> nat \<Rightarrow> ('cb, 'h, 'w) server_state \<Rightarrow> outcome list \<times> ('cb, 'h, 'w) server_state" where
  "process_times env 0 st = ([], st)"
| "process_times env (Suc n) st =
     (case server_process env st of (r, st) \<Rightarrow> case process_times env n st of (rs, st) \<Rightarrow> (r # rs, st))"

text \<open>A callback that takes the socket and leaves the server alone\<close>

definition collects ::
  "('cb, 'd, 'h, 'w) server_env \<Rightarrow> (fd \<Rightarrow> 'w \<Rightarrow> fd list) \<Rightarrow> ('w \<Rightarrow> fd list) \<Rightarrow> 'cb \<Rightarrow> bool" where
  "collects env queue taken cb \<longleftrightarrow> (\<forall>client s l. \<exists>l'.
     run_accept env cb client (s, l) = (True, s, l') \<and> taken (world l') = taken (world l) @ [m_event client] \<and>
     (\<forall>fd. queue fd (world l') = queue fd (world l)))"

definition sockets_accepted :: "('cb, 'd, 'h, 'w) server_env \<Rightarrow> ('w \<Rightarrow> fd list) \<Rightarrow> bool" where
  "sockets_accepted env taken \<longleftrightarrow>
     (\<forall>c w. c \<noteq> -1 \<longrightarrow> (\<exists>w'. Socket_accepted (v_net env) c w =
        (Inr (\<lparr>m_event = c, m_inDataHandler = None, m_outDataHandler = None\<rparr> :: 'd Socket), w') \<and> taken w' = taken w)) \<and>
     (\<forall>fd w. taken (snd (k_accept (v_listen env) fd w)) = taken w)"

context listening_net
begin

lemma process_drains:
  assumes cb: "collects env queue taken cb" and ok: "sockets_accepted env taken"
    and s: "m_acceptCb s = Some cb" and n: "n = length (queue (m_listeningEvent s) (world l))"
  shows "\<exists>l'. process_times env (Suc n) (s, l) = (replicate n (Returns 1) @ [Returns (-1)], s, l') \<and>
    taken (world l') = taken (world l) @ queue (m_listeningEvent s) (world l) \<and> queue (m_listeningEvent s) (world l') = []"
  using n
proof (induction n arbitrary: l)
  case 0
  obtain res w where a: "k_accept (v_listen env) (m_listeningEvent s) (world l) = (res, w)" by fastforce
  have "taken w = taken (world l)" using ok a unfolding sockets_accepted_def by (metis snd_conv)
  with accept [OF a] a 0 show ?case by (simp add: server_process_def sys_def)
next
  case (Suc n)
  let ?fd = "m_listeningEvent s"
  obtain c cs where q: "queue ?fd (world l) = c # cs" using Suc.prems by (cases "queue ?fd (world l)") auto
  obtain res w where a: "k_accept (v_listen env) ?fd (world l) = (res, w)" by fastforce
  have w: "res = Inr c" "c \<noteq> -1" "queue ?fd w = cs" using accept [OF a] q by simp_all
  have t: "taken w = taken (world l)" using ok a unfolding sockets_accepted_def by (metis snd_conv)
  obtain w1 where acc: "Socket_accepted (v_net env) c w = (Inr (\<lparr>m_event = c, m_inDataHandler = None, m_outDataHandler = None\<rparr> :: 'd Socket), w1)"
      "taken w1 = taken w"
    using ok w(2) unfolding sockets_accepted_def by metis
  obtain l1 where l1: "run_accept env cb \<lparr>m_event = c, m_inDataHandler = None, m_outDataHandler = None\<rparr>
        (s, l\<lparr>world := w\<rparr>\<lparr>world := w1\<rparr>) = (True, s, l1)"
      "taken (world l1) = taken w1 @ [c]" "queue ?fd (world l1) = queue ?fd w1"
    using cb unfolding collects_def by (metis Socket.select_convs(1) loop.surjective loop.update_convs(7) loop.select_convs(7))
  have q1: "queue ?fd (world l1) = cs" using l1(3) accepted_keeps [OF acc(1)] w(3) by simp
  have step: "server_process env (s, l) = (Returns 1, s, l1)"
    using a w acc l1(1) s by (simp add: server_process_def sys_def)
  have "n = length (queue ?fd (world l1))" using Suc.prems q q1 by simp
  from Suc.IH [OF this] obtain l' where
    "process_times env (Suc n) (s, l1) = (replicate n (Returns 1) @ [Returns (-1)], s, l')"
    "taken (world l') = taken (world l1) @ cs" "queue ?fd (world l') = []"
    using q1 by auto
  with step l1(2) acc(2) t q show ?case by simp
qed

end

text \<open>Stopping erases the registration of the descriptor the object remembers, and closes it.\<close>

context epoll
begin

lemma server_stop_erases:
  fixes l :: "('h, 'w) loop"
  assumes "v_loop senv = env" "loop_inv interest l" "server_stop senv (s, l) = (s', l')"
  shows "s' = s\<lparr>m_acceptCb := None\<rparr> \<and> handler_in l' = (handler_in l)(m_listeningEvent s := None)"
proof -
  obtain r l1 where e: "eraseEvent env (m_listeningEvent s) l = (r, l1)" by fastforce
  with assms eraseEvent_handlers [OF assms(2) e] show ?thesis by (auto simp: server_stop_def Let_def)
qed

end

section \<open>A network with clients that wait\<close>

record lobby =
  b_queue :: "fd list"
  b_open :: "fd list"
  b_taken :: "fd list"

definition next_fd :: "lobby \<Rightarrow> fd" where
  "next_fd w = fold max (b_open w @ b_queue w) 2 + 1"

definition lobby_net :: "lobby net" where
  "lobby_net = \<lparr>k_socket = (\<lambda>_ w. (Inr (next_fd w), w\<lparr>b_open := next_fd w # b_open w\<rparr>)), k_nonblock = (\<lambda>_ w. (True, w)),
     k_sockname = (\<lambda>_ w. (Inr AF_INET6, w)), k_setsockopt = (\<lambda>_ _ _ w. (True, w)), k_connect = (\<lambda>_ _ w. (Inr (), w)),
     k_so_error = (\<lambda>_ w. (0, w)), k_getaddrinfo = (\<lambda>_ _ w. (None, w)), k_peername = (\<lambda>_ _ _. None),
     k_nameinfo = (\<lambda>_. None), k_hwaddr = (\<lambda>_ _. None),
     k_io = \<lparr>s_send = (\<lambda>_ bs _ w. (Inr (length bs), w)), s_sendmsg = (\<lambda>_ bs _ w. (Inr (length (concat bs)), w)),
       s_readv = (\<lambda>_ _ w. (Inr [], w)), s_poll = (\<lambda>_ _ _ w. (Inr 1, w))\<rparr>\<rparr>"

fun lobby_accept :: "fd \<Rightarrow> lobby \<Rightarrow> fd sysres \<times> lobby" where
  "lobby_accept fd w = (case b_queue w of
     [] \<Rightarrow> (Inl EAGAIN, w)
   | c # cs \<Rightarrow> (Inr (if c = -1 then 0 else c), w\<lparr>b_queue := cs, b_open := (if c = -1 then 0 else c) # b_open w\<rparr>))"

text \<open>Binding fails, as for a port that is in use, unless the port is 0.\<close>

definition lobby_listen :: "lobby listen_net" where
  "lobby_listen = \<lparr>k_bind = (\<lambda>_ a w. (fst a ! 3 = 0, w)), k_listen = (\<lambda>_ _ w. (True, w)), k_accept = lobby_accept,
     k_unlink = (\<lambda>_ w. w), k_chmod = (\<lambda>_ _ w. w)\<rparr>"

definition lobby_loop :: "(unit, lobby) loop_env" where
  "lobby_loop = \<lparr>k_epoll_create = (\<lambda>w. (Inr 0, w)), k_eventfd = (\<lambda>w. (1, w)), k_epoll_ctl = (\<lambda>_ _ _ _ w. (True, w)),
     k_epoll_wait = (\<lambda>_ _ w. (Inr [], w)), k_write = (\<lambda>_ _ w. w), k_close = (\<lambda>fd w. w\<lparr>b_open := removeAll fd (b_open w)\<rparr>),
     run = (\<lambda>_ l. (Returns 0, l)), alloc = first_free\<rparr>"

definition lobby_env :: "(unit, unit, unit, lobby) server_env" where
  "lobby_env = \<lparr>v_sock = \<lparr>e_loop = lobby_loop, e_net = lobby_net, bind_data = (\<lambda>_. ())\<rparr>, v_listen = lobby_listen,
     bound_process = (), run_accept = (\<lambda>_ c (s, l). (True, s, l\<lparr>world := (world l)\<lparr>b_taken := b_taken (world l) @ [m_event c]\<rparr>\<rparr>))\<rparr>"

lemma fold_max: "m \<le> fold max xs (m :: int) \<and> (\<forall>x\<in>set xs. x \<le> fold max xs m)"
proof (induction xs arbitrary: m)
  case (Cons x xs)
  from Cons [of "max x m"] show ?case by auto
qed simp

lemma next_fd: "next_fd w \<notin> set (b_open w)" "2 < next_fd w" "next_fd w \<noteq> -1"
proof -
  have "x < next_fd w" if "x \<in> set (b_open w)" for x
    using fold_max [of 2 "b_open w @ b_queue w"] that by (auto simp: next_fd_def)
  then show "next_fd w \<notin> set (b_open w)" by blast
  show "2 < next_fd w" using fold_max [of 2 "b_open w @ b_queue w"] by (simp add: next_fd_def)
  then show "next_fd w \<noteq> -1" by simp
qed

definition lobby_queue :: "fd \<Rightarrow> lobby \<Rightarrow> fd list" where
  "lobby_queue fd w = map (\<lambda>c. if c = -1 then 0 else c) (b_queue w)"

interpretation lobby: listening_net lobby_env lobby_queue "\<lambda>w. set (b_open w)"
  by unfold_locales
    (use next_fd in \<open>auto simp: lobby_env_def lobby_net_def lobby_listen_def lobby_queue_def split: list.splits\<close>)

lemma lobby_collects: "collects lobby_env lobby_queue b_taken ()"
  by (auto simp: collects_def lobby_env_def lobby_queue_def)

lemma lobby_accepts: "sockets_accepted lobby_env b_taken"
  by (auto simp: sockets_accepted_def Socket_accepted_def setSocketOptions_def lobby_env_def lobby_net_def lobby_listen_def
      ip_options_def split: list.splits)

definition script_server :: "(unit, unit, script, script_world) server_env" where
  "script_server = \<lparr>v_sock = script_socket, v_listen = \<lparr>k_bind = (\<lambda>_ _ w. (True, w)), k_listen = (\<lambda>_ _ w. (True, w)),
     k_accept = (\<lambda>_ w. (Inl EAGAIN, w)), k_unlink = (\<lambda>_ w. w), k_chmod = (\<lambda>_ _ w. w)\<rparr>,
     bound_process = Script [] (Returns (-1)), run_accept = (\<lambda>_ _ st. (True, st))\<rparr>"

section \<open>Properties\<close>

text \<open>
  C16: with \<open>n\<close> clients waiting, \<open>process\<close> returns 1 for \<open>n\<close> calls and then -1, so that the event
  loop, which calls it until it returns no more than 0, hands all of them to the callback, in the
  order in which they came, and leaves none behind.
\<close>

theorem process_accepts_all:
  assumes "listening_net env queue opened" and "collects env queue taken cb" and "sockets_accepted env taken"
    and "m_acceptCb s = Some cb" and "queue (m_listeningEvent s) (world l) = clients"
  shows "\<exists>l'. process_times env (Suc (length clients)) (s, l) =
      (replicate (length clients) (Returns 1) @ [Returns (-1)], s, l') \<and>
    taken (world l') = taken (world l) @ clients \<and> queue (m_listeningEvent s) (world l') = []"
  using listening_net.process_drains [OF assms(1-4), of "length clients" l] assms(5) by simp

theorem process_accepts_all_witness:
  "\<forall>k. (\<exists>l'. process_times lobby_env (Suc (Suc (Suc 0))) (\<lparr>m_listeningEvent = 3, m_acceptCb = Some (), m_unixDomainSocketPath = []\<rparr>, k\<lparr>world := \<lparr>b_queue = [7, 8], b_open = [3], b_taken = []\<rparr>\<rparr>) =
      ([Returns 1, Returns 1, Returns (-1)], \<lparr>m_listeningEvent = 3, m_acceptCb = Some (), m_unixDomainSocketPath = []\<rparr>, l') \<and>
      b_taken (world l') = [7, 8])"
proof
  fix k :: "(unit, lobby) loop"
  obtain l where l: "k\<lparr>world := \<lparr>b_queue = [7, 8], b_open = [3], b_taken = []\<rparr>\<rparr> = l" by simp
  then have w: "world l = \<lparr>b_queue = [7, 8], b_open = [3], b_taken = []\<rparr>" by auto
  let ?s = "\<lparr>m_listeningEvent = 3, m_acceptCb = Some (), m_unixDomainSocketPath = []\<rparr>"
  have q: "lobby_queue (m_listeningEvent ?s) (world l) = [7, 8]" by (simp add: lobby_queue_def w)
  have "m_acceptCb ?s = Some ()" by simp
  from process_accepts_all [OF lobby.listening_net_axioms lobby_collects lobby_accepts this q]
  show "\<exists>l'. process_times lobby_env (Suc (Suc (Suc 0))) (?s, k\<lparr>world := \<lparr>b_queue = [7, 8], b_open = [3], b_taken = []\<rparr>\<rparr>) = ([Returns 1, Returns 1, Returns (-1)], ?s, l') \<and> b_taken (world l') = [7, 8]" unfolding l
    by (auto simp: w simp del: process_times.simps)
qed

text \<open>
  Stopping twice, as \<open>stop\<close> followed by the destructor does. The object remembers its descriptor,
  so when another object has got the same number in between and registered it, the second stop takes
  that object's callback out of the event loop and closes its descriptor.
\<close>

theorem second_stop_hits_others:
  assumes "epoll (v_loop env) interest" and "server_stop env (s, l) = (s1, l1)"
    and "loop_inv interest l2" and "handler_in l2 (m_listeningEvent s) = Some h"
    and "m_unixDomainSocketPath s = []"
  shows "handler_in (TcpServer_destroy env (s1, l2)) (m_listeningEvent s) = None \<and>
    world (TcpServer_destroy env (s1, l2)) = k_close (v_loop env) (m_listeningEvent s)
      (world (snd (eraseEvent (v_loop env) (m_listeningEvent s) l2)))"
proof -
  have s1: "s1 = s\<lparr>m_acceptCb := None\<rparr>" using assms(2) by (auto simp: server_stop_def Let_def)
  obtain s3 l3 where d: "server_stop env (s1, l2) = (s3, l3)" by fastforce
  from epoll.server_stop_erases [OF assms(1) refl assms(3) d] s1 d assms(5) show ?thesis
    by (auto simp: TcpServer_destroy_def server_stop_def Let_def)
qed

theorem second_stop_hits_others_witness:
  "\<exists>s1 l1 l2. server_stop script_server (\<lparr>m_listeningEvent = 5, m_acceptCb = Some (), m_unixDomainSocketPath = []\<rparr>, script_loop []) = (s1, l1) \<and>
    handler_in l2 5 = Some (Script [] (Returns 0)) \<and> handler_in (TcpServer_destroy script_server (s1, l2)) 5 = None"
proof -
  let ?s = "\<lparr>m_listeningEvent = 5, m_acceptCb = Some (), m_unixDomainSocketPath = []\<rparr>"
  let ?l2 = "snd (register_in script_env 5 (Script [] (Returns 0)) (script_loop []))"
  obtain s1 l1 where st: "server_stop script_server (?s, script_loop []) = (s1, l1)" by fastforce
  have e: "epoll (v_loop script_server) script_interest" using scripted.epoll_axioms by (simp add: script_server_def)
  have inv: "loop_inv script_interest ?l2" by (rule scripted.register_in_inv [OF script_loop_inv prod.collapse [symmetric]])
  have h: "handler_in ?l2 (m_listeningEvent ?s) = Some (Script [] (Returns 0))"
    using scripted.register_in_handlers [OF script_loop_inv prod.collapse [symmetric], of 5] by simp
  from second_stop_hits_others [OF e st inv h] st h show ?thesis by auto
qed

text \<open>
  A \<open>start\<close> that fails after it has created its socket leaves this descriptor open; the next
  failing start opens another one and forgets the first, which nothing can close any more.
\<close>

theorem failing_start_leaks:
  assumes "listening_net env queue opened" and "m_acceptCb s = None"
    and "k_socket (v_net env) AF_INET6 (world l) = (Inr a, w)"
    and "start_tcp env port backlog (Some cb) (s, l) = Some (r1, s1, l1)" and "m_acceptCb s1 = None"
    and "k_socket (v_net env) AF_INET6 (world l1) = (Inr b, w1)"
    and "start_tcp env port backlog (Some cb) (s1, l1) = Some (r2, s2, l2)" and "m_acceptCb s2 = None"
  shows "r1 = Returns (-1) \<and> r2 = Returns (-1) \<and> a \<noteq> b \<and> m_listeningEvent s2 = b \<and>
    {a, b} \<subseteq> opened (world l2) - opened (world l)"
  using listening_net.start_tcp_leaks [OF assms(1,3,2) _ assms(4,5)] listening_net.start_tcp_leaks [OF assms(1,6,5) _ assms(7,8)]
  by auto

theorem failing_start_leaks_witness:
  "\<forall>l. world l = \<lparr>b_queue = [], b_open = [], b_taken = []\<rparr> \<longrightarrow>
    (\<exists>s1 l1 s2 l2. start_tcp lobby_env 80 5 (Some ()) (TcpServer_init, l) = Some (Returns (-1), s1, l1) \<and>
      start_tcp lobby_env 80 5 (Some ()) (s1, l1) = Some (Returns (-1), s2, l2) \<and> {3, 4} \<subseteq> set (b_open (world l2)))"
proof (intro allI impI)
  fix l :: "(unit, lobby) loop" assume w: "world l = \<lparr>b_queue = [], b_open = [], b_taken = []\<rparr>"
  have start: "start_tcp lobby_env 80 5 (Some ()) (s, l) = Some (Returns (-1), s\<lparr>m_listeningEvent := next_fd (world l)\<rparr>,
      l\<lparr>world := (world l)\<lparr>b_open := next_fd (world l) # b_open (world l)\<rparr>\<rparr>)" for s and l :: "(unit, lobby) loop"
    by (simp add: start_tcp_def sys_def lobby_env_def lobby_net_def lobby_listen_def any_address_def)
  let ?s1 = "TcpServer_init\<lparr>m_listeningEvent := next_fd (world l)\<rparr> :: unit TcpServer"
  let ?l1 = "l\<lparr>world := (world l)\<lparr>b_open := next_fd (world l) # b_open (world l)\<rparr>\<rparr>"
  have sock: "k_socket (v_net lobby_env) AF_INET6 w = (Inr (next_fd w), w\<lparr>b_open := next_fd w # b_open w\<rparr>)" for w
    by (simp add: lobby_env_def lobby_net_def)
  have n: "next_fd (world l) = 3" "next_fd (world ?l1) = 4" by (simp_all add: next_fd_def w)
  from failing_start_leaks [OF lobby.listening_net_axioms _ sock start _ sock start, of TcpServer_init l] start n
  show "\<exists>s1 l1 s2 l2. start_tcp lobby_env 80 5 (Some ()) (TcpServer_init, l) = Some (Returns (-1), s1, l1) \<and>
      start_tcp lobby_env 80 5 (Some ()) (s1, l1) = Some (Returns (-1), s2, l2) \<and> {3, 4} \<subseteq> set (b_open (world l2))"
    by (simp add: TcpServer_init_def w)
qed

text \<open>
  C17: a client reaches a server through a unix domain socket exactly when it uses the same path and
  the same kind of name: the addresses the two sides compute, as far as the kernel looks at them, agree
  just then. This holds for paths that fit; two paths of 107 characters in the
  abstract namespace that differ only in the last one have the same address.
\<close>

theorem unix_names_match:
  assumes "CHR 0x00 \<notin> set p" and "CHR 0x00 \<notin> set q" and "length p \<le> 106" and "length q \<le> 106"
    and "p \<noteq> []" and "q \<noteq> []"
  shows "(seen (server_address p b) = seen (unix_address q c) \<longleftrightarrow> p = q \<and> b = c) \<and>
    (length p = 106 \<longrightarrow> x \<noteq> CHR 0x00 \<longrightarrow> y \<noteq> CHR 0x00 \<longrightarrow> server_address (p @ [x]) True = unix_address (p @ [y]) True)"
proof
  have server: "CHR 0x00 \<notin> set r \<Longrightarrow> server_address r d = unix_address r d" for r d
    by (simp add: server_address_def unix_address_def c_str_id)
  have nz: "(of_char d :: u8) = 0 \<longleftrightarrow> d = CHR 0x00" for d
    using of_char_u8 [of d "CHR 0x00"] by simp
  have "hd p \<noteq> CHR 0x00" "hd q \<noteq> CHR 0x00" using assms by (cases p; cases q; auto)+
  with assms show "seen (server_address p b) = seen (unix_address q c) \<longleftrightarrow> p = q \<and> b = c"
    by (cases b; cases c; cases p; cases q) (auto simp: server seen_unix_address map_of_char_u8 of_char_u8 nz)
  show "length p = 106 \<longrightarrow> x \<noteq> CHR 0x00 \<longrightarrow> y \<noteq> CHR 0x00 \<longrightarrow> server_address (p @ [x]) True = unix_address (p @ [y]) True"
    using assms(1) by (simp add: server_address_def unix_address_def sun_path_def strncpy_def c_str_id)
qed

theorem unix_names_match_witness:
  "seen (server_address ''/run/a'' True) \<noteq> seen (unix_address ''/run/b'' True)"
  using unix_names_match [of "''/run/a''" "''/run/b''" True True] by simp

end
