(* ===== verification/Win_Event_Loop.thy ===== *)
theory Win_Event_Loop
  imports Event_Registry Timer_Notifier
begin

text \<open>
  The event loop under Windows (\<^verbatim>\<open>lib/sys/windows/eventloop.cpp\<close>), on an I/O completion port: a map
  from event handles to callbacks, and a loop that takes completions from the port and calls the
  callback of the handle that is their key. The timer and the notifier on top of it
  (\<^verbatim>\<open>lib/sys/windows/timer.cpp\<close>, \<^verbatim>\<open>lib/sys/windows/notifier.cpp\<close>) post such completions. The map gives
  the same contract of registering and erasing as one side of the event loop under Linux.
\<close>

section \<open>State\<close>

type_synonym handle = int

definition INVALID_HANDLE_VALUE :: handle where "INVALID_HANDLE_VALUE = -1"
definition WSA_INVALID_EVENT :: handle where "WSA_INVALID_EVENT = 0"

text \<open>\<open>hbk::sys::event\<close>: what the operations use of it\<close>

record win_event =
  completionPort :: handle
  hEvent :: handle
  fileHandle :: handle

definition win_event_init :: win_event where
  "win_event_init = \<lparr>completionPort = INVALID_HANDLE_VALUE, hEvent = 0, fileHandle = INVALID_HANDLE_VALUE\<rparr>"

datatype win_error = ERROR_NETNAME_DELETED | ERROR_OPERATION_ABORTED | ERROR_INVALID_PARAMETER | ERROR_OTHER nat

text \<open>What \<open>GetQueuedCompletionStatus\<close> gives: nothing, the key of a failed operation, or a key\<close>

datatype completion = Nothing | Io_Failed handle win_error | Dequeued handle

record ('h, 'w) win_loop =
  m_completionPort :: handle
  w_infos :: "handle \<rightharpoonup> 'h"
  w_world :: 'w

record ('h, 'w) win_env =
  k_create_port :: "'w \<Rightarrow> handle \<times> 'w"
  k_get :: "handle \<Rightarrow> 'w \<Rightarrow> completion \<times> 'w"
  k_post :: "handle \<Rightarrow> handle \<Rightarrow> 'w \<Rightarrow> bool \<times> 'w"
  k_associate :: "handle \<Rightarrow> handle \<Rightarrow> handle \<Rightarrow> 'w \<Rightarrow> win_error option \<times> 'w"
  k_close_handle :: "handle \<Rightarrow> 'w \<Rightarrow> 'w"
  win_run :: "'h \<Rightarrow> ('h, 'w) win_loop \<Rightarrow> outcome \<times> ('h, 'w) win_loop"

section \<open>The event loop\<close>

definition win_init :: "('h, 'w) win_env \<Rightarrow> 'w \<Rightarrow> ('h, 'w) win_loop" where
  "win_init env w = (case k_create_port env w of (p, w) \<Rightarrow>
     \<lparr>m_completionPort = p, w_infos = Map.empty, w_world = w\<rparr>)"

definition win_stop :: "('h, 'w) win_env \<Rightarrow> ('h, 'w) win_loop \<Rightarrow> ('h, 'w) win_loop" where
  "win_stop env l = l\<lparr>w_world := snd (k_post env (m_completionPort l) WSA_INVALID_EVENT (w_world l))\<rparr>"

definition win_destroy :: "('h, 'w) win_env \<Rightarrow> ('h, 'w) win_loop \<Rightarrow> 'w" where
  "win_destroy env l = (let l = win_stop env l in k_close_handle env (m_completionPort l) (w_world l))"

text \<open>The key is the handle cast to \<open>ULONG\<close>.\<close>

definition win_addEvent ::
  "('h, 'w) win_env \<Rightarrow> win_event \<Rightarrow> 'h option \<Rightarrow> ('h, 'w) win_loop \<Rightarrow> int \<times> ('h, 'w) win_loop" where
  "win_addEvent env fd eventHandler l =
     (case eventHandler of None \<Rightarrow> (-1, l) | Some h \<Rightarrow>
      let l = l\<lparr>w_infos := (w_infos l)(hEvent fd \<mapsto> h)\<rparr> in
      if fileHandle fd = INVALID_HANDLE_VALUE then (0, l)
      else case k_associate env (fileHandle fd) (m_completionPort l) (hEvent fd mod 2 ^ 32) (w_world l) of (err, w) \<Rightarrow>
        let l = l\<lparr>w_world := w\<rparr> in
        case err of
          None \<Rightarrow> (0, l)
        | Some e \<Rightarrow> if e \<noteq> ERROR_INVALID_PARAMETER then (-1, l) else (0, l))"

definition win_eraseEvent :: "win_event \<Rightarrow> ('h, 'w) win_loop \<Rightarrow> int \<times> ('h, 'w) win_loop" where
  "win_eraseEvent fd l =
     (if w_infos l (hEvent fd) = None then (-1, l) else (0, l\<lparr>w_infos := (w_infos l)(hEvent fd := None)\<rparr>))"

text \<open>
  The inner loop: the callback of the event is looked up each time, and \<open>retval\<close> keeps its value
  when it is not there.
\<close>

partial_function (option) win_dispatch ::
  "('h, 'w) win_env \<Rightarrow> handle \<Rightarrow> int \<Rightarrow> ('h, 'w) win_loop \<Rightarrow> (outcome \<times> ('h, 'w) win_loop) option" where
  "win_dispatch env event retval l =
     (case w_infos l event of
        None \<Rightarrow> if 0 < retval then win_dispatch env event retval l else Some (Returns retval, l)
      | Some h \<Rightarrow>
          (case win_run env h l of (r, l') \<Rightarrow>
           case r of
             Throws \<Rightarrow> Some (Throws, l')
           | Returns n \<Rightarrow> if 0 < n then win_dispatch env event n l' else Some (Returns n, l')))"

text \<open>A failed operation whose connection is gone calls the callback once.\<close>

definition win_failed :: "('h, 'w) win_env \<Rightarrow> handle \<Rightarrow> ('h, 'w) win_loop \<Rightarrow> outcome \<times> ('h, 'w) win_loop" where
  "win_failed env event l = (case w_infos l event of None \<Rightarrow> (Returns 0, l) | Some h \<Rightarrow> win_run env h l)"

partial_function (option) win_loop_from ::
  "('h, 'w) win_env \<Rightarrow> ('h, 'w) win_loop \<Rightarrow> (outcome \<times> ('h, 'w) win_loop) option" where
  "win_loop_from env l =
     (case k_get env (m_completionPort l) (w_world l) of (c, w) \<Rightarrow>
      case c of
        Nothing \<Rightarrow> win_loop_from env (l\<lparr>w_world := w\<rparr>)
      | Io_Failed key e \<Rightarrow>
          if e = ERROR_NETNAME_DELETED then
            (case win_failed env key (l\<lparr>w_world := w\<rparr>) of (r, l') \<Rightarrow>
             case r of Throws \<Rightarrow> Some (Throws, l') | Returns _ \<Rightarrow> win_loop_from env l')
          else if e \<noteq> ERROR_OPERATION_ABORTED then Some (Returns 0, l\<lparr>w_world := w\<rparr>)
          else win_loop_from env (l\<lparr>w_world := w\<rparr>)
      | Dequeued key \<Rightarrow>
          if key = WSA_INVALID_EVENT then Some (Returns 0, l\<lparr>w_world := w\<rparr>)
          else Option.bind (win_dispatch env key 0 (l\<lparr>w_world := w\<rparr>)) (\<lambda>(r, l').
            case r of Throws \<Rightarrow> Some (Throws, l') | Returns _ \<Rightarrow> win_loop_from env l'))"

definition win_execute :: "('h, 'w) win_env \<Rightarrow> ('h, 'w) win_loop \<Rightarrow> (outcome \<times> ('h, 'w) win_loop) option" where
  "win_execute env l = (if m_completionPort l = 0 then Some (Returns (-1), l) else win_loop_from env l)"

section \<open>The timer and the notifier\<close>

record 'c win_timer =
  wt_event :: win_event
  wt_handler :: "'c option"

record ('c, 'h, 'w) win_timer_env =
  wt_loop :: "('h, 'w) win_env"
  wt_process :: 'h
  k_create_timer :: "u32 \<Rightarrow> u32 \<Rightarrow> 'w \<Rightarrow> handle option \<times> 'w"
  k_delete_timer :: "handle \<Rightarrow> 'w \<Rightarrow> 'w"
  run_wt :: "'c \<Rightarrow> bool \<Rightarrow> 'c win_timer \<times> ('h, 'w) win_loop \<Rightarrow> bool \<times> 'c win_timer \<times> ('h, 'w) win_loop"

text \<open>What the timer queue calls when a timer elapses\<close>

definition timerCb :: "('h, 'w) win_env \<Rightarrow> win_event \<Rightarrow> bool \<Rightarrow> 'w \<Rightarrow> 'w" where
  "timerCb env ev fired w = (if fired then snd (k_post env (completionPort ev) (hEvent ev) w) else w)"

definition win_timer_init :: "('h, 'w) win_loop \<Rightarrow> 'c win_timer" where
  "win_timer_init l = \<lparr>wt_event = win_event_init\<lparr>completionPort := m_completionPort l\<rparr>, wt_handler = None\<rparr>"

text \<open>Erasing the registration and deleting the timer of the queue, if there is one\<close>

definition delete_timer ::
  "('c, 'h, 'w) win_timer_env \<Rightarrow> 'c win_timer \<times> ('h, 'w) win_loop \<Rightarrow> 'c win_timer \<times> ('h, 'w) win_loop" where
  "delete_timer env = (\<lambda>(t, l).
     let l = snd (win_eraseEvent (wt_event t) l) in
     if hEvent (wt_event t) \<noteq> 0 then
       (t\<lparr>wt_event := (wt_event t)\<lparr>hEvent := 0\<rparr>\<rparr>, l\<lparr>w_world := k_delete_timer env (hEvent (wt_event t)) (w_world l)\<rparr>)
     else (t, l))"

definition win_timer_destroy ::
  "('c, 'h, 'w) win_timer_env \<Rightarrow> 'c win_timer \<times> ('h, 'w) win_loop \<Rightarrow> ('h, 'w) win_loop" where
  "win_timer_destroy env st = snd (delete_timer env st)"

definition win_timer_set ::
  "('c, 'h, 'w) win_timer_env \<Rightarrow> u32 \<Rightarrow> bool \<Rightarrow> 'c option \<Rightarrow> 'c win_timer \<times> ('h, 'w) win_loop
    \<Rightarrow> int \<times> 'c win_timer \<times> ('h, 'w) win_loop" where
  "win_timer_set env period_ms repeated eventHandler st =
     (case delete_timer env st of (t, l) \<Rightarrow>
      let repeatPeriod = (if repeated then period_ms else 0); t = t\<lparr>wt_handler := eventHandler\<rparr> in
      case k_create_timer env period_ms repeatPeriod (w_world l) of (res, w) \<Rightarrow>
      let l = l\<lparr>w_world := w\<rparr> in
      case res of
        Some h \<Rightarrow>
          (let t = t\<lparr>wt_event := (wt_event t)\<lparr>hEvent := h\<rparr>\<rparr> in
           case win_addEvent (wt_loop env) (wt_event t) (Some (wt_process env)) l of (r, l) \<Rightarrow> (r, t, l))
      | None \<Rightarrow> (-1, t, l))"

definition win_timer_set_chrono ::
  "('c, 'h, 'w) win_timer_env \<Rightarrow> int \<Rightarrow> bool \<Rightarrow> 'c option \<Rightarrow> 'c win_timer \<times> ('h, 'w) win_loop
    \<Rightarrow> int \<times> 'c win_timer \<times> ('h, 'w) win_loop" where
  "win_timer_set_chrono env count repeated eventHandler st = win_timer_set env (word_of_int count) repeated eventHandler st"

definition call_wt ::
  "('c, 'h, 'w) win_timer_env \<Rightarrow> bool \<Rightarrow> 'c win_timer \<times> ('h, 'w) win_loop
    \<Rightarrow> outcome \<times> 'c win_timer \<times> ('h, 'w) win_loop" where
  "call_wt env fired st =
     (case wt_handler (fst st) of
        None \<Rightarrow> (Returns 0, st)
      | Some c \<Rightarrow> (case run_wt env c fired st of (ok, st) \<Rightarrow> (if ok then Returns 0 else Throws, st)))"

definition win_timer_process ::
  "('c, 'h, 'w) win_timer_env \<Rightarrow> 'c win_timer \<times> ('h, 'w) win_loop
    \<Rightarrow> outcome \<times> 'c win_timer \<times> ('h, 'w) win_loop" where
  "win_timer_process env st = call_wt env True st"

definition win_timer_cancel ::
  "('c, 'h, 'w) win_timer_env \<Rightarrow> 'c win_timer \<times> ('h, 'w) win_loop
    \<Rightarrow> outcome \<times> 'c win_timer \<times> ('h, 'w) win_loop" where
  "win_timer_cancel env st = call_wt env False (delete_timer env st)"

record 'c win_notifier =
  wn_event :: win_event
  wn_handler :: "'c option"

text \<open>\<open>process\<close> is the bound handler of the notifier; the result of \<open>addEvent\<close> is not looked at.\<close>

definition win_notifier_init ::
  "('h, 'w) win_env \<Rightarrow> ('w \<Rightarrow> handle \<times> 'w) \<Rightarrow> 'h \<Rightarrow> ('h, 'w) win_loop \<Rightarrow> 'c win_notifier \<times> ('h, 'w) win_loop" where
  "win_notifier_init env create_event process l =
     (case create_event (w_world l) of (h, w) \<Rightarrow>
      let ev = win_event_init\<lparr>completionPort := m_completionPort l, hEvent := h\<rparr> in
      (\<lparr>wn_event = ev, wn_handler = None\<rparr>, snd (win_addEvent env ev (Some process) (l\<lparr>w_world := w\<rparr>))))"

definition win_notifier_destroy ::
  "('h, 'w) win_env \<Rightarrow> 'c win_notifier \<Rightarrow> ('h, 'w) win_loop \<Rightarrow> ('h, 'w) win_loop" where
  "win_notifier_destroy env n l =
     (let l = snd (win_eraseEvent (wn_event n) l) in
      l\<lparr>w_world := k_close_handle env (hEvent (wn_event n)) (w_world l)\<rparr>)"

definition win_notify :: "('h, 'w) win_env \<Rightarrow> 'c win_notifier \<Rightarrow> ('h, 'w) win_loop \<Rightarrow> int \<times> ('h, 'w) win_loop" where
  "win_notify env n l =
     (case k_post env (completionPort (wn_event n)) (hEvent (wn_event n)) (w_world l) of (ok, w) \<Rightarrow>
      (if ok then 0 else -1, l\<lparr>w_world := w\<rparr>))"

definition win_notifier_process ::
  "('c \<Rightarrow> 's \<Rightarrow> bool \<times> 's) \<Rightarrow> 'c win_notifier \<Rightarrow> 's \<Rightarrow> outcome \<times> 's" where
  "win_notifier_process run_cb n s =
     (case wn_handler n of
        None \<Rightarrow> (Returns 0, s)
      | Some c \<Rightarrow> (case run_cb c s of (ok, s) \<Rightarrow> (if ok then Returns 0 else Throws, s)))"

definition win_notifier_set :: "'c option \<Rightarrow> 'c win_notifier \<Rightarrow> int \<times> 'c win_notifier" where
  "win_notifier_set eventHandler n = (0, n\<lparr>wn_handler := eventHandler\<rparr>)"

section \<open>The contract of the registry\<close>

text \<open>An event with a handle and no file, as the timer and the notifier have it\<close>

definition plain_event :: "handle \<Rightarrow> win_event" where
  "plain_event h = win_event_init\<lparr>hEvent := h\<rparr>"

definition win_register :: "('h, 'w) win_env \<Rightarrow> handle \<Rightarrow> 'h \<Rightarrow> ('h, 'w) win_loop \<Rightarrow> bool \<times> ('h, 'w) win_loop" where
  "win_register env h cb l = (case win_addEvent env (plain_event h) (Some cb) l of (r, l) \<Rightarrow> (r = 0, l))"

interpretation win_registry: event_registry "\<lambda>_. True" w_infos "\<lambda>_. Map.empty"
    "win_register env" "\<lambda>h. win_eraseEvent (plain_event h)"
  by unfold_locales
    (auto simp: win_register_def win_addEvent_def win_eraseEvent_def plain_event_def win_event_init_def fun_eq_iff
      split: if_splits)

section \<open>Dispatching\<close>

text \<open>When the callback is gone and the result still asks for more, the inner loop spins.\<close>

lemma win_dispatch_result:
  "win_dispatch env event n l = Some y \<Longrightarrow> w_infos l event = None \<longrightarrow> n \<le> 0"
proof (rule win_dispatch.raw_induct [where P = "\<lambda>env event n l y. w_infos l event = None \<longrightarrow> n \<le> 0"])
  fix f :: "('h, 'w) win_env \<Rightarrow> handle \<Rightarrow> int \<Rightarrow> ('h, 'w) win_loop \<Rightarrow> (outcome \<times> ('h, 'w) win_loop) option"
    and env event n l y
  assume IH: "\<And>env event n l y. f env event n l = Some y \<Longrightarrow> w_infos l event = None \<longrightarrow> n \<le> 0"
    and eq: "(case w_infos l event of
        None \<Rightarrow> if 0 < n then f env event n l else Some (Returns n, l)
      | Some h \<Rightarrow> (case win_run env h l of (r, l') \<Rightarrow> case r of
             Throws \<Rightarrow> Some (Throws, l')
           | Returns n \<Rightarrow> if 0 < n then f env event n l' else Some (Returns n, l'))) = Some y"
  show "w_infos l event = None \<longrightarrow> n \<le> 0"
    using eq IH [of env event n l y] by (cases "w_infos l event") (auto split: if_splits)
qed auto

lemma win_dispatch_spins: "w_infos l event = None \<Longrightarrow> 0 < n \<Longrightarrow> win_dispatch env event n l = None"
  using win_dispatch_result [of env event n l] by (cases "win_dispatch env event n l") auto

primrec win_notify_times :: "('h, 'w) win_env \<Rightarrow> 'c win_notifier \<Rightarrow> nat \<Rightarrow> ('h, 'w) win_loop \<Rightarrow> ('h, 'w) win_loop" where
  "win_notify_times env nf 0 l = l"
| "win_notify_times env nf (Suc n) l = win_notify_times env nf n (snd (win_notify env nf l))"

text \<open>
  A completion port: the keys posted, taken in their order. The callbacks here note that they have
  been called, have nothing left to do, and do not post.
\<close>

locale completion_port =
  fixes env :: "('h, 'w) win_env" and posted :: "'w \<Rightarrow> handle list" and noted :: "'w \<Rightarrow> 'h list"
  assumes get: "posted w = key # ks \<Longrightarrow>
      \<exists>w'. k_get env p w = (Dequeued key, w') \<and> posted w' = ks \<and> noted w' = noted w"
    and post: "k_post env p key w = (ok, w') \<Longrightarrow> ok \<and> posted w' = posted w @ [key] \<and> noted w' = noted w"
    and noting: "\<exists>w n. win_run env h l = (Returns n, l\<lparr>w_world := w\<rparr>) \<and> n \<le> 0 \<and> posted w = posted (w_world l) \<and>
      noted w = noted (w_world l) @ [h]"
begin

definition handlers_of :: "('h, 'w) win_loop \<Rightarrow> handle list \<Rightarrow> 'h list" where
  "handlers_of l ks = concat (map (\<lambda>key. case w_infos l key of None \<Rightarrow> [] | Some h \<Rightarrow> [h]) ks)"

lemma dispatch_notes:
  "\<exists>w n. win_dispatch env key 0 l = Some (Returns n, l\<lparr>w_world := w\<rparr>) \<and> posted w = posted (w_world l) \<and>
    noted w = noted (w_world l) @ handlers_of l [key]"
proof (cases "w_infos l key")
  case None
  then show ?thesis
    by (intro exI [of _ "w_world l"] exI [of _ 0]) (simp add: win_dispatch.simps handlers_of_def)
next
  case (Some h)
  obtain w n where "win_run env h l = (Returns n, l\<lparr>w_world := w\<rparr>)" "n \<le> 0" "posted w = posted (w_world l)"
      "noted w = noted (w_world l) @ [h]"
    using noting by blast
  with Some show ?thesis by (intro exI [of _ w] exI [of _ n]) (simp add: win_dispatch.simps handlers_of_def)
qed

lemma loop_serves:
  assumes "posted (w_world l) = ks @ [WSA_INVALID_EVENT]" and "WSA_INVALID_EVENT \<notin> set ks"
  shows "\<exists>w. win_loop_from env l = Some (Returns 0, l\<lparr>w_world := w\<rparr>) \<and> posted w = [] \<and>
    noted w = noted (w_world l) @ handlers_of l ks"
  using assms
proof (induction ks arbitrary: l)
  case Nil
  then obtain w where "k_get env (m_completionPort l) (w_world l) = (Dequeued WSA_INVALID_EVENT, w)"
      "posted w = []" "noted w = noted (w_world l)"
    using get by fastforce
  then show ?case
    by (intro exI [of _ w]) (simp add: win_loop_from.simps [of env l] handlers_of_def)
next
  case (Cons key ks)
  then obtain w where w: "k_get env (m_completionPort l) (w_world l) = (Dequeued key, w)"
      "posted w = ks @ [WSA_INVALID_EVENT]" "noted w = noted (w_world l)"
    using get by fastforce
  obtain w1 n where d: "win_dispatch env key 0 (l\<lparr>w_world := w\<rparr>) = Some (Returns n, l\<lparr>w_world := w1\<rparr>)"
      "posted w1 = posted w" "noted w1 = noted w @ handlers_of l [key]"
    using dispatch_notes [of key "l\<lparr>w_world := w\<rparr>"] by (auto simp: handlers_of_def)
  from Cons.IH [of "l\<lparr>w_world := w1\<rparr>"] Cons.prems w d obtain w2 where
    "win_loop_from env (l\<lparr>w_world := w1\<rparr>) = Some (Returns 0, l\<lparr>w_world := w2\<rparr>)" "posted w2 = []"
    "noted w2 = noted (w_world l) @ handlers_of l (key # ks)"
    by (auto simp: handlers_of_def)
  with w d Cons.prems(2) show ?case
    by (intro exI [of _ w2]) (simp add: win_loop_from.simps [of env l])
qed

lemma notifies_post:
  "\<exists>w. win_notify_times env nf n l = l\<lparr>w_world := w\<rparr> \<and> noted w = noted (w_world l) \<and>
    posted w = posted (w_world l) @ replicate n (hEvent (wn_event nf))"
proof (induction n arbitrary: l)
  case 0
  show ?case by (intro exI [of _ "w_world l"]) simp
next
  case (Suc n)
  obtain ok w where p: "k_post env (completionPort (wn_event nf)) (hEvent (wn_event nf)) (w_world l) = (ok, w)" by fastforce
  obtain w1 where "win_notify_times env nf n (l\<lparr>w_world := w\<rparr>) = l\<lparr>w_world := w1\<rparr>" "noted w1 = noted w"
      "posted w1 = posted w @ replicate n (hEvent (wn_event nf))"
    using Suc.IH [of "l\<lparr>w_world := w\<rparr>"] by auto
  with post [OF p] show ?case by (intro exI [of _ w1]) (simp add: win_notify_def p)
qed

end

section \<open>Timers own one timer of the queue\<close>

text \<open>
  The timers of the timer queue that exist. The callbacks here leave the timer alone: what it owns
  then is one timer of the queue, when its handle is set, and nothing otherwise.
\<close>

locale timer_queue =
  fixes env :: "('c, 'h, 'w) win_timer_env" and timers :: "'w \<Rightarrow> handle set"
  assumes create: "k_create_timer env wait per w = (res, w') \<Longrightarrow>
      (case res of None \<Rightarrow> timers w' = timers w
       | Some h \<Rightarrow> h \<noteq> 0 \<and> h \<notin> timers w \<and> timers w' = insert h (timers w))"
    and delete: "timers (k_delete_timer env h w) = timers w - {h}"
    and called: "run_wt env c fired (t, l) = (ok, t', l') \<Longrightarrow> t' = t \<and> timers (w_world l') = timers (w_world l)"
begin

definition owns :: "handle set \<Rightarrow> 'c win_timer \<times> ('h, 'w) win_loop \<Rightarrow> bool" where
  "owns base = (\<lambda>(t, l). fileHandle (wt_event t) = INVALID_HANDLE_VALUE \<and> hEvent (wt_event t) \<notin> base \<and>
     timers (w_world l) = base \<union> (if hEvent (wt_event t) = 0 then {} else {hEvent (wt_event t)}))"

lemma delete_timer_owns:
  assumes "owns base st" "0 \<notin> base"
  shows "owns base (delete_timer env st) \<and> hEvent (wt_event (fst (delete_timer env st))) = 0"
  using assms delete by (cases st) (auto simp: owns_def delete_timer_def win_eraseEvent_def Let_def)

lemma set_owns:
  assumes "owns base st" "0 \<notin> base" "win_timer_set env p rep cb st = (r, st')"
  shows "owns base st'"
proof -
  obtain t l where d: "delete_timer env st = (t, l)" by fastforce
  have o: "owns base (t, l)" "hEvent (wt_event t) = 0" using delete_timer_owns [OF assms(1,2)] d by simp_all
  obtain res w where c: "k_create_timer env p (if rep then p else 0) (w_world l) = (res, w)" by fastforce
  show ?thesis
  proof (cases res)
    case None
    have "st' = (t\<lparr>wt_handler := cb\<rparr>, l\<lparr>w_world := w\<rparr>)"
      using assms(3) d c None by (simp add: win_timer_set_def Let_def)
    with create [OF c] o None show ?thesis by (simp add: owns_def)
  next
    case (Some h)
    have "st' = (t\<lparr>wt_handler := cb, wt_event := (wt_event t)\<lparr>hEvent := h\<rparr>\<rparr>,
        l\<lparr>w_world := w, w_infos := (w_infos l)(h \<mapsto> wt_process env)\<rparr>)"
      using o(1) assms(3) d c Some by (simp add: win_timer_set_def owns_def win_addEvent_def Let_def)
    with create [OF c] o Some show ?thesis by (simp add: owns_def)
  qed
qed

lemma call_owns:
  assumes "owns base st" "call_wt env fired st = (r, st')"
  shows "owns base st'"
proof (cases "wt_handler (fst st)")
  case None
  with assms show ?thesis by (simp add: call_wt_def)
next
  case (Some c)
  obtain t l where st: "st = (t, l)" by fastforce
  obtain ok t' l' where c: "run_wt env c fired (t, l) = (ok, t', l')" by (metis prod_cases3)
  have "st' = (t', l')" using assms(2) Some c by (simp add: call_wt_def st split: if_splits)
  with called [OF c] assms(1) show ?thesis by (simp add: owns_def st)
qed

end

text \<open>The operations of a timer, as a client and the event loop call them\<close>

datatype 'c timer_op = Set_Timer u32 bool "'c option" | Cancel_Timer | Process_Timer

fun win_timer_op ::
  "('c, 'h, 'w) win_timer_env \<Rightarrow> 'c timer_op \<Rightarrow> 'c win_timer \<times> ('h, 'w) win_loop \<Rightarrow> 'c win_timer \<times> ('h, 'w) win_loop" where
  "win_timer_op env (Set_Timer p rep cb) st = snd (win_timer_set env p rep cb st)"
| "win_timer_op env Cancel_Timer st = snd (win_timer_cancel env st)"
| "win_timer_op env Process_Timer st = snd (win_timer_process env st)"

context timer_queue
begin

lemma op_owns: "owns base st \<Longrightarrow> 0 \<notin> base \<Longrightarrow> owns base (win_timer_op env op st)"
  using set_owns [OF _ _ prod.collapse [symmetric]] call_owns [OF _ prod.collapse [symmetric]] delete_timer_owns
  by (cases op) (simp_all add: win_timer_cancel_def win_timer_process_def)

lemma ops_owns: "owns base st \<Longrightarrow> 0 \<notin> base \<Longrightarrow> owns base (fold (win_timer_op env) ops st)"
proof (induction ops arbitrary: st)
  case (Cons op ops)
  from Cons.IH [OF op_owns [OF Cons.prems]] Cons.prems(2) show ?case by simp
qed simp

lemma ops_destroy:
  assumes "0 \<notin> timers (w_world l)" and "st = fold (win_timer_op env) ops (win_timer_init l, l)"
  shows "timers (w_world (snd st)) = timers (w_world l) \<union>
      (if hEvent (wt_event (fst st)) = 0 then {} else {hEvent (wt_event (fst st))}) \<and>
    timers (w_world (win_timer_destroy env st)) = timers (w_world l)"
proof -
  have "owns (timers (w_world l)) (win_timer_init l, l)"
    using assms(1) by (simp add: owns_def win_timer_init_def win_event_init_def)
  with assms have o: "owns (timers (w_world l)) st" by (simp add: ops_owns)
  from delete_timer_owns [OF o assms(1)] o show ?thesis
    by (auto simp: owns_def win_timer_destroy_def split: prod.splits)
qed

end

section \<open>A port that computes\<close>

record port_world =
  p_posted :: "handle list"
  p_noted :: "nat list"
  p_timers :: "handle list"

text \<open>The callbacks are numbers; to be called is to be noted.\<close>

definition port_env :: "(nat, port_world) win_env" where
  "port_env = \<lparr>k_create_port = (\<lambda>w. (1, w)),
     k_get = (\<lambda>_ w. case p_posted w of [] \<Rightarrow> (Nothing, w) | key # ks \<Rightarrow> (Dequeued key, w\<lparr>p_posted := ks\<rparr>)),
     k_post = (\<lambda>_ key w. (True, w\<lparr>p_posted := p_posted w @ [key]\<rparr>)), k_associate = (\<lambda>_ _ _ w. (None, w)),
     k_close_handle = (\<lambda>_ w. w),
     win_run = (\<lambda>h l. (Returns 0, l\<lparr>w_world := (w_world l)\<lparr>p_noted := p_noted (w_world l) @ [h]\<rparr>\<rparr>))\<rparr>"

interpretation port: completion_port port_env p_posted p_noted
  by unfold_locales (auto simp: port_env_def intro: exI [of _ "0 :: int"])

definition new_timer :: "port_world \<Rightarrow> handle" where
  "new_timer w = fold max (p_timers w) 0 + 1"

lemma fold_max_int: "m \<le> fold max xs (m :: int) \<and> (\<forall>x\<in>set xs. x \<le> fold max xs m)"
proof (induction xs arbitrary: m)
  case (Cons x xs)
  from Cons [of "max x m"] show ?case by auto
qed simp

lemma new_timer: "new_timer w \<notin> set (p_timers w)" "0 < new_timer w"
proof -
  have "x < new_timer w" if "x \<in> set (p_timers w)" for x
    using fold_max_int [of 0 "p_timers w"] that by (auto simp: new_timer_def)
  then show "new_timer w \<notin> set (p_timers w)" by blast
  show "0 < new_timer w" using fold_max_int [of 0 "p_timers w"] by (simp add: new_timer_def)
qed

definition port_timers :: "(unit, nat, port_world) win_timer_env" where
  "port_timers = \<lparr>wt_loop = port_env, wt_process = 0,
     k_create_timer = (\<lambda>_ _ w. (Some (new_timer w), w\<lparr>p_timers := new_timer w # p_timers w\<rparr>)),
     k_delete_timer = (\<lambda>h w. w\<lparr>p_timers := removeAll h (p_timers w)\<rparr>), run_wt = (\<lambda>_ _ st. (True, st))\<rparr>"

text \<open>A loop beside a timer, 3, that belongs to somebody else\<close>

definition port_start :: "(nat, port_world) win_loop" where
  "port_start = \<lparr>m_completionPort = 1, w_infos = Map.empty, w_world = \<lparr>p_posted = [], p_noted = [], p_timers = [3]\<rparr>\<rparr>"

interpretation timers: timer_queue port_timers "\<lambda>w. set (p_timers w)"
  by unfold_locales (use new_timer in \<open>auto simp: port_timers_def less_le\<close>)

section \<open>Properties\<close>

text \<open>
  C18: the loop under Windows serves the completions in the order in which they were posted, each by
  one call of the callback that is registered for its key, ignores the keys without a callback, and
  returns 0 when it comes to the completion that \<open>stop\<close> has posted.
\<close>

theorem win_execute_serves:
  assumes "completion_port env posted noted" and "m_completionPort l \<noteq> 0"
    and "posted (w_world l) = ks" and "WSA_INVALID_EVENT \<notin> set ks"
  shows "\<exists>l'. win_execute env (win_stop env l) = Some (Returns 0, l') \<and> w_infos l' = w_infos l \<and>
    posted (w_world l') = [] \<and>
    noted (w_world l') = noted (w_world l) @ concat (map (\<lambda>key. case w_infos l key of None \<Rightarrow> [] | Some h \<Rightarrow> [h]) ks)"
proof -
  obtain ok w where p: "k_post env (m_completionPort l) WSA_INVALID_EVENT (w_world l) = (ok, w)" by fastforce
  from completion_port.post [OF assms(1) p] assms(3)
  have w: "posted w = ks @ [WSA_INVALID_EVENT]" "noted w = noted (w_world l)" by simp_all
  with completion_port.loop_serves [OF assms(1), of "l\<lparr>w_world := w\<rparr>" ks] assms(2,4) p show ?thesis
    by (auto simp: win_execute_def win_stop_def completion_port.handlers_of_def [OF assms(1)])
qed

theorem win_execute_serves_witness:
  "\<exists>l'. win_execute port_env (win_stop port_env \<lparr>m_completionPort = 1, w_infos = [4 \<mapsto> 40, 5 \<mapsto> 50],
      w_world = \<lparr>p_posted = [5, 4, 6, 5], p_noted = [], p_timers = []\<rparr>\<rparr>) = Some (Returns 0, l') \<and>
    p_noted (w_world l') = [50, 40, 50]"
  using win_execute_serves [OF port.completion_port_axioms, of "\<lparr>m_completionPort = 1, w_infos = [4 \<mapsto> 40, 5 \<mapsto> 50],
      w_world = \<lparr>p_posted = [5, 4, 6, 5], p_noted = [], p_timers = []\<rparr>\<rparr>" "[5, 4, 6, 5]"]
  by (auto simp: WSA_INVALID_EVENT_def)

text \<open>
  A notifier that is notified \<open>n\<close> times while nothing else is posted has its callback called
  exactly \<open>n\<close> times before the loop ends, as under Linux.
\<close>

theorem win_notifier_counts:
  assumes "completion_port env posted noted" and "m_completionPort l \<noteq> 0"
    and "posted (w_world l) = []" and "create_event (w_world l) = (h, w)"
    and "posted w = []" and "noted w = noted (w_world l)" and "h \<noteq> 0"
    and "win_notifier_init env create_event process l = (nf, l1)"
  shows "\<exists>l2. win_execute env (win_stop env (win_notify_times env nf n l1)) = Some (Returns 0, l2) \<and>
    noted (w_world l2) = noted (w_world l) @ replicate n process"
proof -
  have l1: "hEvent (wn_event nf) = h" "m_completionPort l1 = m_completionPort l" "w_infos l1 h = Some process" "w_world l1 = w"
    using assms(4,8) by (auto simp: win_notifier_init_def win_addEvent_def win_event_init_def Let_def)
  obtain w2 where w2: "win_notify_times env nf n l1 = l1\<lparr>w_world := w2\<rparr>" "noted w2 = noted w" "posted w2 = replicate n h"
    using completion_port.notifies_post [OF assms(1), of nf n l1] l1 assms(5) by auto
  obtain ok w3 where p: "k_post env (m_completionPort l) WSA_INVALID_EVENT w2 = (ok, w3)" by fastforce
  from completion_port.post [OF assms(1) p] w2
  have w3: "posted w3 = replicate n h @ [WSA_INVALID_EVENT]" "noted w3 = noted w" by simp_all
  have "concat (map (\<lambda>key. case w_infos l1 key of None \<Rightarrow> [] | Some h \<Rightarrow> [h]) (replicate n h)) = replicate n process"
    using l1(3) by (induction n) simp_all
  with completion_port.loop_serves [OF assms(1), of "l1\<lparr>w_world := w3\<rparr>" "replicate n h"] w2 w3 p l1 assms(2,6,7)
  show ?thesis
    by (auto simp: win_execute_def win_stop_def completion_port.handlers_of_def [OF assms(1)] WSA_INVALID_EVENT_def)
qed

theorem win_notifier_counts_witness:
  "\<exists>(nf :: unit win_notifier) l1 l2. win_notifier_init port_env (\<lambda>w. (7, w)) 9 (win_init port_env \<lparr>p_posted = [], p_noted = [], p_timers = []\<rparr>) = (nf, l1) \<and>
    win_execute port_env (win_stop port_env (win_notify_times port_env nf 3 l1)) = Some (Returns 0, l2) \<and>
    p_noted (w_world l2) = [9, 9, 9]"
proof -
  let ?l = "win_init port_env \<lparr>p_posted = [], p_noted = [], p_timers = []\<rparr>"
  have l: "m_completionPort ?l = 1" "w_world ?l = \<lparr>p_posted = [], p_noted = [], p_timers = []\<rparr>"
    by (simp_all add: win_init_def port_env_def)
  obtain nf l1 where i: "win_notifier_init port_env (\<lambda>w. (7, w)) 9 ?l = (nf :: unit win_notifier, l1)" by fastforce
  from win_notifier_counts [OF port.completion_port_axioms _ _ _ _ _ _ i, of 7 "w_world ?l" 3] i l show ?thesis
    by (simp add: numeral_3_eq_3)
qed

text \<open>
  C19: a callback that takes its own registration out of the event loop and returns more than 0, to be
  called again, makes the inner loop spin: its completion is never done with, and \<open>execute\<close> does not
  come back. Under Linux this ends.
\<close>

theorem win_erasing_callback_spins:
  assumes "w_infos l key = Some h" and "win_run env h l = (Returns n, l')" and "0 < n" and "w_infos l' key = None"
    and "k_get env (m_completionPort l0) (w_world l0) = (Dequeued key, w)" and "l = l0\<lparr>w_world := w\<rparr>"
    and "key \<noteq> WSA_INVALID_EVENT" and "m_completionPort l0 \<noteq> 0"
  shows "win_execute env l0 = None"
proof -
  have "win_dispatch env key 0 l = None"
    using assms(1-3) win_dispatch_spins [OF assms(4,3)] by (simp add: win_dispatch.simps [of env key 0 l])
  with assms(5-8) show ?thesis by (simp add: win_execute_def win_loop_from.simps [of env l0])
qed

theorem win_erasing_callback_spins_witness:
  "win_execute (port_env\<lparr>win_run := (\<lambda>h l. (Returns 1, l\<lparr>w_infos := Map.empty\<rparr>))\<rparr>)
    \<lparr>m_completionPort = 1, w_infos = [4 \<mapsto> 40], w_world = \<lparr>p_posted = [4], p_noted = [], p_timers = []\<rparr>\<rparr> = None"
  by (rule win_erasing_callback_spins [where key = 4 and h = 40 and n = 1 and w = "\<lparr>p_posted = [], p_noted = [], p_timers = []\<rparr>"
      and l' = "\<lparr>m_completionPort = 1, w_infos = Map.empty, w_world = \<lparr>p_posted = [], p_noted = [], p_timers = []\<rparr>\<rparr>"])
    (simp_all add: port_env_def WSA_INVALID_EVENT_def)

text \<open>
  C20: whatever sequence of setting, canceling and firing a timer goes through, it owns exactly one
  timer of the timer queue when its handle is set, and none otherwise; the timers of others are left
  alone, and the destructor gives back what the timer owns.
\<close>

theorem win_timer_owns_one:
  assumes "timer_queue env timers" and "0 \<notin> timers (w_world l)"
    and "fold (win_timer_op env) ops (win_timer_init l, l) = (t, l')"
  shows "timers (w_world l') = timers (w_world l) \<union> (if hEvent (wt_event t) = 0 then {} else {hEvent (wt_event t)}) \<and>
    timers (w_world (win_timer_destroy env (t, l'))) = timers (w_world l)"
  using timer_queue.ops_destroy [OF assms(1,2) refl, of ops] assms(3) by simp

theorem win_timer_owns_one_witness:
  "\<exists>t l'. fold (win_timer_op port_timers) [Set_Timer 5 True None, Set_Timer 7 False (Some ()), Process_Timer]
      (win_timer_init port_start, port_start) = (t, l') \<and>
    set (p_timers (w_world (win_timer_destroy port_timers (t, l')))) = {3}"
proof -
  obtain t l' where f: "fold (win_timer_op port_timers) [Set_Timer 5 True None, Set_Timer 7 False (Some ()), Process_Timer]
      (win_timer_init port_start, port_start) = (t, l')" by fastforce
  have "0 \<notin> set (p_timers (w_world port_start))" by (simp add: port_start_def)
  from win_timer_owns_one [OF timers.timer_queue_axioms this f]
  have "set (p_timers (w_world (win_timer_destroy port_timers (t, l')))) = {3}" by (simp add: port_start_def)
  with f show ?thesis by blast
qed

end
