(* ===== verification/Netadapter_List.thy ===== *)
theory Netadapter_List
  imports Ipv4_Address Ipv6_Address
begin

text \<open>
  The list of network adapters under Linux (\<^verbatim>\<open>lib/communication/linux/netadapterlist.cpp\<close>,
  \<^verbatim>\<open>linux/netadapter.cpp\<close>): what \<open>update\<close> makes of the interfaces and addresses the kernel tells, and
  the queries on the list. The \<open>std::map\<close> from interface indexes to adapters is a list sorted by the
  key, the order in which the code goes through it. The kernel's tables are parameters.
\<close>

section \<open>State\<close>

record Netadapter =
  m_name :: string
  m_ipv4Addresses :: "Ipv4Address list"
  m_ipv6Addresses :: "Ipv6Address list"
  m_macAddress :: string
  m_fwGuid :: u64
  m_index :: u32
  m_masterIndex :: int

definition Netadapter_init :: Netadapter where
  "Netadapter_init = \<lparr>m_name = [], m_ipv4Addresses = [], m_ipv6Addresses = [], m_macAddress = [],
     m_fwGuid = 0, m_index = 0, m_masterIndex = -1\<rparr>"

definition isFirewireAdapter :: "Netadapter \<Rightarrow> bool" where
  "isFirewireAdapter a = (if m_fwGuid a \<noteq> 0 then True else False)"

type_synonym Adapters = "(u32 \<times> Netadapter) list"

text \<open>An entry of the list \<open>getifaddrs\<close> makes\<close>

datatype if_addr = Inet u32 | Inet6 bytes | Other_family nat

record ifaddr =
  ifa_name :: string
  ifa_flags :: u32
  ifa_addr :: "if_addr option"
  ifa_netmask4 :: u32
  ifa_netmask6 :: bytes

definition IFF_MULTICAST :: u32 where "IFF_MULTICAST = 0x1000"
definition ARPHRD_ETHER :: nat where "ARPHRD_ETHER = 1"
definition ARPHRD_FIREWIRE :: nat where "ARPHRD_FIREWIRE = 24"

text \<open>
  The tables of the kernel: a socket for the queries, the result of \<open>SIOCGIFHWADDR\<close> with the address
  family and 16 bytes from \<open>sa_data\<close> on, the index of an interface, and the number in the file with
  the index of the master, if it exists.
\<close>

record if_env =
  hw_socket :: bool
  hw_ioctl :: "string \<Rightarrow> int \<times> nat \<times> bytes"
  if_index :: "string \<Rightarrow> u32"
  master_file :: "string \<Rightarrow> int option"
  if_pton :: "string \<Rightarrow> u32 option"
  if_ntop6 :: "bytes \<Rightarrow> string"

section \<open>Hardware addresses\<close>

record hardwareInfo =
  hwAddrString :: string
  fwGuid :: u64
  isHardware :: bool

definition hardwareInfo_init :: hardwareInfo where
  "hardwareInfo_init = \<lparr>hwAddrString = [], fwGuid = 0, isHardware = False\<rparr>"

text \<open>The elements of \<open>sa_data\<close> are of the type \<open>char\<close>, so the cast extends their sign.\<close>

definition guid_step :: "u8 \<Rightarrow> u64 \<Rightarrow> u64" where
  "guid_step b g = push_bit 8 g OR scast b"

definition guid_of :: "bytes \<Rightarrow> u64" where
  "guid_of sa_data = fold guid_step (take 8 sa_data) 0"

definition upper_hex :: "nat \<Rightarrow> char" where
  "upper_hex d = (if d < 10 then char_of (48 + d) else char_of (55 + d))"

definition hex2 :: "u8 \<Rightarrow> string" where
  "hex2 b = [upper_hex (unat b div 16), upper_hex (unat b mod 16)]"

fun hw_address :: "bytes \<Rightarrow> string" where
  "hw_address [] = []"
| "hw_address [b] = hex2 b"
| "hw_address (b # bs) = hex2 b @ '':'' @ hw_address bs"

text \<open>The test of the result of \<open>ioctl\<close> is for 1.\<close>

definition getHardwareInfo :: "if_env \<Rightarrow> string \<Rightarrow> hardwareInfo" where
  "getHardwareInfo env interfaceName =
     (let result = hardwareInfo_init in
      if \<not> hw_socket env then result
      else case hw_ioctl env (take 15 interfaceName) of (r, sa_family, sa_data) \<Rightarrow>
        if r = 1 then result
        else
          (let (macLen, result) =
             (if sa_family = ARPHRD_ETHER then (6, result\<lparr>isHardware := True\<rparr>)
              else if sa_family = ARPHRD_FIREWIRE then (16, result\<lparr>isHardware := True, fwGuid := guid_of sa_data\<rparr>)
              else (0, result))
           in result\<lparr>hwAddrString := hw_address (take macLen sa_data)\<rparr>))"

section \<open>Updating\<close>

text \<open>\<open>adapterMap[key]\<close>, changed\<close>

fun map_put :: "'k :: linorder \<Rightarrow> 'v \<Rightarrow> ('k \<times> 'v) list \<Rightarrow> ('k \<times> 'v) list" where
  "map_put k v [] = [(k, v)]"
| "map_put k v ((k', v') # m) =
     (if k < k' then (k, v) # (k', v') # m else if k = k' then (k, v) # m else (k', v') # map_put k v m)"

text \<open>The bits of one byte of the netmask, with \<open>n\<close> turns left\<close>

fun count_bits :: "nat \<Rightarrow> u8 \<Rightarrow> u8 \<Rightarrow> nat" where
  "count_bits 0 bitmask byte = 0"
| "count_bits (Suc n) bitmask byte = (if byte AND bitmask \<noteq> 0 then 1 else 0) + count_bits n (push_bit 1 bitmask) byte"

fun prefix_bits :: "bytes \<Rightarrow> nat" where
  "prefix_bits [] = 0"
| "prefix_bits (byte # bytes) = (if byte = 0 then 0 else count_bits 8 1 byte + prefix_bits bytes)"

definition add_address :: "if_env \<Rightarrow> ifaddr \<Rightarrow> Netadapter \<Rightarrow> Netadapter" where
  "add_address env e a =
     (case ifa_addr e of
        Some (Inet x) \<Rightarrow>
          (let awn = \<lparr>address = dotted x, netmask = dotted (ifa_netmask4 e)\<rparr> in
           if isApipaAddress (if_pton env) (address awn) then a\<lparr>m_ipv4Addresses := m_ipv4Addresses a @ [awn]\<rparr>
           else a\<lparr>m_ipv4Addresses := awn # m_ipv4Addresses a\<rparr>)
      | Some (Inet6 bs) \<Rightarrow>
          a\<lparr>m_ipv6Addresses := m_ipv6Addresses a @
            [\<lparr>ip6_address = if_ntop6 env bs, ip6_prefix = of_nat (prefix_bits (ifa_netmask6 e))\<rparr>]\<rparr>
      | _ \<Rightarrow> a)"

text \<open>What is filled in once per interface, and the index of the master\<close>

definition identify :: "if_env \<Rightarrow> ifaddr \<Rightarrow> hardwareInfo \<Rightarrow> u32 \<Rightarrow> Netadapter \<Rightarrow> Netadapter" where
  "identify env e hw interfaceIndex Adapt =
     (if m_macAddress Adapt = [] then
        Adapt\<lparr>m_index := interfaceIndex, m_name := ifa_name e, m_macAddress := hwAddrString hw, m_fwGuid := fwGuid hw\<rparr>
      else Adapt)"

definition read_master :: "if_env \<Rightarrow> Netadapter \<Rightarrow> Netadapter" where
  "read_master env Adapt =
     (case master_file env (''/sys/class/net/'' @ m_name Adapt @ ''/master/ifindex'') of
        None \<Rightarrow> Adapt | Some i \<Rightarrow> Adapt\<lparr>m_masterIndex := i\<rparr>)"

definition add_interface :: "if_env \<Rightarrow> ifaddr \<Rightarrow> Adapters \<Rightarrow> Adapters" where
  "add_interface env e adapterMap =
     (if ifa_addr e = None then adapterMap
      else if ifa_flags e AND IFF_MULTICAST = 0 then adapterMap
      else
        (let hw = getHardwareInfo env (ifa_name e) in
         if \<not> isHardware hw then adapterMap
         else
           (let interfaceIndex = if_index env (ifa_name e);
                Adapt = (case map_of adapterMap interfaceIndex of None \<Rightarrow> Netadapter_init | Some a \<Rightarrow> a);
                Adapt = identify env e hw interfaceIndex Adapt;
                Adapt = read_master env Adapt
            in map_put interfaceIndex (add_address env e Adapt) adapterMap)))"

text \<open>\<^term>\<open>None\<close> is a failing \<open>getifaddrs\<close>.\<close>

definition update :: "if_env \<Rightarrow> ifaddr list option \<Rightarrow> Adapters \<Rightarrow> Adapters" where
  "update env interfaces adapters =
     (case interfaces of None \<Rightarrow> adapters | Some es \<Rightarrow> fold (add_interface env) es [])"

definition NetadapterList_init :: "if_env \<Rightarrow> ifaddr list option \<Rightarrow> Adapters" where
  "NetadapterList_init env interfaces = update env interfaces []"

section \<open>Queries\<close>

definition getArray :: "Adapters \<Rightarrow> Netadapter list" where
  "getArray adapters = map snd adapters"

fun getAdapterByName :: "Adapters \<Rightarrow> string \<Rightarrow> string + Netadapter" where
  "getAdapterByName [] adapterName = Inl ''invalid interface''"
| "getAdapterByName ((_, a) # adapters) adapterName =
     (if m_name a = adapterName then Inr a else getAdapterByName adapters adapterName)"

definition getAdapterByInterfaceIndex :: "Adapters \<Rightarrow> u32 \<Rightarrow> string + Netadapter" where
  "getAdapterByInterfaceIndex adapters interfaceIndex =
     (case map_of adapters interfaceIndex of None \<Rightarrow> Inl ''invalid interface'' | Some a \<Rightarrow> Inr a)"

fun occupied :: "string \<Rightarrow> Ipv4Address list \<Rightarrow> std_exn + bool" where
  "occupied requestedSubnet [] = Inr False"
| "occupied requestedSubnet (a # addresses) =
     (case getSubnet a of Inl e \<Rightarrow> Inl e | Inr subnet \<Rightarrow>
      if requestedSubnet = subnet then Inr True else occupied requestedSubnet addresses)"

fun checkSubnet_loop :: "string \<Rightarrow> string \<Rightarrow> Adapters \<Rightarrow> std_exn + string" where
  "checkSubnet_loop excludeAdapterName requestedSubnet [] = Inr []"
| "checkSubnet_loop excludeAdapterName requestedSubnet ((_, adapter) # adapters) =
     (if excludeAdapterName \<noteq> m_name adapter then
        (case occupied requestedSubnet (m_ipv4Addresses adapter) of Inl e \<Rightarrow> Inl e | Inr taken \<Rightarrow>
         if taken then Inr (m_name adapter) else checkSubnet_loop excludeAdapterName requestedSubnet adapters)
      else checkSubnet_loop excludeAdapterName requestedSubnet adapters)"

definition checkSubnet :: "Adapters \<Rightarrow> string \<Rightarrow> Ipv4Address \<Rightarrow> std_exn + string" where
  "checkSubnet adapters excludeAdapterName requestedAddress =
     (case getSubnet requestedAddress of Inl e \<Rightarrow> Inl e | Inr requestedSubnet \<Rightarrow>
      checkSubnet_loop excludeAdapterName requestedSubnet adapters)"

section \<open>The sorted map\<close>

abbreviation sorted_keys :: "('k :: linorder \<times> 'v) list \<Rightarrow> bool" where
  "sorted_keys m \<equiv> sorted_wrt (<) (map fst m)"

lemma map_put_keys: "fst ` set (map_put k v m) = insert k (fst ` set m)"
  by (induction k v m rule: map_put.induct) auto

lemma map_put_sorted: "sorted_keys m \<Longrightarrow> sorted_keys (map_put k v m)"
proof (induction k v m rule: map_put.induct)
  case (2 k v k' v' m)
  have "\<forall>x\<in>fst ` set (map_put k v m). x = k \<or> x \<in> fst ` set m" using map_put_keys [of k v m] by blast
  with 2 show ?case by (auto simp: image_iff) fastforce+
qed simp

lemma map_put_lookup: "sorted_keys m \<Longrightarrow> map_of (map_put k v m) = (map_of m)(k \<mapsto> v)"
proof (induction k v m rule: map_put.induct)
  case (2 k v k' v' m)
  then show ?case by (auto simp: fun_eq_iff)
qed simp

lemma map_put_set: "sorted_keys m \<Longrightarrow> set (map_put k v m) = insert (k, v) {p \<in> set m. fst p \<noteq> k}"
proof (induction k v m rule: map_put.induct)
  case (2 k v k' v' m)
  then show ?case by (auto simp: image_iff)
qed auto

section \<open>The invariant of the list\<close>

text \<open>Addresses outside 169.254.0.0/16 come first.\<close>

definition apipa_last :: "(string \<Rightarrow> u32 option) \<Rightarrow> Ipv4Address list \<Rightarrow> bool" where
  "apipa_last pton addrs \<longleftrightarrow> (\<exists>as bs. addrs = as @ bs \<and>
     (\<forall>x\<in>set as. \<not> isApipaAddress pton (address x)) \<and> (\<forall>x\<in>set bs. isApipaAddress pton (address x)))"

lemma apipa_last_Nil [simp]: "apipa_last pton []"
  by (simp add: apipa_last_def)

lemma apipa_last_front: "apipa_last pton addrs \<Longrightarrow> \<not> isApipaAddress pton (address a) \<Longrightarrow> apipa_last pton (a # addrs)"
  unfolding apipa_last_def by (metis append_Cons set_ConsD)

lemma apipa_last_back:
  assumes "apipa_last pton addrs" "isApipaAddress pton (address a)"
  shows "apipa_last pton (addrs @ [a])"
proof -
  obtain as bs where "addrs = as @ bs" "\<forall>x\<in>set as. \<not> isApipaAddress pton (address x)"
      "\<forall>x\<in>set bs. isApipaAddress pton (address x)"
    using assms(1) by (auto simp: apipa_last_def)
  with assms(2) show ?thesis unfolding apipa_last_def by (intro exI [of _ as] exI [of _ "bs @ [a]"]) simp
qed

text \<open>The first address is of 169.254.0.0/16 only when all are.\<close>

lemma apipa_last_hd:
  assumes "apipa_last pton (a # addrs)" "isApipaAddress pton (address a)" "x \<in> set (a # addrs)"
  shows "isApipaAddress pton (address x)"
proof -
  obtain as bs where s: "a # addrs = as @ bs" "\<forall>x\<in>set as. \<not> isApipaAddress pton (address x)"
      "\<forall>x\<in>set bs. isApipaAddress pton (address x)"
    using assms(1) by (auto simp: apipa_last_def)
  then have "as = []" using assms(2) by (cases as) auto
  with s assms(3) show ?thesis by auto
qed

definition dotted_address :: "Ipv4Address \<Rightarrow> bool" where
  "dotted_address a \<longleftrightarrow> (\<exists>x n. a = \<lparr>address = dotted x, netmask = dotted n\<rparr>)"

definition adapter_ok :: "(string \<Rightarrow> u32 option) \<Rightarrow> u32 \<times> Netadapter \<Rightarrow> bool" where
  "adapter_ok pton = (\<lambda>(k, a). m_index a = k \<and> m_macAddress a \<noteq> [] \<and> apipa_last pton (m_ipv4Addresses a) \<and>
     (\<forall>x\<in>set (m_ipv4Addresses a). dotted_address x))"

definition adapters_ok :: "(string \<Rightarrow> u32 option) \<Rightarrow> Adapters \<Rightarrow> bool" where
  "adapters_ok pton m \<longleftrightarrow> sorted_keys m \<and> (\<forall>p\<in>set m. adapter_ok pton p)"

definition hw_data :: "if_env \<Rightarrow> bool" where
  "hw_data env \<longleftrightarrow> (\<forall>n. length (snd (snd (hw_ioctl env n))) = 16)"

lemma hw_address_empty: "hw_address bs = [] \<longleftrightarrow> bs = []"
  by (cases bs rule: hw_address.cases) (auto simp: hex2_def)

lemma hardware_mac:
  assumes "hw_data env" "isHardware (getHardwareInfo env n)"
  shows "hwAddrString (getHardwareInfo env n) \<noteq> []"
proof -
  obtain r f d where h: "hw_ioctl env (take 15 n) = (r, f, d)" by (metis prod_cases3)
  have "length d = 16" using assms(1) h unfolding hw_data_def by (metis snd_conv)
  then have "take 6 d \<noteq> []" "take 16 d \<noteq> []" by auto
  with h assms(2) show ?thesis
    by (auto simp: getHardwareInfo_def hardwareInfo_init_def hw_address_empty Let_def split: if_splits)
qed

lemma add_address_ok: "adapter_ok (if_pton env) (k, a) \<Longrightarrow> adapter_ok (if_pton env) (k, add_address env e a)"
  by (auto simp: adapter_ok_def add_address_def dotted_address_def Let_def
      intro: apipa_last_front apipa_last_back split: option.splits if_addr.splits)

lemma add_interface_ok:
  assumes hw: "hw_data env" and m: "adapters_ok (if_pton env) m"
  shows "adapters_ok (if_pton env) (add_interface env e m)"
proof (cases "ifa_addr e = None \<or> ifa_flags e AND IFF_MULTICAST = 0 \<or> \<not> isHardware (getHardwareInfo env (ifa_name e))")
  case True
  with m show ?thesis by (auto simp: add_interface_def)
next
  case False
  define k where "k = if_index env (ifa_name e)"
  define a0 where "a0 = (case map_of m k of None \<Rightarrow> Netadapter_init | Some a \<Rightarrow> a)"
  define a1 where "a1 = identify env e (getHardwareInfo env (ifa_name e)) k a0"
  define a2 where "a2 = read_master env a1"
  have new: "add_interface env e m = map_put k (add_address env e a2) m"
    using False by (auto simp: add_interface_def k_def a0_def a1_def a2_def Let_def)
  have "a0 = Netadapter_init \<or> adapter_ok (if_pton env) (k, a0)"
    using m by (auto simp: a0_def adapters_ok_def dest: map_of_SomeD split: option.split)
  then have "adapter_ok (if_pton env) (k, a1)"
    using hardware_mac [OF hw, of "ifa_name e"] False
    by (auto simp: a1_def identify_def adapter_ok_def Netadapter_init_def)
  then have "adapter_ok (if_pton env) (k, a2)" by (auto simp: a2_def read_master_def adapter_ok_def split: option.split)
  from add_address_ok [OF this] m show ?thesis
    unfolding new adapters_ok_def by (auto simp: map_put_sorted map_put_set)
qed

lemma add_interfaces_ok:
  "hw_data env \<Longrightarrow> adapters_ok (if_pton env) m \<Longrightarrow> adapters_ok (if_pton env) (fold (add_interface env) es m)"
  by (induction es arbitrary: m) (auto intro: add_interface_ok)

lemma update_ok: "hw_data env \<Longrightarrow> adapters_ok (if_pton env) m \<Longrightarrow> adapters_ok (if_pton env) (update env es m)"
  by (auto simp: update_def adapters_ok_def [of _ "[]"] intro: add_interfaces_ok split: option.split)

section \<open>Subnets\<close>

section \<open>Subnets\<close>

lemma occupied_dotted:
  assumes "\<forall>x\<in>set xs. dotted_address x"
  shows "occupied (dotted s) xs = Inr (\<exists>a m. \<lparr>address = dotted a, netmask = dotted m\<rparr> \<in> set xs \<and> a AND m = s)"
  using assms
proof (induction xs)
  case (Cons x xs)
  then obtain a m where x: "x = \<lparr>address = dotted a, netmask = dotted m\<rparr>" by (auto simp: dotted_address_def)
  have "getSubnet x = Inr (dotted (a AND m))" by (rule getSubnet_dotted) (simp_all add: x)
  moreover have "dotted s = dotted (a AND m) \<longleftrightarrow> a AND m = s" by (auto dest: dotted_inject)
  ultimately show ?case using Cons x by (auto dest: dotted_inject)
qed simp

lemma checkSubnet_loop_find:
  assumes "\<forall>p\<in>set m. \<forall>x\<in>set (m_ipv4Addresses (snd p)). dotted_address x"
  shows "checkSubnet_loop ex (dotted s) m = Inr (case find (\<lambda>(_, ad). m_name ad \<noteq> ex \<and>
      (\<exists>a n. \<lparr>address = dotted a, netmask = dotted n\<rparr> \<in> set (m_ipv4Addresses ad) \<and> a AND n = s)) m of
    None \<Rightarrow> [] | Some (_, ad) \<Rightarrow> m_name ad)"
  using assms by (induction ex "dotted s" m rule: checkSubnet_loop.induct) (auto simp: occupied_dotted)

section \<open>Prefix lengths and identifiers\<close>

text \<open>The bytes of the netmask of a prefix of \<open>p\<close> bits\<close>

definition high_bits :: "nat \<Rightarrow> u8" where
  "high_bits n = NOT (mask (8 - n))"

definition mask6 :: "nat \<Rightarrow> bytes" where
  "mask6 p = map (\<lambda>i. high_bits (min 8 (p - 8 * i))) [0..<16]"

lemma count_high_bits: "n \<le> 8 \<Longrightarrow> count_bits 8 1 (high_bits n) = n \<and> (high_bits n = 0 \<longleftrightarrow> n = 0)"
proof -
  have "\<forall>n\<in>set [0..<9]. count_bits 8 1 (high_bits n) = n \<and> (high_bits n = 0 \<longleftrightarrow> n = 0)" by code_simp
  then show "n \<le> 8 \<Longrightarrow> ?thesis" by simp
qed

lemma prefix_bits_map: "prefix_bits (map (\<lambda>i. high_bits (min 8 (p - 8 * i))) [k..<k + n]) = min (8 * n) (p - 8 * k)"
proof (induction n arbitrary: k)
  case (Suc n)
  have "prefix_bits (map (\<lambda>i. high_bits (min 8 (p - 8 * i))) [Suc k..<Suc k + n]) = min (8 * n) (p - 8 * Suc k)"
    by (rule Suc)
  moreover have "[k..<k + Suc n] = k # [Suc k..<Suc k + n]" by (simp add: upt_rec)
  ultimately show ?case using count_high_bits [of "min 8 (p - 8 * k)"] by (auto simp: min_def)
qed simp

text \<open>The bits of the identifier: the sign of a byte shows in all bits above it.\<close>

lemma bit_guid_step:
  "n < 64 \<Longrightarrow> bit (guid_step b g) n \<longleftrightarrow> (if n < 8 then bit b n else bit g (n - 8) \<or> bit b 7)"
  by (cases "n = 7") (auto simp: guid_step_def bit_or_iff bit_push_bit_iff bit_signed_iff min_def not_less)

lemma bit_guid_fold:
  "n < 64 \<Longrightarrow> bit (fold guid_step bs g) n \<longleftrightarrow>
    (if n div 8 < length bs then bit (rev bs ! (n div 8)) (n mod 8) \<or> (\<exists>i < n div 8. bit (rev bs ! i) 7)
     else (\<exists>i < length bs. bit (rev bs ! i) 7) \<or> bit g (n - 8 * length bs))"
proof (induction bs arbitrary: n rule: rev_induct)
  case (snoc b bs)
  show ?case
  proof (cases "n < 8")
    case True
    then show ?thesis using snoc.prems by (simp add: bit_guid_step)
  next
    case False
    then obtain m where m: "n = m + 8" by (metis add.commute le_add_diff_inverse not_less)
    have ex: "(\<exists>i < Suc k. bit ((b # rev bs) ! i) 7) \<longleftrightarrow> bit b 7 \<or> (\<exists>i < k. bit (rev bs ! i) 7)" for k
      by (auto simp: less_Suc_eq_0_disj)
    from snoc.IH [of m] snoc.prems show ?thesis by (auto simp: m bit_guid_step ex)
  qed
qed simp

lemma bit7_iff: "bit (b :: u8) 7 \<longleftrightarrow> 128 \<le> b"
proof -
  have b: "unat b < 256" using unsigned_less [of b] by simp
  have "bit b 7 \<longleftrightarrow> bit (unat b) 7" by (simp add: bit_unsigned_iff)
  then have "bit b 7 \<longleftrightarrow> odd (unat b div 128)" by (simp add: bit_iff_odd)
  moreover have "unat b div 128 = (if 128 \<le> unat b then 1 else 0)" using b by (auto simp: div_eq_dividend_iff)
  ultimately show ?thesis by (simp add: word_le_nat_alt)
qed

section \<open>A machine with three interfaces\<close>

text \<open>The parser of addresses accepts every text here.\<close>

definition desk :: if_env where
  "desk = \<lparr>hw_socket = True,
     hw_ioctl = (\<lambda>n. if n = ''lo'' then (0, 772, replicate 16 0) else (0, 1, [0, 0x1b, 0x21, 0xa0, 0xb1, of_char (last n)] @ replicate 10 0)),
     if_index = (\<lambda>n. if n = ''eth0'' then 2 else if n = ''eth1'' then 3 else 1), master_file = (\<lambda>_. None),
     if_pton = Some \<circ> of_nat \<circ> length, if_ntop6 = (\<lambda>_. ''::1'')\<rparr>"

definition desk_ifs :: "ifaddr list" where
  "desk_ifs = [\<lparr>ifa_name = ''eth1'', ifa_flags = 0x1000, ifa_addr = Some (Inet 0xA9FE0102), ifa_netmask4 = 0xFFFF0000, ifa_netmask6 = []\<rparr>,
     \<lparr>ifa_name = ''eth0'', ifa_flags = 0x1000, ifa_addr = Some (Inet 0x0A010203), ifa_netmask4 = 0xFFFFFF00, ifa_netmask6 = []\<rparr>,
     \<lparr>ifa_name = ''eth1'', ifa_flags = 0x1000, ifa_addr = Some (Inet 0xC0A80005), ifa_netmask4 = 0xFFFF0000, ifa_netmask6 = []\<rparr>]"

lemma desk_addresses:
  "map (\<lambda>(k, a). (k, map address (m_ipv4Addresses a))) (update desk (Some desk_ifs) []) =
    [(2, [''10.1.2.3'']), (3, [''192.168.0.5'', ''169.254.1.2''])]"
  by code_simp

lemma desk_hw_data: "hw_data desk"
  by (simp add: hw_data_def desk_def)

section \<open>Properties\<close>



text \<open>
  \<open>checkSubnet\<close> on an updated list is the search for the first adapter, in the order of the
  interface indexes and except the excluded one, that has an address whose subnet is that of the
  requested address; it gives its name, or the empty string when there is none, and never throws.
\<close>

theorem checkSubnet_first:
  assumes "hw_data env" and "adapters = update env (Some interfaces) m"
  shows "checkSubnet adapters ex \<lparr>address = dotted r, netmask = dotted s\<rparr> =
    Inr (case find (\<lambda>(_, ad). m_name ad \<noteq> ex \<and>
        (\<exists>a n. \<lparr>address = dotted a, netmask = dotted n\<rparr> \<in> set (m_ipv4Addresses ad) \<and> a AND n = r AND s)) adapters of
      None \<Rightarrow> [] | Some (_, ad) \<Rightarrow> m_name ad)"
proof -
  have "adapters_ok (if_pton env) adapters"
    using add_interfaces_ok [OF assms(1), of "[]" interfaces] by (simp add: assms(2) update_def adapters_ok_def)
  then have "\<forall>p\<in>set adapters. \<forall>x\<in>set (m_ipv4Addresses (snd p)). dotted_address x"
    by (auto simp: adapters_ok_def adapter_ok_def)
  with checkSubnet_loop_find [of adapters ex "r AND s"] show ?thesis
    by (simp add: checkSubnet_def getSubnet_dotted [of "\<lparr>address = dotted r, netmask = dotted s\<rparr>" r s])
qed

theorem checkSubnet_first_witness:
  "\<exists>r. checkSubnet (update desk (Some desk_ifs) []) ''eth1'' \<lparr>address = dotted 0xC0A80001, netmask = dotted 0xFFFF0000\<rparr> = Inr r"
  using checkSubnet_first [OF desk_hw_data refl, where ex = "''eth1''" and r = "0xC0A80001" and s = "0xFFFF0000"] by blast

text \<open>
  The prefix length that \<open>update\<close> counts in the netmask of an IPv6 address is the right one for
  every prefix length.
\<close>

theorem prefix_bits_mask:
  assumes "p \<le> 128"
  shows "prefix_bits (mask6 p) = p \<and> length (mask6 p) = 16"
  using prefix_bits_map [of p 0 16] assms by (simp add: mask6_def)

theorem prefix_bits_mask_witness: "prefix_bits (mask6 67) = 67"
  using prefix_bits_mask [of 67] by simp

text \<open>
  C22: the FireWire identifier of a hardware address, bit by bit. A bit is that of the byte of the
  address it belongs to, in network order, but it is also set whenever a byte of lower value has its
  highest bit set, since the bytes are extended with their sign.
\<close>

theorem guid_sign_extension:
  assumes "8 \<le> length sa_data" and "n < 64"
  shows "bit (guid_of sa_data) n \<longleftrightarrow>
    bit (sa_data ! (7 - n div 8)) (n mod 8) \<or> (\<exists>j. 7 - n div 8 < j \<and> j \<le> 7 \<and> 128 \<le> sa_data ! j)"
proof -
  let ?bs = "take 8 sa_data"
  have len: "length ?bs = 8" using assms(1) by simp
  have nth: "rev ?bs ! i = sa_data ! (7 - i)" if "i < 8" for i
    using that len by (simp add: rev_nth)
  have k: "n div 8 < 8" using assms(2) by (simp add: div_less_iff_less_mult)
  have "bit (guid_of sa_data) n \<longleftrightarrow> bit (rev ?bs ! (n div 8)) (n mod 8) \<or> (\<exists>i < n div 8. bit (rev ?bs ! i) 7)"
    using bit_guid_fold [OF assms(2), of ?bs 0, unfolded len] k unfolding guid_of_def by (simp only: if_True)
  also have "(\<exists>i < n div 8. bit (rev ?bs ! i) 7) \<longleftrightarrow> (\<exists>j. 7 - n div 8 < j \<and> j \<le> 7 \<and> 128 \<le> sa_data ! j)"
  proof
    assume "\<exists>i < n div 8. bit (rev ?bs ! i) 7"
    then obtain i where "i < n div 8" "bit (rev ?bs ! i) 7" by blast
    then show "\<exists>j. 7 - n div 8 < j \<and> j \<le> 7 \<and> 128 \<le> sa_data ! j"
      using k nth [of i] by (intro exI [of _ "7 - i"]) (auto simp: bit7_iff)
  next
    assume "\<exists>j. 7 - n div 8 < j \<and> j \<le> 7 \<and> 128 \<le> sa_data ! j"
    then obtain j where "7 - n div 8 < j" "j \<le> 7" "128 \<le> sa_data ! j" by blast
    then show "\<exists>i < n div 8. bit (rev ?bs ! i) 7"
      using k nth [of "7 - j"] by (intro exI [of _ "7 - j"]) (auto simp: bit7_iff)
  qed
  finally show ?thesis using nth [OF k] by simp
qed

theorem guid_sign_extension_witness:
  "bit (guid_of [0, 0, 0, 0, 0, 0, 0, 0x80]) 63"
  using guid_sign_extension [of "[0, 0, 0, 0, 0, 0, 0, 0x80]" 63] by (auto intro: exI [of _ 7])

end
