(* ===== verification/Multicast_Server.thy ===== *)
theory Multicast_Server
  imports Netadapter_List Socket_Object
begin

text \<open>
  \<open>hbk::communication::MulticastServer\<close> under Linux (\<^verbatim>\<open>lib/communication/linux/multicastserver.cpp\<close>):
  a socket that receives from a multicast group on the interfaces that were added, and one that
  sends to the group over an interface. The state is the object with the event loop; the adapters
  come from the shared \<open>NetadapterList\<close>, which the parameter \<open>mc_adapters\<close> reads.
\<close>

section \<open>State and system calls\<close>

datatype member = By_address u32 | By_index int

datatype mc_option =
  RCVBUF nat | REUSEADDR nat | PKTINFO nat | MULTICAST_LOOP bool | ADD_MEMBERSHIP u32 member
  | DROP_MEMBERSHIP u32 member | MULTICAST_IF member | MULTICAST_TTL u32

text \<open>The control messages \<open>recvmsg\<close> gives\<close>

datatype cmsg = IP_PKTINFO int | IP_TTL int | Other_cmsg

record 'c MulticastServer =
  m_mutlicastgroup :: string
  m_port :: u32
  m_receiveEvent :: fd
  m_sendEvent :: fd
  m_receiveAddr :: "domain \<times> u16"
  m_dataHandler :: "'c option"

type_synonym ('c, 'h, 'w) mc_state = "'c MulticastServer \<times> ('h, 'w) loop"

record ('c, 'h, 'w) mc_env =
  mc_loop :: "('h, 'w) loop_env"
  mc_process :: 'h
  mc_adapters :: "'w \<Rightarrow> Adapters"
  k_dgram :: "domain \<Rightarrow> bool \<Rightarrow> 'w \<Rightarrow> fd sysres \<times> 'w"
  k_option :: "fd \<Rightarrow> mc_option \<Rightarrow> 'w \<Rightarrow> unit sysres \<times> 'w"
  k_bind_any :: "fd \<Rightarrow> domain \<times> u16 \<Rightarrow> 'w \<Rightarrow> bool \<times> 'w"
  k_resolve :: "domain \<Rightarrow> string \<Rightarrow> string \<Rightarrow> (domain \<times> u32) option"
  inet_aton :: "string \<Rightarrow> u32 option"
  k_sendto :: "fd \<Rightarrow> bytes \<Rightarrow> u32 \<Rightarrow> u16 \<Rightarrow> 'w \<Rightarrow> nat sysres \<times> 'w"
  k_recvmsg :: "fd \<Rightarrow> nat \<Rightarrow> 'w \<Rightarrow> (bytes \<times> cmsg list \<times> domain \<times> u16) sysres \<times> 'w"
  run_data :: "'c \<Rightarrow> ('c, 'h, 'w) mc_state \<Rightarrow> outcome \<times> ('c, 'h, 'w) mc_state"

definition ERR_SUCCESS :: int where "ERR_SUCCESS = 0"
definition ERR_NO_SUCCESS :: int where "ERR_NO_SUCCESS = -1"
definition ERR_INVALIDADAPTER :: int where "ERR_INVALIDADAPTER = -2"
definition ERR_INVALIDIPADDRESS :: int where "ERR_INVALIDIPADDRESS = -3"

lemmas err_defs = ERR_SUCCESS_def ERR_NO_SUCCESS_def ERR_INVALIDADAPTER_def ERR_INVALIDIPADDRESS_def

definition MulticastServer_init :: "'c MulticastServer" where
  "MulticastServer_init = \<lparr>m_mutlicastgroup = [], m_port = 0, m_receiveEvent = -1, m_sendEvent = -1,
     m_receiveAddr = (AF_UNSPEC, 0), m_dataHandler = None\<rparr>"

section \<open>The sockets\<close>

fun mc_options :: "('c, 'h, 'w) mc_env \<Rightarrow> fd \<Rightarrow> mc_option list \<Rightarrow> ('h, 'w) loop \<Rightarrow> bool \<times> ('h, 'w) loop" where
  "mc_options env fd [] l = (True, l)"
| "mc_options env fd (opt # opts) l =
     (case sys (k_option env fd opt) l of (res, l) \<Rightarrow>
      case res of Inl e \<Rightarrow> (False, l) | Inr _ \<Rightarrow> mc_options env fd opts l)"

definition port_string :: "u32 \<Rightarrow> string" where
  "port_string port = to_string (unat port)"

definition setupReceiveSocket :: "('c, 'h, 'w) mc_env \<Rightarrow> ('c, 'h, 'w) mc_state \<Rightarrow> int \<times> ('c, 'h, 'w) mc_state" where
  "setupReceiveSocket env = (\<lambda>(s, l).
     case k_resolve env AF_UNSPEC (m_mutlicastgroup s) (port_string (m_port s)) of
       None \<Rightarrow> (-1, s, l)
     | Some (family, _) \<Rightarrow>
         (case sys (k_dgram env family True) l of (res, l) \<Rightarrow>
          let s = s\<lparr>m_receiveEvent := (case res of Inl e \<Rightarrow> -1 | Inr fd \<Rightarrow> fd),
                    m_receiveAddr := (family, ucast (m_port s))\<rparr> in
          case res of
            Inl e \<Rightarrow> (-1, s, l)
          | Inr fd \<Rightarrow>
              (case mc_options env fd [RCVBUF 128000, REUSEADDR 1, PKTINFO 1] l of (ok, l) \<Rightarrow>
               if \<not> ok then (-1, s, l)
               else case sys (k_bind_any env fd (m_receiveAddr s)) l of (ok, l) \<Rightarrow>
                 (if ok then 0 else -1, s, l))))"

definition setMulticastLoop :: "('c, 'h, 'w) mc_env \<Rightarrow> bool \<Rightarrow> ('c, 'h, 'w) mc_state \<Rightarrow> int \<times> ('c, 'h, 'w) mc_state" where
  "setMulticastLoop env v = (\<lambda>(s, l).
     case sys (k_option env (m_sendEvent s) (MULTICAST_LOOP v)) l of (res, l) \<Rightarrow>
     (case res of Inl e \<Rightarrow> -1 | Inr _ \<Rightarrow> 0, s, l))"

definition setupSendSocket :: "('c, 'h, 'w) mc_env \<Rightarrow> ('c, 'h, 'w) mc_state \<Rightarrow> int \<times> ('c, 'h, 'w) mc_state" where
  "setupSendSocket env = (\<lambda>(s, l).
     case sys (k_dgram env AF_INET False) l of (res, l) \<Rightarrow>
     case res of
       Inl e \<Rightarrow> (-1, s\<lparr>m_sendEvent := -1\<rparr>, l)
     | Inr fd \<Rightarrow> (0, snd (setMulticastLoop env False (s\<lparr>m_sendEvent := fd\<rparr>, l))))"

section \<open>Membership\<close>

text \<open>The address of the group; other families than IPv4 are refused.\<close>

definition group_address :: "('c, 'h, 'w) mc_env \<Rightarrow> 'c MulticastServer \<Rightarrow> u32 option" where
  "group_address env s =
     (case k_resolve env AF_INET (m_mutlicastgroup s) (port_string (m_port s)) of
        None \<Rightarrow> None
      | Some (sa_family, a) \<Rightarrow> if sa_family \<noteq> AF_INET then None else Some a)"

text \<open>The end of both forms of \<open>dropOrAddInterface\<close>\<close>

definition change_membership ::
  "('c, 'h, 'w) mc_env \<Rightarrow> u32 \<Rightarrow> member \<Rightarrow> bool \<Rightarrow> ('c, 'h, 'w) mc_state \<Rightarrow> int \<times> ('c, 'h, 'w) mc_state" where
  "change_membership env g m add = (\<lambda>(s, l).
     case sys (k_option env (m_receiveEvent s) (if add then ADD_MEMBERSHIP g m else DROP_MEMBERSHIP g m)) l of (res, l) \<Rightarrow>
     (case res of
        Inr _ \<Rightarrow> 1
      | Inl e \<Rightarrow> if add then (if e = EADDRINUSE then 0 else -1) else (if e = EADDRNOTAVAIL then 0 else -1), s, l))"

definition dropOrAdd_address ::
  "('c, 'h, 'w) mc_env \<Rightarrow> string \<Rightarrow> bool \<Rightarrow> ('c, 'h, 'w) mc_state \<Rightarrow> int \<times> ('c, 'h, 'w) mc_state" where
  "dropOrAdd_address env interfaceAddress add = (\<lambda>(s, l).
     case group_address env s of None \<Rightarrow> (-1, s, l) | Some g \<Rightarrow>
     case inet_aton env interfaceAddress of
       None \<Rightarrow> (-1, s, l)
     | Some a \<Rightarrow> change_membership env g (By_address a) add (s, l))"

definition dropOrAdd_index ::
  "('c, 'h, 'w) mc_env \<Rightarrow> u32 \<Rightarrow> bool \<Rightarrow> ('c, 'h, 'w) mc_state \<Rightarrow> int \<times> ('c, 'h, 'w) mc_state" where
  "dropOrAdd_index env interfaceIndex add = (\<lambda>(s, l).
     case group_address env s of None \<Rightarrow> (-1, s, l) | Some g \<Rightarrow>
     change_membership env g (By_index (sint interfaceIndex)) add (s, l))"

definition addInterface_address where "addInterface_address env a = dropOrAdd_address env a True"
definition addInterface_index where "addInterface_index env i = dropOrAdd_index env i True"
definition dropInterface_address where "dropInterface_address env a = dropOrAdd_address env a False"
definition dropInterface_index where "dropInterface_index env i = dropOrAdd_index env i False"

definition addAllInterfaces :: "('c, 'h, 'w) mc_env \<Rightarrow> ('c, 'h, 'w) mc_state \<Rightarrow> ('c, 'h, 'w) mc_state" where
  "addAllInterfaces env st =
     fold (\<lambda>(_, adapter) st. snd (addInterface_index env (m_index adapter) st)) (mc_adapters env (world (snd st))) st"

definition dropAllInterfaces :: "('c, 'h, 'w) mc_env \<Rightarrow> ('c, 'h, 'w) mc_state \<Rightarrow> ('c, 'h, 'w) mc_state" where
  "dropAllInterfaces env st =
     fold (\<lambda>(_, adapter) st. snd (dropInterface_index env (m_index adapter) st)) (mc_adapters env (world (snd st))) st"

section \<open>Receiving\<close>

definition process_data :: "('c, 'h, 'w) mc_env \<Rightarrow> ('c, 'h, 'w) mc_state \<Rightarrow> outcome \<times> ('c, 'h, 'w) mc_state" where
  "process_data env st =
     (case m_dataHandler (fst st) of None \<Rightarrow> (Returns (-1), st) | Some c \<Rightarrow> run_data env c st)"

text \<open>The loop over the control messages\<close>

fun read_cmsgs :: "cmsg list \<Rightarrow> u32 \<times> int \<Rightarrow> u32 \<times> int" where
  "read_cmsgs [] acc = acc"
| "read_cmsgs (IP_PKTINFO i # cs) (adapterIndex, ttl) = read_cmsgs cs (word_of_int i, ttl)"
| "read_cmsgs (IP_TTL t # cs) (adapterIndex, ttl) = read_cmsgs cs (adapterIndex, t)"
| "read_cmsgs (Other_cmsg # cs) acc = read_cmsgs cs acc"

text \<open>
  The result, the bytes received, and the two output parameters. The address of the sender is written
  over \<open>m_receiveAddr\<close>.
\<close>

definition receiveTelegram_index ::
  "('c, 'h, 'w) mc_env \<Rightarrow> nat \<Rightarrow> ('c, 'h, 'w) mc_state \<Rightarrow> (int \<times> bytes \<times> u32 \<times> int) \<times> ('c, 'h, 'w) mc_state" where
  "receiveTelegram_index env len = (\<lambda>(s, l).
     case sys (k_recvmsg env (m_receiveEvent s) len) l of (res, l) \<Rightarrow>
     case res of
       Inl e \<Rightarrow> ((-1, [], 0, 1), s, l)
     | Inr (msg, cmsgs, sender) \<Rightarrow>
         (let s = s\<lparr>m_receiveAddr := sender\<rparr> in
          if msg \<noteq> [] then ((int (length msg), msg, read_cmsgs cmsgs (0, 1)), s, l)
          else ((0, [], 0, 1), s, l)))"

definition receiveTelegram_adapter ::
  "('c, 'h, 'w) mc_env \<Rightarrow> nat \<Rightarrow> ('c, 'h, 'w) mc_state \<Rightarrow> (int \<times> bytes \<times> Netadapter option \<times> int) \<times> ('c, 'h, 'w) mc_state" where
  "receiveTelegram_adapter env len st =
     (case receiveTelegram_index env len st of ((nbytes, msg, interfaceIndex, ttl), st) \<Rightarrow>
      if 0 < nbytes then
        (case getAdapterByInterfaceIndex (mc_adapters env (world (snd st))) interfaceIndex of
           Inr adapter \<Rightarrow> ((nbytes, msg, Some adapter, ttl), st)
         | Inl e \<Rightarrow> ((-1, msg, None, ttl), st))
      else ((nbytes, msg, None, ttl), st))"

definition receiveTelegram_name ::
  "('c, 'h, 'w) mc_env \<Rightarrow> nat \<Rightarrow> ('c, 'h, 'w) mc_state \<Rightarrow> (int \<times> bytes \<times> string option \<times> int) \<times> ('c, 'h, 'w) mc_state" where
  "receiveTelegram_name env len st =
     (case receiveTelegram_index env len st of ((nbytes, msg, interfaceIndex, ttl), st) \<Rightarrow>
      if 0 < nbytes then
        (case getAdapterByInterfaceIndex (mc_adapters env (world (snd st))) interfaceIndex of
           Inr adapter \<Rightarrow> ((nbytes, msg, Some (m_name adapter), ttl), st)
         | Inl e \<Rightarrow> ((-1, msg, None, ttl), st))
      else ((nbytes, msg, None, ttl), st))"

section \<open>Sending\<close>

text \<open>
  A buffer is \<^term>\<open>None\<close> for \<open>nullptr\<close>. The second half of the two functions below: the hop limit,
  the address of the group, and the datagram.
\<close>

definition send_datagram ::
  "('c, 'h, 'w) mc_env \<Rightarrow> bytes \<Rightarrow> u32 \<Rightarrow> ('c, 'h, 'w) mc_state \<Rightarrow> int \<times> ('c, 'h, 'w) mc_state" where
  "send_datagram env pData ttl = (\<lambda>(s, l).
     case sys (k_option env (m_sendEvent s) (MULTICAST_TTL ttl)) l of (res, l) \<Rightarrow>
     case res of Inl e \<Rightarrow> (ERR_NO_SUCCESS, s, l) | Inr _ \<Rightarrow>
     case inet_aton env (m_mutlicastgroup s) of None \<Rightarrow> (ERR_NO_SUCCESS, s, l) | Some g \<Rightarrow>
     case sys (k_sendto env (m_sendEvent s) pData g (ucast (m_port s))) l of (nbytes, l) \<Rightarrow>
     (if nbytes \<noteq> Inr (length pData) then ERR_NO_SUCCESS else ERR_SUCCESS, s, l))"

definition sendOverInterfaceByAddress ::
  "('c, 'h, 'w) mc_env \<Rightarrow> string \<Rightarrow> bytes option \<Rightarrow> nat \<Rightarrow> u32 \<Rightarrow> ('c, 'h, 'w) mc_state \<Rightarrow> int \<times> ('c, 'h, 'w) mc_state" where
  "sendOverInterfaceByAddress env interfaceIp pData len ttl = (\<lambda>(s, l).
     case pData of None \<Rightarrow> (if 0 < len then ERR_NO_SUCCESS else ERR_SUCCESS, s, l) | Some d \<Rightarrow>
     case inet_aton env interfaceIp of None \<Rightarrow> (ERR_INVALIDIPADDRESS, s, l) | Some ifAddr \<Rightarrow>
     case sys (k_option env (m_sendEvent s) (MULTICAST_IF (By_address ifAddr))) l of (res, l) \<Rightarrow>
     case res of Inl e \<Rightarrow> (ERR_INVALIDADAPTER, s, l) | Inr _ \<Rightarrow> send_datagram env (take len d) ttl (s, l))"

definition sendOverInterfaceByIndex ::
  "('c, 'h, 'w) mc_env \<Rightarrow> u32 \<Rightarrow> bytes option \<Rightarrow> nat \<Rightarrow> u32 \<Rightarrow> ('c, 'h, 'w) mc_state \<Rightarrow> int \<times> ('c, 'h, 'w) mc_state" where
  "sendOverInterfaceByIndex env interfaceIndex pData len ttl = (\<lambda>(s, l).
     case pData of None \<Rightarrow> (if 0 < len then ERR_NO_SUCCESS else ERR_SUCCESS, s, l) | Some d \<Rightarrow>
     case sys (k_option env (m_sendEvent s) (MULTICAST_IF (By_index (sint interfaceIndex)))) l of (res, l) \<Rightarrow>
     case res of Inl e \<Rightarrow> (ERR_INVALIDADAPTER, s, l) | Inr _ \<Rightarrow> send_datagram env (take len d) ttl (s, l))"

definition sendByAddress_string ::
  "('c, 'h, 'w) mc_env \<Rightarrow> string \<Rightarrow> bytes \<Rightarrow> u32 \<Rightarrow> ('c, 'h, 'w) mc_state \<Rightarrow> int \<times> ('c, 'h, 'w) mc_state" where
  "sendByAddress_string env interfaceIp data ttl st =
     (if data = [] then (ERR_SUCCESS, st) else sendOverInterfaceByAddress env interfaceIp (Some data) (length data) ttl st)"

definition sendByIndex_string ::
  "('c, 'h, 'w) mc_env \<Rightarrow> u32 \<Rightarrow> bytes \<Rightarrow> u32 \<Rightarrow> ('c, 'h, 'w) mc_state \<Rightarrow> int \<times> ('c, 'h, 'w) mc_state" where
  "sendByIndex_string env interfaceIndex data ttl st =
     (if data = [] then (ERR_SUCCESS, st) else sendOverInterfaceByIndex env interfaceIndex (Some data) (length data) ttl st)"

definition sendOver_adapter ::
  "('c, 'h, 'w) mc_env \<Rightarrow> Netadapter \<Rightarrow> bytes option \<Rightarrow> nat \<Rightarrow> u32 \<Rightarrow> ('c, 'h, 'w) mc_state \<Rightarrow> int \<times> ('c, 'h, 'w) mc_state" where
  "sendOver_adapter env adapter pData len ttl st =
     (if 0 < len then
        if pData = None then (ERR_NO_SUCCESS, st)
        else (case m_ipv4Addresses adapter of
            a # _ \<Rightarrow> sendOverInterfaceByAddress env (address a) pData len ttl st
          | [] \<Rightarrow> (ERR_INVALIDADAPTER, st))
      else (ERR_SUCCESS, st))"

text \<open>The form for a string goes by the index of the adapter.\<close>

definition sendOver_adapter_string ::
  "('c, 'h, 'w) mc_env \<Rightarrow> Netadapter \<Rightarrow> bytes \<Rightarrow> u32 \<Rightarrow> ('c, 'h, 'w) mc_state \<Rightarrow> int \<times> ('c, 'h, 'w) mc_state" where
  "sendOver_adapter_string env adapter data ttl st = sendByIndex_string env (m_index adapter) data ttl st"

definition sendOver_index_string ::
  "('c, 'h, 'w) mc_env \<Rightarrow> u32 \<Rightarrow> bytes \<Rightarrow> u32 \<Rightarrow> ('c, 'h, 'w) mc_state \<Rightarrow> int \<times> ('c, 'h, 'w) mc_state" where
  "sendOver_index_string env interfaceIndex data ttl st =
     (if data = [] then (0, st)
      else case getAdapterByInterfaceIndex (mc_adapters env (world (snd st))) interfaceIndex of
        Inr adapter \<Rightarrow> sendOver_adapter_string env adapter data ttl st
      | Inl e \<Rightarrow> (ERR_INVALIDADAPTER, st))"

definition sendOver_index ::
  "('c, 'h, 'w) mc_env \<Rightarrow> u32 \<Rightarrow> bytes option \<Rightarrow> nat \<Rightarrow> u32 \<Rightarrow> ('c, 'h, 'w) mc_state \<Rightarrow> int \<times> ('c, 'h, 'w) mc_state" where
  "sendOver_index env interfaceIndex pData len ttl st =
     (if pData = None then (0, st)
      else case getAdapterByInterfaceIndex (mc_adapters env (world (snd st))) interfaceIndex of
        Inr adapter \<Rightarrow> sendOver_adapter env adapter pData len ttl st
      | Inl e \<Rightarrow> (ERR_INVALIDADAPTER, st))"

fun send_loop ::
  "('c, 'h, 'w) mc_env \<Rightarrow> bytes option \<Rightarrow> nat \<Rightarrow> u32 \<Rightarrow> Netadapter list \<Rightarrow> int \<Rightarrow> ('c, 'h, 'w) mc_state \<Rightarrow> int \<times> ('c, 'h, 'w) mc_state" where
  "send_loop env pData len ttl [] retVal st = (retVal, st)"
| "send_loop env pData len ttl (adapter # adapters) retVal st =
     (case sendOver_adapter env adapter pData len ttl st of (retValIntern, st) \<Rightarrow>
      send_loop env pData len ttl adapters (if retValIntern \<noteq> 0 then retValIntern else retVal) st)"

definition mc_send ::
  "('c, 'h, 'w) mc_env \<Rightarrow> bytes option \<Rightarrow> nat \<Rightarrow> u32 \<Rightarrow> ('c, 'h, 'w) mc_state \<Rightarrow> int \<times> ('c, 'h, 'w) mc_state" where
  "mc_send env pData len ttl st = send_loop env pData len ttl (map snd (mc_adapters env (world (snd st)))) 0 st"

definition mc_send_string ::
  "('c, 'h, 'w) mc_env \<Rightarrow> bytes \<Rightarrow> u32 \<Rightarrow> ('c, 'h, 'w) mc_state \<Rightarrow> int \<times> ('c, 'h, 'w) mc_state" where
  "mc_send_string env data ttl st = mc_send env (Some data) (length data) ttl st"

section \<open>Starting and stopping\<close>

definition mc_start ::
  "('c, 'h, 'w) mc_env \<Rightarrow> string \<Rightarrow> u32 \<Rightarrow> 'c option \<Rightarrow> ('c, 'h, 'w) mc_state
    \<Rightarrow> (outcome \<times> ('c, 'h, 'w) mc_state) option" where
  "mc_start env multicastGroup port dataHandler = (\<lambda>(s, l).
     let s = s\<lparr>m_mutlicastgroup := multicastGroup, m_port := port\<rparr> in
     case setupSendSocket env (s, l) of (err, s, l) \<Rightarrow>
     if err < 0 then Some (Returns err, s, l)
     else case setupReceiveSocket env (s, l) of (err, s, l) \<Rightarrow>
     if err < 0 then Some (Returns err, s, l)
     else
       (let s = s\<lparr>m_dataHandler := dataHandler\<rparr> in
        if dataHandler = None then Some (Returns 0, s, l)
        else map_option (\<lambda>(r, l). (case r of Throws \<Rightarrow> Throws | Returns _ \<Rightarrow> Returns 0, s, l))
          (addEvent (mc_loop env) (m_receiveEvent s) (Some (mc_process env)) l)))"

definition close_fd :: "('c, 'h, 'w) mc_env \<Rightarrow> fd \<Rightarrow> ('h, 'w) loop \<Rightarrow> ('h, 'w) loop" where
  "close_fd env fd l = l\<lparr>world := k_close (mc_loop env) fd (world l)\<rparr>"

definition mc_stop :: "('c, 'h, 'w) mc_env \<Rightarrow> ('c, 'h, 'w) mc_state \<Rightarrow> ('c, 'h, 'w) mc_state" where
  "mc_stop env = (\<lambda>(s, l).
     let l = snd (eraseEvent (mc_loop env) (m_receiveEvent s) l);
         (s, l) = (if m_sendEvent s \<noteq> -1 then (s\<lparr>m_sendEvent := -1\<rparr>, close_fd env (m_sendEvent s) l) else (s, l))
     in if m_receiveEvent s \<noteq> -1 then
          (case dropAllInterfaces env (s, l) of (s, l) \<Rightarrow>
             (s\<lparr>m_receiveEvent := -1\<rparr>, close_fd env (m_receiveEvent s) l))
        else (s, l))"

definition MulticastServer_destroy :: "('c, 'h, 'w) mc_env \<Rightarrow> ('c, 'h, 'w) mc_state \<Rightarrow> ('h, 'w) loop" where
  "MulticastServer_destroy env st = snd (mc_stop env st)"

end
