(* ===== verification/Multicast_Props.thy ===== *)
theory Multicast_Props
  imports Multicast_Server
begin

text \<open>
  What the multicast server promises: which interfaces are members of the group after adding and
  dropping, that starting and stopping gives back every descriptor, and where a datagram is sent. The
  locales \<open>group_kernel\<close> and \<open>datagram_kernel\<close> state what is used of the kernel.
\<close>

section \<open>Descriptors and memberships\<close>

locale group_kernel =
  fixes env :: "('c, 'h, 'w) mc_env" and opened :: "'w \<Rightarrow> fd set" and members :: "fd \<Rightarrow> 'w \<Rightarrow> (u32 \<times> member) set"
  assumes dgram: "k_dgram env d nonblocking w = (res, w') \<Longrightarrow>
      (case res of Inl e \<Rightarrow> opened w' = opened w
       | Inr new \<Rightarrow> new \<notin> opened w \<and> new \<noteq> -1 \<and> opened w' = insert new (opened w))"
    and option: "k_option env fd opt w = (done, w') \<Longrightarrow> opened w' = opened w \<and> mc_adapters env w' = mc_adapters env w"
    and join: "k_option env fd (ADD_MEMBERSHIP g m) w = (done, w') \<Longrightarrow>
      (if (g, m) \<in> members fd w then done = Inl EADDRINUSE \<and> members fd w' = members fd w
       else done = Inr () \<and> members fd w' = insert (g, m) (members fd w) \<or>
            (\<exists>e. done = Inl e \<and> e \<noteq> EADDRINUSE) \<and> members fd w' = members fd w)"
    and leave: "k_option env fd (DROP_MEMBERSHIP g m) w = (done, w') \<Longrightarrow>
      (if (g, m) \<notin> members fd w then done = Inl EADDRNOTAVAIL \<and> members fd w' = members fd w
       else done = Inr () \<and> members fd w' = members fd w - {(g, m)} \<or>
            (\<exists>e. done = Inl e \<and> e \<noteq> EADDRNOTAVAIL) \<and> members fd w' = members fd w)"
    and bind_any: "k_bind_any env fd a w = (ok, w') \<Longrightarrow> opened w' = opened w"
    and closed: "opened (k_close (mc_loop env) fd w) = opened w - {fd}"
    and ctl: "opened (snd (k_epoll_ctl (mc_loop env) ep op fd ev w)) = opened w"
begin

text \<open>One change of the membership, and what its result says\<close>

lemma change_membership_result:
  assumes "change_membership env g m add (s, l) = (r, s', l')"
  shows "s' = s \<and> r \<in> {-1, 0, 1} \<and> opened (world l') = opened (world l) \<and>
    mc_adapters env (world l') = mc_adapters env (world l) \<and>
    (r = 0 \<longleftrightarrow> ((g, m) \<in> members (m_receiveEvent s) (world l)) = add) \<and>
    members (m_receiveEvent s) (world l') =
      (if r \<noteq> 1 then members (m_receiveEvent s) (world l)
       else if add then insert (g, m) (members (m_receiveEvent s) (world l))
       else members (m_receiveEvent s) (world l) - {(g, m)})"
proof (cases add)
  case True
  obtain q w where o: "k_option env (m_receiveEvent s) (ADD_MEMBERSHIP g m) (world l) = (q, w)" by fastforce
  from option [OF o] join [OF o] o True assms show ?thesis
    by (auto simp: change_membership_def sys_def split: if_splits sum.splits)
next
  case False
  obtain q w where o: "k_option env (m_receiveEvent s) (DROP_MEMBERSHIP g m) (world l) = (q, w)" by fastforce
  from option [OF o] leave [OF o] o False assms show ?thesis
    by (auto simp: change_membership_def sys_def split: if_splits sum.splits)
qed

lemma dropOrAdd_index_keeps:
  assumes "dropOrAdd_index env i add (s, l) = (r, s', l')"
  shows "s' = s \<and> opened (world l') = opened (world l) \<and> mc_adapters env (world l') = mc_adapters env (world l)"
  using assms change_membership_result [of _ "By_index (sint i)" add s l r s' l']
  by (auto simp: dropOrAdd_index_def split: option.splits)

lemma dropAll_keeps:
  assumes "dropAllInterfaces env (s, l) = (s', l')"
  shows "s' = s \<and> opened (world l') = opened (world l)"
proof -
  have "fst (fold (\<lambda>(_, adapter) st. snd (dropInterface_index env (m_index adapter) st)) as (s, l)) = s \<and>
      opened (world (snd (fold (\<lambda>(_, adapter) st. snd (dropInterface_index env (m_index adapter) st)) as (s, l)))) =
        opened (world l)" for as
  proof (induction as arbitrary: l)
    case (Cons a as)
    obtain r s1 l1 where d: "dropOrAdd_index env (m_index (snd a)) False (s, l) = (r, s1, l1)" by (metis prod_cases3)
    from dropOrAdd_index_keeps [OF d] Cons [of l1] d show ?case
      by (cases a) (simp add: dropInterface_index_def)
  qed simp
  from this [of "mc_adapters env (world l)"] assms show ?thesis by (simp add: dropAllInterfaces_def)
qed

text \<open>The event loop changes the world only by \<open>epoll_ctl\<close>.\<close>

lemma epoll_ctl_opened [simp]: "opened (world (snd (epoll_ctl (mc_loop env) op fd ev l))) = opened (world l)"
  using ctl [of "m_epollfd l" op fd ev "world l"]
  by (cases "k_epoll_ctl (mc_loop env) (m_epollfd l) op fd ev (world l)") (simp add: epoll_ctl_def)

lemma erase_opened: "opened (world (snd (eraseEvent (mc_loop env) fd l))) = opened (world l)"
  by (simp add: eraseEvent_def erase_info_def clear_pending_def Let_def case_prod_beta split: option.split)

lemma register_opened: "opened (world (snd (register_in (mc_loop env) fd h l))) = opened (world l)"
  by (simp add: register_in_def emplace_def Let_def case_prod_beta split: option.split)

lemma mc_options_opened: "mc_options env fd opts l = (ok, l') \<Longrightarrow> opened (world l') = opened (world l)"
proof (induction opts arbitrary: l)
  case (Cons opt opts)
  obtain q w where o: "k_option env fd opt (world l) = (q, w)" by fastforce
  from option [OF o] o Cons show ?case by (fastforce simp: sys_def split: sum.splits)
qed simp

lemma setupSendSocket_opened:
  assumes "setupSendSocket env (s, l) = (r, s', l')"
  shows "s' = s\<lparr>m_sendEvent := m_sendEvent s'\<rparr> \<and>
    (if m_sendEvent s' = -1 then opened (world l') = opened (world l)
     else m_sendEvent s' \<notin> opened (world l) \<and> opened (world l') = insert (m_sendEvent s') (opened (world l)))"
proof -
  obtain res w where d: "k_dgram env AF_INET False (world l) = (res, w)" by fastforce
  show ?thesis
  proof (cases res)
    case (Inl e)
    with d assms have "s' = s\<lparr>m_sendEvent := -1\<rparr>" "world l' = w" by (auto simp: setupSendSocket_def sys_def)
    with dgram [OF d] Inl show ?thesis by simp
  next
    case (Inr fd)
    obtain q w' where o: "k_option env fd (MULTICAST_LOOP False) w = (q, w')" by fastforce
    with d Inr assms have "s' = s\<lparr>m_sendEvent := fd\<rparr>" "world l' = w'"
      by (auto simp: setupSendSocket_def setMulticastLoop_def sys_def)
    with dgram [OF d] option [OF o] Inr show ?thesis by simp
  qed
qed

lemma setupReceiveSocket_opened:
  assumes "setupReceiveSocket env (s, l) = (r, s', l')" and "m_receiveEvent s = -1"
  shows "m_sendEvent s' = m_sendEvent s \<and>
    (if m_receiveEvent s' = -1 then opened (world l') = opened (world l)
     else m_receiveEvent s' \<notin> opened (world l) \<and> opened (world l') = insert (m_receiveEvent s') (opened (world l)))"
proof (cases "k_resolve env AF_UNSPEC (m_mutlicastgroup s) (port_string (m_port s))")
  case None
  with assms show ?thesis by (auto simp: setupReceiveSocket_def)
next
  case (Some p)
  obtain family a where p: "p = (family, a)" by fastforce
  obtain res w where d: "k_dgram env family True (world l) = (res, w)" by fastforce
  show ?thesis
  proof (cases res)
    case (Inl e)
    with d assms Some p have "m_receiveEvent s' = -1" "m_sendEvent s' = m_sendEvent s" "world l' = w"
      by (auto simp: setupReceiveSocket_def sys_def Let_def)
    with dgram [OF d] Inl show ?thesis by simp
  next
    case (Inr fd)
    obtain o1 l1 where o: "mc_options env fd [RCVBUF 128000, REUSEADDR 1, PKTINFO 1] (l\<lparr>world := w\<rparr>) = (o1, l1)" by fastforce
    obtain o2 w2 where b: "k_bind_any env fd (family, ucast (m_port s)) (world l1) = (o2, w2)" by fastforce
    have "m_receiveEvent s' = fd \<and> m_sendEvent s' = m_sendEvent s \<and> (world l' = world l1 \<or> world l' = w2)"
      using d o b assms Some p Inr
      by (cases o1) (auto simp: setupReceiveSocket_def sys_def Let_def simp del: mc_options.simps)
    with dgram [OF d] mc_options_opened [OF o] bind_any [OF b] Inr show ?thesis by auto
  qed
qed

text \<open>Stopping gives back both descriptors, and a second stop finds none.\<close>

lemma mc_stop_opened:
  assumes "mc_stop env (s, l) = (s', l')"
  shows "m_sendEvent s' = -1 \<and> m_receiveEvent s' = -1 \<and>
    opened (world l') = opened (world l) - ({m_sendEvent s, m_receiveEvent s} - {-1})"
proof -
  obtain l1 where l1: "l1 = snd (eraseEvent (mc_loop env) (m_receiveEvent s) l)" by simp
  define s2 where "s2 = s\<lparr>m_sendEvent := -1\<rparr>"
  define l2 where "l2 = (if m_sendEvent s \<noteq> -1 then close_fd env (m_sendEvent s) l1 else l1)"
  have s2: "(if m_sendEvent s \<noteq> -1 then (s\<lparr>m_sendEvent := -1\<rparr>, close_fd env (m_sendEvent s) l1) else (s, l1)) = (s2, l2)"
    by (simp add: s2_def l2_def)
  have l2: "opened (world l2) = opened (world l) - ({m_sendEvent s} - {-1})"
    using erase_opened [of "m_receiveEvent s" l] closed by (simp add: l2_def l1 close_fd_def)
  obtain s3 l3 where d: "dropAllInterfaces env (s2, l2) = (s3, l3)" by fastforce
  from dropAll_keeps [OF d] have s3: "s3 = s2" "opened (world l3) = opened (world l2)" by simp_all
  have "(s', l') = (if m_receiveEvent s2 \<noteq> -1 then (s3\<lparr>m_receiveEvent := -1\<rparr>, close_fd env (m_receiveEvent s3) l3) else (s2, l2))"
    using assms d s2 [unfolded l1] by (cases "m_receiveEvent s2 = -1") (simp_all add: mc_stop_def Let_def)
  with s3 l2 closed show ?thesis by (auto simp: s2_def close_fd_def split: if_splits)
qed

lemma mc_start_opened:
  assumes quiet: "\<And>l. run (mc_loop env) (mc_process env) l = (Returns 0, l)"
    and idle: "m_receiveEvent s = -1"
    and start: "mc_start env g p cb (s, l) = Some (r, s', l')"
  shows "opened (world l') - ({m_sendEvent s', m_receiveEvent s'} - {-1}) = opened (world l)"
proof -
  obtain r1 s1 l1 where 1: "setupSendSocket env (s\<lparr>m_mutlicastgroup := g, m_port := p\<rparr>, l) = (r1, s1, l1)" by (metis prod_cases3)
  obtain r2 s2 l2 where 2: "setupReceiveSocket env (s1, l1) = (r2, s2, l2)" by (metis prod_cases3)
  have idle1: "m_receiveEvent s1 = -1"
    using setupSendSocket_opened [OF 1] idle by (metis MulticastServer.select_convs(3) MulticastServer.surjective MulticastServer.update_convs(1,2,4))
  have send: "opened (world l1) - ({m_sendEvent s1} - {-1}) = opened (world l)"
    using setupSendSocket_opened [OF 1] by (auto split: if_splits)
  have both: "opened (world l2) - ({m_sendEvent s2, m_receiveEvent s2} - {-1}) = opened (world l)"
    using setupSendSocket_opened [OF 1] setupReceiveSocket_opened [OF 2 idle1] by (auto split: if_splits)
  show ?thesis
  proof (cases "r1 < 0 \<or> r2 < 0")
    case True
    with start 1 2 have "(s', l') = (if r1 < 0 then (s1, l1) else (s2, l2))"
      by (auto simp: mc_start_def Let_def split: if_splits)
    with send both idle1 show ?thesis by (auto split: if_splits)
  next
    case False
    have "(\<exists>h. s' = s2\<lparr>m_dataHandler := h\<rparr>) \<and> opened (world l') = opened (world l2)"
      using start 1 2 False register_opened [of "m_receiveEvent s2" "mc_process env" l2]
      by (cases "m_receiveEvent s2 = -1")
        (auto simp: mc_start_def Let_def addEvent_def call_until.simps quiet split: if_splits prod.splits)
    with both show ?thesis by auto
  qed
qed

end

text \<open>A kernel that refuses no interface: adding and dropping all of them\<close>

definition willing :: "('c, 'h, 'w) mc_env \<Rightarrow> (fd \<Rightarrow> 'w \<Rightarrow> (u32 \<times> member) set) \<Rightarrow> bool" where
  "willing env members \<longleftrightarrow> (\<forall>fd g m w.
     ((g, m) \<notin> members fd w \<longrightarrow> fst (k_option env fd (ADD_MEMBERSHIP g m) w) = Inr ()) \<and>
     ((g, m) \<in> members fd w \<longrightarrow> fst (k_option env fd (DROP_MEMBERSHIP g m) w) = Inr ()))"

definition adapter_members :: "u32 \<Rightarrow> Adapters \<Rightarrow> (u32 \<times> member) set" where
  "adapter_members g as = (\<lambda>(_, a). (g, By_index (sint (m_index a)))) ` set as"

context group_kernel
begin

lemma willing_membership:
  assumes "willing env members" and "change_membership env g m add (s, l) = (r, s', l')"
  shows "members (m_receiveEvent s) (world l') =
    (if add then insert (g, m) (members (m_receiveEvent s) (world l)) else members (m_receiveEvent s) (world l) - {(g, m)})"
proof (cases add)
  case True
  obtain q w where o: "k_option env (m_receiveEvent s) (ADD_MEMBERSHIP g m) (world l) = (q, w)" by fastforce
  then have "(g, m) \<notin> members (m_receiveEvent s) (world l) \<longrightarrow> q = Inr ()"
    using assms(1) unfolding willing_def by (metis fst_conv)
  moreover have "world l' = w" using o assms(2) True by (auto simp: change_membership_def sys_def)
  ultimately show ?thesis using join [OF o] True by (auto split: if_splits)
next
  case False
  obtain q w where o: "k_option env (m_receiveEvent s) (DROP_MEMBERSHIP g m) (world l) = (q, w)" by fastforce
  then have "(g, m) \<in> members (m_receiveEvent s) (world l) \<longrightarrow> q = Inr ()"
    using assms(1) unfolding willing_def by (metis fst_conv)
  moreover have "world l' = w" using o assms(2) False by (auto simp: change_membership_def sys_def)
  ultimately show ?thesis using leave [OF o] False by (auto split: if_splits)
qed

lemma willing_fold:
  assumes "willing env members" and "group_address env s = Some g"
  shows "let (s', l') = fold (\<lambda>(_, adapter) st. snd (dropOrAdd_index env (m_index adapter) add st)) as (s, l) in
    s' = s \<and> mc_adapters env (world l') = mc_adapters env (world l) \<and>
    members (m_receiveEvent s) (world l') =
      (if add then adapter_members g as \<union> members (m_receiveEvent s) (world l)
       else members (m_receiveEvent s) (world l) - adapter_members g as)"
proof (induction as arbitrary: l)
  case Nil
  then show ?case by (simp add: adapter_members_def)
next
  case (Cons a as)
  obtain r s1 l1 where c: "change_membership env g (By_index (sint (m_index (snd a)))) add (s, l) = (r, s1, l1)"
    by (metis prod_cases3)
  from change_membership_result [OF c] willing_membership [OF assms(1) c]
  have 1: "s1 = s" "mc_adapters env (world l1) = mc_adapters env (world l)"
    "members (m_receiveEvent s) (world l1) = (if add then insert (g, By_index (sint (m_index (snd a)))) (members (m_receiveEvent s) (world l))
      else members (m_receiveEvent s) (world l) - {(g, By_index (sint (m_index (snd a))))})"
    by simp_all
  have "snd (dropOrAdd_index env (m_index (snd a)) add (s, l)) = (s, l1)"
    using c assms(2) 1 by (simp add: dropOrAdd_index_def)
  then have "fold (\<lambda>(_, adapter) st. snd (dropOrAdd_index env (m_index adapter) add st)) (a # as) (s, l) =
      fold (\<lambda>(_, adapter) st. snd (dropOrAdd_index env (m_index adapter) add st)) as (s, l1)"
    by (cases a) simp
  with Cons.IH [of l1] 1 show ?case by (cases a) (auto simp: adapter_members_def Let_def)
qed

end

section \<open>Datagrams\<close>

text \<open>
  The interface and the hop limit that are set for a socket, and the datagrams sent with them. This
  network accepts everything.
\<close>

locale datagram_kernel =
  fixes env :: "('c, 'h, 'w) mc_env" and via :: "'w \<Rightarrow> member" and hops :: "'w \<Rightarrow> u32"
    and sent :: "'w \<Rightarrow> (member \<times> u32 \<times> u32 \<times> u16 \<times> bytes) list"
  assumes set_via: "\<exists>w'. k_option env fd (MULTICAST_IF m) w = (Inr (), w') \<and> via w' = m \<and> hops w' = hops w \<and> sent w' = sent w"
    and set_hops: "\<exists>w'. k_option env fd (MULTICAST_TTL n) w = (Inr (), w') \<and> via w' = via w \<and> hops w' = n \<and> sent w' = sent w"
    and sendto: "\<exists>w'. k_sendto env fd d g p w = (Inr (length d), w') \<and> sent w' = sent w @ [(via w, hops w, g, p, d)]"
begin

lemma send_datagram_sent:
  assumes "inet_aton env (m_mutlicastgroup s) = Some g"
  shows "\<exists>l'. send_datagram env d n (s, l) = (ERR_SUCCESS, s, l') \<and>
    sent (world l') = sent (world l) @ [(via (world l), n, g, ucast (m_port s), d)]"
proof -
  obtain w1 where w1: "k_option env (m_sendEvent s) (MULTICAST_TTL n) (world l) = (Inr (), w1)" "via w1 = via (world l)"
      "hops w1 = n" "sent w1 = sent (world l)" using set_hops by blast
  obtain w2 where "k_sendto env (m_sendEvent s) d g (ucast (m_port s)) w1 = (Inr (length d), w2)"
      "sent w2 = sent w1 @ [(via w1, hops w1, g, ucast (m_port s), d)]" using sendto by blast
  with w1 assms show ?thesis by (simp add: send_datagram_def sys_def)
qed

text \<open>The addresses over which an adapter sends: that of the front, when there is one\<close>

lemma sendOver_adapter_sent:
  assumes g: "inet_aton env (m_mutlicastgroup s) = Some g" and d: "d \<noteq> []"
    and a: "\<forall>x\<in>set (m_ipv4Addresses ad). inet_aton env (address x) \<noteq> None"
  shows "\<exists>l'. sendOver_adapter env ad (Some d) (length d) n (s, l) =
      (if m_ipv4Addresses ad = [] then ERR_INVALIDADAPTER else ERR_SUCCESS, s, l') \<and>
    sent (world l') = sent (world l) @ (case m_ipv4Addresses ad of [] \<Rightarrow> []
      | x # _ \<Rightarrow> [(By_address (the (inet_aton env (address x))), n, g, ucast (m_port s), d)])"
proof (cases "m_ipv4Addresses ad")
  case Nil
  with d show ?thesis by (simp add: sendOver_adapter_def)
next
  case (Cons x xs)
  with a obtain i where i: "inet_aton env (address x) = Some i" by auto
  obtain w1 where w1: "k_option env (m_sendEvent s) (MULTICAST_IF (By_address i)) (world l) = (Inr (), w1)"
      "via w1 = By_address i" "sent w1 = sent (world l)" using set_via by blast
  from send_datagram_sent [OF g, of d n "l\<lparr>world := w1\<rparr>"] w1 i Cons d show ?thesis
    by (auto simp: sendOver_adapter_def sendOverInterfaceByAddress_def sys_def)
qed

lemma send_loop_sent:
  assumes "inet_aton env (m_mutlicastgroup s) = Some g" "d \<noteq> []"
    and "\<forall>ad\<in>set ads. \<forall>x\<in>set (m_ipv4Addresses ad). inet_aton env (address x) \<noteq> None"
  shows "\<exists>l'. send_loop env (Some d) (length d) n ads r (s, l) =
      (if \<exists>ad\<in>set ads. m_ipv4Addresses ad = [] then ERR_INVALIDADAPTER else r, s, l') \<and>
    sent (world l') = sent (world l) @ concat (map (\<lambda>ad. case m_ipv4Addresses ad of [] \<Rightarrow> []
      | x # _ \<Rightarrow> [(By_address (the (inet_aton env (address x))), n, g, ucast (m_port s), d)]) ads)"
  using assms(3)
proof (induction ads arbitrary: r l)
  case (Cons ad ads)
  obtain l1 where l1: "sendOver_adapter env ad (Some d) (length d) n (s, l) =
      (if m_ipv4Addresses ad = [] then ERR_INVALIDADAPTER else ERR_SUCCESS, s, l1)"
      "sent (world l1) = sent (world l) @ (case m_ipv4Addresses ad of [] \<Rightarrow> []
        | x # _ \<Rightarrow> [(By_address (the (inet_aton env (address x))), n, g, ucast (m_port s), d)])"
    using sendOver_adapter_sent [OF assms(1,2), of ad] Cons.prems by fastforce
  obtain l2 where "send_loop env (Some d) (length d) n ads (if m_ipv4Addresses ad = [] then ERR_INVALIDADAPTER else r) (s, l1) =
      (if \<exists>ad\<in>set ads. m_ipv4Addresses ad = [] then ERR_INVALIDADAPTER
       else if m_ipv4Addresses ad = [] then ERR_INVALIDADAPTER else r, s, l2)"
      "sent (world l2) = sent (world l1) @ concat (map (\<lambda>ad. case m_ipv4Addresses ad of [] \<Rightarrow> []
        | x # _ \<Rightarrow> [(By_address (the (inet_aton env (address x))), n, g, ucast (m_port s), d)]) ads)"
    using Cons.IH [of "if m_ipv4Addresses ad = [] then ERR_INVALIDADAPTER else r" l1] Cons.prems by auto
  with l1 show ?case by (intro exI [of _ l2]) (auto simp: err_defs)
qed simp

end

section \<open>A network that computes\<close>

record mc_world =
  g_open :: "fd list"
  g_members :: "(fd \<times> u32 \<times> member) list"
  g_via :: member
  g_hops :: u32
  g_sent :: "(member \<times> u32 \<times> u32 \<times> u16 \<times> bytes) list"
  g_adapters :: Adapters

definition fresh_fd :: "mc_world \<Rightarrow> fd" where
  "fresh_fd w = fold max (g_open w) 2 + 1"

fun mc_set :: "fd \<Rightarrow> mc_option \<Rightarrow> mc_world \<Rightarrow> unit sysres \<times> mc_world" where
  "mc_set fd (ADD_MEMBERSHIP g m) w =
     (if (fd, g, m) \<in> set (g_members w) then (Inl EADDRINUSE, w) else (Inr (), w\<lparr>g_members := (fd, g, m) # g_members w\<rparr>))"
| "mc_set fd (DROP_MEMBERSHIP g m) w =
     (if (fd, g, m) \<notin> set (g_members w) then (Inl EADDRNOTAVAIL, w)
      else (Inr (), w\<lparr>g_members := removeAll (fd, g, m) (g_members w)\<rparr>))"
| "mc_set fd (MULTICAST_IF m) w = (Inr (), w\<lparr>g_via := m\<rparr>)"
| "mc_set fd (MULTICAST_TTL n) w = (Inr (), w\<lparr>g_hops := n\<rparr>)"
| "mc_set fd opt w = (Inr (), w)"

text \<open>There is one group, 239.0.0.1, and every address of an interface reads as its length.\<close>

definition mc_net :: "(unit, unit, mc_world) mc_env" where
  "mc_net = \<lparr>mc_loop = \<lparr>k_epoll_create = (\<lambda>w. (Inr 0, w)), k_eventfd = (\<lambda>w. (1, w)), k_epoll_ctl = (\<lambda>_ _ _ _ w. (True, w)),
       k_epoll_wait = (\<lambda>_ _ w. (Inr [], w)), k_write = (\<lambda>_ _ w. w), k_close = (\<lambda>fd w. w\<lparr>g_open := removeAll fd (g_open w)\<rparr>),
       run = (\<lambda>_ l. (Returns 0, l)), alloc = first_free\<rparr>,
     mc_process = (), mc_adapters = g_adapters,
     k_dgram = (\<lambda>_ _ w. (Inr (fresh_fd w), w\<lparr>g_open := fresh_fd w # g_open w\<rparr>)), k_option = mc_set,
     k_bind_any = (\<lambda>_ _ w. (True, w)), k_resolve = (\<lambda>_ _ _. Some (AF_INET, 0xEF000001)),
     inet_aton = (\<lambda>s. Some (of_nat (length s))),
     k_sendto = (\<lambda>_ d g p w. (Inr (length d), w\<lparr>g_sent := g_sent w @ [(g_via w, g_hops w, g, p, d)]\<rparr>)),
     k_recvmsg = (\<lambda>_ _ w. (Inl EAGAIN, w)), run_data = (\<lambda>_ st. (Returns 0, st))\<rparr>"

lemma fresh_fd: "fresh_fd w \<notin> set (g_open w)" "fresh_fd w \<noteq> -1"
proof -
  have m: "m \<le> fold max xs (m :: int) \<and> (\<forall>x\<in>set xs. x \<le> fold max xs m)" for xs m
    by (induction xs arbitrary: m) (auto, (metis max.cobounded2 order_trans max.cobounded1)+)
  have "x < fresh_fd w" if "x \<in> set (g_open w)" for x
    using m [of 2 "g_open w"] that by (auto simp: fresh_fd_def)
  then show "fresh_fd w \<notin> set (g_open w)" by blast
  show "fresh_fd w \<noteq> -1" using m [of 2 "g_open w"] by (simp add: fresh_fd_def)
qed

lemma mc_set_keeps: "mc_set fd opt w = (r, w') \<Longrightarrow> g_open w' = g_open w \<and> g_adapters w' = g_adapters w"
  by (cases "(fd, opt, w)" rule: mc_set.cases) (auto split: if_splits)

definition mc_members :: "fd \<Rightarrow> mc_world \<Rightarrow> (u32 \<times> member) set" where
  "mc_members fd w = {(g, m). (fd, g, m) \<in> set (g_members w)}"

interpretation lan: group_kernel mc_net "\<lambda>w. set (g_open w)" mc_members
  by unfold_locales (use fresh_fd in \<open>auto simp: mc_net_def mc_members_def dest: mc_set_keeps split: if_splits\<close>)

interpretation lan_out: datagram_kernel mc_net g_via g_hops g_sent
  by unfold_locales (simp_all add: mc_net_def)

lemma mc_willing: "willing mc_net mc_members"
  by (auto simp: willing_def mc_net_def mc_members_def)

definition mc_start_world :: "mc_world" where
  "mc_start_world = \<lparr>g_open = [4], g_members = [], g_via = By_index 0, g_hops = 0, g_sent = [],
     g_adapters = update desk (Some desk_ifs) []\<rparr>"

section \<open>Properties\<close>



text \<open>
  With a kernel that refuses nothing, \<open>addAllInterfaces\<close> makes exactly the adapters of the list
  members of the group, in addition to what was one before, and \<open>dropAllInterfaces\<close> takes exactly
  them out.
\<close>

theorem all_interfaces:
  assumes "group_kernel env opened members" and "willing env members" and "group_address env s = Some g"
    and "addAllInterfaces env (s, l) = (s1, l1)" and "dropAllInterfaces env (s1, l1) = (s2, l2)"
  shows "members (m_receiveEvent s) (world l1) =
      adapter_members g (mc_adapters env (world l)) \<union> members (m_receiveEvent s) (world l) \<and>
    members (m_receiveEvent s) (world l2) =
      members (m_receiveEvent s) (world l) - adapter_members g (mc_adapters env (world l))"
  using group_kernel.willing_fold [OF assms(1-3), of True "mc_adapters env (world l)" l]
    group_kernel.willing_fold [OF assms(1-3), of False "mc_adapters env (world l1)" l1] assms(4,5)
  by (auto simp: addAllInterfaces_def dropAllInterfaces_def addInterface_index_def dropInterface_index_def)

theorem all_interfaces_witness:
  "\<forall>k. (\<exists>s1 l1. addAllInterfaces mc_net (MulticastServer_init\<lparr>m_receiveEvent := 4\<rparr>, k\<lparr>world := mc_start_world\<rparr>) = (s1, l1) \<and>
      mc_members 4 (world l1) = adapter_members 0xEF000001 (g_adapters mc_start_world))"
proof
  fix k :: "(unit, mc_world) loop"
  obtain l where l: "k\<lparr>world := mc_start_world\<rparr> = l" by simp
  then have w: "world l = mc_start_world" by auto
  let ?s = "MulticastServer_init\<lparr>m_receiveEvent := 4\<rparr> :: unit MulticastServer"
  have g: "group_address mc_net ?s = Some 0xEF000001" by (simp add: group_address_def mc_net_def)
  obtain s1 l1 where a: "addAllInterfaces mc_net (?s, l) = (s1, l1)" by fastforce
  obtain s2 l2 where d: "dropAllInterfaces mc_net (s1, l1) = (s2, l2)" by fastforce
  have none: "mc_members 4 mc_start_world = {}" "mc_adapters mc_net mc_start_world = g_adapters mc_start_world"
    by (simp_all add: mc_members_def mc_start_world_def mc_net_def)
  from all_interfaces [OF lan.group_kernel_axioms mc_willing g a d] a w none
  show "\<exists>s1 l1. addAllInterfaces mc_net (?s, k\<lparr>world := mc_start_world\<rparr>) = (s1, l1) \<and>
      mc_members 4 (world l1) = adapter_members 0xEF000001 (g_adapters mc_start_world)" unfolding l by simp
qed

text \<open>
  C24: however \<open>start\<close> ends, on each of its error paths as well, a \<open>stop\<close> closes every descriptor it has
  opened and no other, and stopping again, as the destructor does, closes nothing.
\<close>

theorem start_stop_balance:
  assumes "group_kernel env opened members" and "\<And>l. run (mc_loop env) (mc_process env) l = (Returns 0, l)"
    and "m_receiveEvent s = -1" and "mc_start env g p cb (s, l) = Some (r, s1, l1)" and "mc_stop env (s1, l1) = (s2, l2)"
  shows "opened (world l2) = opened (world l) \<and> m_sendEvent s2 = -1 \<and> m_receiveEvent s2 = -1 \<and>
    opened (world (MulticastServer_destroy env (s2, l2))) = opened (world l)"
proof -
  obtain s3 l3 where d: "mc_stop env (s2, l2) = (s3, l3)" by fastforce
  from group_kernel.mc_start_opened [OF assms(1-4)] group_kernel.mc_stop_opened [OF assms(1,5)]
    group_kernel.mc_stop_opened [OF assms(1) d]
  show ?thesis by (simp add: MulticastServer_destroy_def d)
qed

theorem start_stop_balance_witness:
  "\<forall>k. (\<exists>r s1 l1 s2 l2.
    mc_start mc_net ''239.0.0.1'' 5000 (Some ()) (MulticastServer_init, k\<lparr>world := mc_start_world\<rparr>) = Some (r, s1, l1) \<and>
    mc_stop mc_net (s1, l1) = (s2, l2) \<and> set (g_open (world l2)) = {4})"
proof
  fix k :: "(unit, mc_world) loop"
  obtain l where l: "k\<lparr>world := mc_start_world\<rparr> = l" by simp
  then have w: "world l = mc_start_world" by auto
  have quiet: "\<And>l. run (mc_loop mc_net) (mc_process mc_net) l = (Returns 0, l)" by (simp add: mc_net_def)
  have "\<exists>y. mc_start mc_net ''239.0.0.1'' 5000 (Some ()) (MulticastServer_init, l) = Some y"
    using quiet
    by (auto simp: mc_start_def Let_def addEvent_def call_until.simps split: prod.splits)
  then obtain r s1 l1 where st: "mc_start mc_net ''239.0.0.1'' 5000 (Some ()) (MulticastServer_init, l) = Some (r, s1, l1)"
    by (metis prod_cases3)
  obtain s2 l2 where d: "mc_stop mc_net (s1, l1) = (s2, l2)" by fastforce
  have "m_receiveEvent (MulticastServer_init :: unit MulticastServer) = -1" by (simp add: MulticastServer_init_def)
  from start_stop_balance [OF lan.group_kernel_axioms quiet this st d] st d w
  show "\<exists>r s1 l1 s2 l2. mc_start mc_net ''239.0.0.1'' 5000 (Some ()) (MulticastServer_init, k\<lparr>world := mc_start_world\<rparr>) = Some (r, s1, l1) \<and>
    mc_stop mc_net (s1, l1) = (s2, l2) \<and> set (g_open (world l2)) = {4}" unfolding l
    by (auto simp: mc_start_world_def)
qed

text \<open>
  C25: sending over all interfaces, when nothing is refused: one datagram for each adapter that has an
  IPv4 address, in the order of the list, over the first of its addresses, with the hop limit and to
  the group and port of the object. The result is 0 when every adapter has an address, and
  \<open>ERR_INVALIDADAPTER\<close> otherwise; an adapter without one does not keep the others from sending.
\<close>

theorem send_over_all:
  assumes "datagram_kernel env via hops sent" and "inet_aton env (m_mutlicastgroup s) = Some g" and "data \<noteq> []"
    and "\<forall>(k, ad)\<in>set (mc_adapters env (world l)). \<forall>x\<in>set (m_ipv4Addresses ad). inet_aton env (address x) \<noteq> None"
  shows "\<exists>l'. mc_send_string env data ttl (s, l) =
      (if \<exists>(k, ad)\<in>set (mc_adapters env (world l)). m_ipv4Addresses ad = [] then ERR_INVALIDADAPTER else 0, s, l') \<and>
    sent (world l') = sent (world l) @ concat (map (\<lambda>(k, ad). case m_ipv4Addresses ad of [] \<Rightarrow> []
      | x # _ \<Rightarrow> [(By_address (the (inet_aton env (address x))), ttl, g, ucast (m_port s), data)]) (mc_adapters env (world l)))"
proof -
  have a: "\<forall>ad\<in>set (map snd (mc_adapters env (world l))). \<forall>x\<in>set (m_ipv4Addresses ad). inet_aton env (address x) \<noteq> None"
    using assms(4) by auto
  obtain l' where "send_loop env (Some data) (length data) ttl (map snd (mc_adapters env (world l))) 0 (s, l) =
      (if \<exists>ad\<in>set (map snd (mc_adapters env (world l))). m_ipv4Addresses ad = [] then ERR_INVALIDADAPTER else 0, s, l')"
    "sent (world l') = sent (world l) @ concat (map (\<lambda>ad. case m_ipv4Addresses ad of [] \<Rightarrow> []
      | x # _ \<Rightarrow> [(By_address (the (inet_aton env (address x))), ttl, g, ucast (m_port s), data)]) (map snd (mc_adapters env (world l))))"
    using datagram_kernel.send_loop_sent [OF assms(1,2,3) a, of ttl 0 l] by blast
  then show ?thesis
    by (intro exI [of _ l']) (auto simp: mc_send_string_def mc_send_def comp_def case_prod_unfold)
qed

theorem send_over_all_witness:
  "\<forall>k. (\<exists>l'. mc_send_string mc_net [1, 2] 1 (MulticastServer_init, k\<lparr>world := mc_start_world\<lparr>g_adapters := [(2, Netadapter_init), (3, Netadapter_init\<lparr>m_ipv4Addresses := [\<lparr>address = ''10.0.0.1'', netmask = []\<rparr>]\<rparr>)]\<rparr>\<rparr>) = (ERR_INVALIDADAPTER, MulticastServer_init, l') \<and>
      length (g_sent (world l')) = 1)"
proof
  fix k :: "(unit, mc_world) loop"
  obtain l where l: "k\<lparr>world := mc_start_world\<lparr>g_adapters := [(2, Netadapter_init), (3, Netadapter_init\<lparr>m_ipv4Addresses := [\<lparr>address = ''10.0.0.1'', netmask = []\<rparr>]\<rparr>)]\<rparr>\<rparr> = l" by simp
  then have w: "world l = mc_start_world\<lparr>g_adapters := [(2, Netadapter_init), (3, Netadapter_init\<lparr>m_ipv4Addresses := [\<lparr>address = ''10.0.0.1'', netmask = []\<rparr>]\<rparr>)]\<rparr>" by auto
  have "inet_aton mc_net (m_mutlicastgroup (MulticastServer_init :: unit MulticastServer)) = Some 0"
    by (simp add: mc_net_def MulticastServer_init_def)
  from send_over_all [OF lan_out.datagram_kernel_axioms this, of "[1, 2]" l 1] w
  show "\<exists>l'. mc_send_string mc_net [1, 2] 1 (MulticastServer_init, k\<lparr>world := mc_start_world\<lparr>g_adapters := [(2, Netadapter_init), (3, Netadapter_init\<lparr>m_ipv4Addresses := [\<lparr>address = ''10.0.0.1'', netmask = []\<rparr>]\<rparr>)]\<rparr>\<rparr>) = (ERR_INVALIDADAPTER, MulticastServer_init, l') \<and>
      length (g_sent (world l')) = 1" unfolding l
    by (auto simp: mc_net_def mc_start_world_def Netadapter_init_def)
qed

end
