(* ===== verification/Netlink.thy ===== *)
theory Netlink
  imports Netadapter_List Socket_Object
begin

text \<open>
  \<open>hbk::communication::Netlink\<close> under Linux (\<^verbatim>\<open>lib/communication/linux/netlink.cpp\<close>): a socket on which
  the kernel tells about links and addresses that come and go. A telegram is read with the macros of
  \<^verbatim>\<open>linux/netlink.h\<close> and \<^verbatim>\<open>linux/rtnetlink.h\<close>, which are written out here on the bytes of the buffer,
  with the widths of the variables the code gives them: the length that is left is a \<open>size_t\<close>, and
  the length of the attributes that is left is an \<open>unsigned int\<close> in one place and an \<open>int\<close> in the
  other. A pointer into the buffer is the list of the bytes from there on.
\<close>

section \<open>State\<close>

datatype event_t = LINK_ADDED | LINK_REMOVED | ADDRESS_ADDED | ADDRESS_REMOVED | COMPLETE

record 'c Netlink =
  nl_event :: fd
  nl_handler :: "'c option"

type_synonym ('c, 'h, 'w) nl_state = "'c Netlink \<times> ('h, 'w) loop"

text \<open>
  The system calls; the list of adapters the object has a reference to, with the tables its \<open>update\<close>
  reads; what the buffer on the stack holds before a telegram is received; and the callback, whose
  result is \<^term>\<open>False\<close> when it throws.
\<close>

record ('c, 'h, 'w) nl_env =
  nl_loop :: "('h, 'w) loop_env"
  nl_process :: 'h
  k_nl_socket :: "'w \<Rightarrow> fd sysres \<times> 'w"
  k_nl_reuse :: "fd \<Rightarrow> 'w \<Rightarrow> bool \<times> 'w"
  k_nl_bind :: "fd \<Rightarrow> 'w \<Rightarrow> string option \<times> 'w"
  k_nl_recv :: "fd \<Rightarrow> nat \<Rightarrow> 'w \<Rightarrow> bytes sysres \<times> 'w"
  k_nl_close :: "fd \<Rightarrow> 'w \<Rightarrow> int"
  stack_bytes :: "'w \<Rightarrow> bytes"
  if_tables :: "'w \<Rightarrow> if_env"
  getifaddrs :: "'w \<Rightarrow> ifaddr list option"
  netadapterlist :: "'w \<Rightarrow> Adapters"
  set_netadapterlist :: "Adapters \<Rightarrow> 'w \<Rightarrow> 'w"
  run_nl :: "'c \<Rightarrow> event_t \<Rightarrow> u32 \<Rightarrow> string \<Rightarrow> ('c, 'h, 'w) nl_state \<Rightarrow> bool \<times> ('c, 'h, 'w) nl_state"

text \<open>How the processing of a telegram ends: \<open>Overrun\<close> is a read behind the end of the buffer.\<close>

datatype nl_end = Ended | Threw | Overrun

definition MAX_DATAGRAM_SIZE :: nat where "MAX_DATAGRAM_SIZE = 65536"

text \<open>
  The constructor; \<^term>\<open>Inl\<close> is what it throws.
\<close>

definition Netlink_init :: "('c, 'h, 'w) nl_env \<Rightarrow> 'w \<Rightarrow> (string + 'c Netlink) \<times> 'w" where
  "Netlink_init env w =
     (case k_nl_socket env w of (res, w) \<Rightarrow>
      case res of
        Inl e \<Rightarrow> (Inl ''could not open netlink socket'', w)
      | Inr fd \<Rightarrow>
          (case k_nl_reuse env fd w of (ok, w) \<Rightarrow>
           if \<not> ok then (Inl ''Could not set SO_REUSEADDR!'', w)
           else case k_nl_bind env fd w of (err, w) \<Rightarrow>
             case err of
               Some e \<Rightarrow> (Inl (''could not bind netlink socket '' @ [CHR 0x27] @ e @ [CHR 0x27]), w)
             | None \<Rightarrow> (Inr \<lparr>nl_event = fd, nl_handler = None\<rparr>, w)))"

section \<open>Reading numbers\<close>

text \<open>A number of \<open>n\<close> bytes in the order of the machine, least byte first\<close>

fun le :: "bytes \<Rightarrow> nat" where
  "le [] = 0"
| "le (b # bs) = unat b + 256 * le bs"

lemma le_bound: "le bs < 256 ^ length bs"
proof (induction bs)
  case (Cons b bs)
  have "unat b < 256" using unsigned_less [of b] by simp
  with Cons show ?case by simp
qed simp

definition field :: "bytes \<Rightarrow> nat \<Rightarrow> nat \<Rightarrow> nat option" where
  "field p off n = (if off + n \<le> length p then Some (le (take n (drop off p))) else None)"

text \<open>\<open>NLMSG_ALIGN\<close> and \<open>RTA_ALIGN\<close>, which compute with 32 bits\<close>

definition align :: "u32 \<Rightarrow> u32" where
  "align n = (n + 3) AND NOT 3"

lemma down4: "(n :: u32) AND NOT 3 = n div 4 * 4"
proof -
  have 3: "(3 :: u32) = mask 2" by (simp add: mask_eq_exp_minus_1)
  have "n AND NOT (mask 2) = push_bit 2 (drop_bit 2 n)"
    by (rule bit_word_eqI) (auto simp: bit_and_iff bit_not_iff bit_mask_iff bit_push_bit_iff bit_drop_bit_eq le_iff_add not_less)
  then show ?thesis unfolding 3 by (simp add: push_bit_eq_mult drop_bit_eq_div)
qed

lemma unat_align: "unat (align n) = (unat n + 3) mod 2 ^ 32 div 4 * 4"
proof -
  have "unat (m - m mod 4) = unat m - unat m mod 4" for m :: u32
  proof -
    have "m mod 4 \<le> m" by (simp add: word_le_nat_alt unat_mod_distrib)
    then show ?thesis by (simp add: unat_sub unat_mod_distrib)
  qed
  then have "unat (align n) = unat (n + 3) - unat (n + 3) mod 4"
    unfolding align_def down4 by (metis minus_mod_eq_div_mult)
  then show ?thesis by (simp add: unat_word_ariths minus_mod_eq_div_mult)
qed
lemma align_pos:
  assumes "4 \<le> n" "n < 65536"
  shows "unat (align (of_nat n)) = (n + 3) div 4 * 4" and "0 < unat (align (of_nat n))"
proof -
  have "unat (of_nat n :: u32) = n" using assms by (simp add: unat_of_nat take_bit_nat_eq_self)
  then show "unat (align (of_nat n)) = (n + 3) div 4 * 4" using assms by (simp add: unat_align)
  then show "0 < unat (align (of_nat n))" using assms by simp
qed

text \<open>\<open>NLMSG_OK\<close>; \<^term>\<open>None\<close> when it reads behind the buffer\<close>

definition nlmsg_ok :: "bytes \<Rightarrow> u64 \<Rightarrow> bool option" where
  "nlmsg_ok nh len =
     (if len < 16 then Some False
      else map_option (\<lambda>l. 16 \<le> l \<and> l \<le> unat len) (field nh 0 4))"

text \<open>The length of the attributes that is left, in its type, and \<open>RTA_OK\<close>\<close>

datatype rtl = Unsigned u32 | Signed u32

fun rtl_value :: "rtl \<Rightarrow> int" where
  "rtl_value (Unsigned n) = uint n"
| "rtl_value (Signed n) = sint n"

fun rtl_minus :: "rtl \<Rightarrow> u32 \<Rightarrow> rtl" where
  "rtl_minus (Unsigned n) k = Unsigned (n - k)"
| "rtl_minus (Signed n) k = Signed (n - k)"

definition rta_ok :: "bytes \<Rightarrow> rtl \<Rightarrow> bool option" where
  "rta_ok rth l =
     (if rtl_value l < 4 then Some False
      else map_option (\<lambda>rta_len. 4 \<le> rta_len \<and> int rta_len \<le> rtl_value l) (field rth 0 2))"

definition NLMSG_ERROR :: nat where "NLMSG_ERROR = 2"
definition NLMSG_DONE :: nat where "NLMSG_DONE = 3"
definition RTM_NEWLINK :: nat where "RTM_NEWLINK = 16"
definition RTM_DELLINK :: nat where "RTM_DELLINK = 17"
definition RTM_NEWADDR :: nat where "RTM_NEWADDR = 20"
definition RTM_DELADDR :: nat where "RTM_DELADDR = 21"
definition IFA_LOCAL :: nat where "IFA_LOCAL = 2"
definition INET_FAMILY :: nat where "INET_FAMILY = 2"
definition IFF_UP :: u32 where "IFF_UP = 1"

lemmas nl_constants = NLMSG_ERROR_def NLMSG_DONE_def RTM_NEWLINK_def RTM_DELLINK_def RTM_NEWADDR_def
  RTM_DELADDR_def IFA_LOCAL_def INET_FAMILY_def IFF_UP_def

section \<open>Processing a telegram\<close>

text \<open>Calling the callback, if there is one\<close>

definition tell ::
  "('c, 'h, 'w) nl_env \<Rightarrow> event_t \<Rightarrow> u32 \<Rightarrow> string \<Rightarrow> ('c, 'h, 'w) nl_state \<Rightarrow> nl_end \<times> ('c, 'h, 'w) nl_state" where
  "tell env ev index addr st =
     (case nl_handler (fst st) of None \<Rightarrow> (Ended, st) | Some c \<Rightarrow>
      case run_nl env c ev index addr st of (ok, st) \<Rightarrow> (if ok then Ended else Threw, st))"

definition refresh :: "('c, 'h, 'w) nl_env \<Rightarrow> ('c, 'h, 'w) nl_state \<Rightarrow> ('c, 'h, 'w) nl_state" where
  "refresh env = (\<lambda>(s, l).
     let w = world l in
     (s, l\<lparr>world := set_netadapterlist env (update (if_tables env w) (getifaddrs env w) (netadapterlist env w)) w\<rparr>))"

text \<open>\<open>inet_ntoa\<close> of the four bytes in memory, which are in network order\<close>

definition inet_ntoa :: "bytes \<Rightarrow> string" where
  "inet_ntoa bs = dotted (of_nat (le (rev bs)))"

text \<open>The branches of the messages about a link; \<open>p\<close> points to the \<open>struct ifinfomsg\<close>.\<close>

definition newlink :: "('c, 'h, 'w) nl_env \<Rightarrow> bytes \<Rightarrow> ('c, 'h, 'w) nl_state \<Rightarrow> nl_end \<times> ('c, 'h, 'w) nl_state" where
  "newlink env p st =
     (case (field p 12 4, field p 8 4, field p 4 4) of
        (Some ifi_change, Some ifi_flags, Some ifi_index) \<Rightarrow>
          (if ifi_change \<noteq> 0 then
             tell env (if IFF_UP AND of_nat ifi_flags \<noteq> 0 then LINK_ADDED else LINK_REMOVED) (of_nat ifi_index) [] st
           else (Ended, st))
      | _ \<Rightarrow> (Overrun, st))"

definition dellink :: "('c, 'h, 'w) nl_env \<Rightarrow> bytes \<Rightarrow> ('c, 'h, 'w) nl_state \<Rightarrow> nl_end \<times> ('c, 'h, 'w) nl_state" where
  "dellink env p st =
     (case (field p 8 4, field p 4 4) of
        (Some ifi_flags, Some ifi_index) \<Rightarrow>
          (if IFF_UP AND of_nat ifi_flags = 0 then tell env LINK_REMOVED (of_nat ifi_index) [] st else (Ended, st))
      | _ \<Rightarrow> (Overrun, st))"

text \<open>One attribute of a message about an address: the address is told when it is the local one.\<close>

definition attribute ::
  "('c, 'h, 'w) nl_env \<Rightarrow> event_t \<Rightarrow> u32 \<Rightarrow> bytes \<Rightarrow> ('c, 'h, 'w) nl_state \<Rightarrow> nl_end \<times> ('c, 'h, 'w) nl_state" where
  "attribute env ev index rth st =
     (case field rth 2 2 of
        None \<Rightarrow> (Overrun, st)
      | Some rta_type \<Rightarrow>
          (if rta_type = IFA_LOCAL then
             (if nl_handler (fst st) = None then (Ended, st)
              else if length rth < 8 then (Overrun, st)
              else tell env ev index (inet_ntoa (take 4 (drop 4 rth))) st)
           else (Ended, st)))"

text \<open>The loop over the attributes, from \<open>rth\<close> on with \<open>rtl\<close> bytes left\<close>

function attributes ::
  "('c, 'h, 'w) nl_env \<Rightarrow> event_t \<Rightarrow> u32 \<Rightarrow> bytes \<Rightarrow> rtl \<Rightarrow> ('c, 'h, 'w) nl_state \<Rightarrow> nl_end \<times> ('c, 'h, 'w) nl_state" where
  "attributes env ev index rth rtl st =
     (if rtl_value rtl = 0 then (Ended, st)
      else case rta_ok rth rtl of
        None \<Rightarrow> (Overrun, st)
      | Some ok \<Rightarrow>
          (if \<not> ok then (Ended, st)
           else case attribute env ev index rth st of (e, st) \<Rightarrow>
             if e \<noteq> Ended then (e, st)
             else (let rta_len = align (of_nat (the (field rth 0 2)))
                   in attributes env ev index (drop (unat rta_len) rth) (rtl_minus rtl rta_len) st)))"
  by pat_completeness auto
termination
proof (relation "measure (\<lambda>(env, ev, index, rth, rtl, st). length rth)", simp_all, goal_cases)
  case (1 env ev index rth rtl)
  then obtain n where n: "field rth 0 2 = Some n" "4 \<le> n"
    by (auto simp: rta_ok_def split: if_splits)
  then have "2 \<le> length rth" "n < 65536"
    using le_bound [of "take 2 rth"] by (auto simp: field_def split: if_splits)
  then show ?case using n align_pos [of n] by auto
qed

declare attributes.simps [simp del]

text \<open>
  The branches of the messages about an address; \<open>nh\<close> points to the header. \<open>IFA_PAYLOAD\<close> is the length
  in the header less 24, computed with 32 bits.
\<close>

definition address_message ::
  "('c, 'h, 'w) nl_env \<Rightarrow> event_t \<Rightarrow> (u32 \<Rightarrow> rtl) \<Rightarrow> bytes \<Rightarrow> ('c, 'h, 'w) nl_state \<Rightarrow> nl_end \<times> ('c, 'h, 'w) nl_state" where
  "address_message env ev wrap nh st =
     (case (field nh 16 1, field nh 20 4, field nh 0 4) of
        (Some ifa_family, Some ifa_index, Some nlmsg_len) \<Rightarrow>
          (if ifa_family = INET_FAMILY then
             attributes env ev (of_nat ifa_index) (drop 24 nh) (wrap (of_nat nlmsg_len - 24)) st
           else (Ended, st))
      | _ \<Rightarrow> (Overrun, st))"

definition newaddr :: "('c, 'h, 'w) nl_env \<Rightarrow> bytes \<Rightarrow> ('c, 'h, 'w) nl_state \<Rightarrow> nl_end \<times> ('c, 'h, 'w) nl_state" where
  "newaddr env = address_message env ADDRESS_ADDED Unsigned"

definition deladdr :: "('c, 'h, 'w) nl_env \<Rightarrow> bytes \<Rightarrow> ('c, 'h, 'w) nl_state \<Rightarrow> nl_end \<times> ('c, 'h, 'w) nl_state" where
  "deladdr env = address_message env ADDRESS_REMOVED Signed"

definition netlink_message ::
  "('c, 'h, 'w) nl_env \<Rightarrow> nat \<Rightarrow> bytes \<Rightarrow> ('c, 'h, 'w) nl_state \<Rightarrow> nl_end \<times> ('c, 'h, 'w) nl_state" where
  "netlink_message env nlmsg_type nh st =
     (if nlmsg_type = RTM_NEWLINK then newlink env (drop 16 nh) st
      else if nlmsg_type = RTM_DELLINK then dellink env (drop 16 nh) st
      else if nlmsg_type = RTM_NEWADDR then newaddr env nh st
      else if nlmsg_type = RTM_DELADDR then deladdr env nh st
      else (Ended, st))"

partial_function (option) processNetlinkTelegram ::
  "('c, 'h, 'w) nl_env \<Rightarrow> bytes \<Rightarrow> u64 \<Rightarrow> ('c, 'h, 'w) nl_state \<Rightarrow> (nl_end \<times> ('c, 'h, 'w) nl_state) option" where
  "processNetlinkTelegram env nh bufferSize st =
     (case nlmsg_ok nh bufferSize of
        None \<Rightarrow> Some (Overrun, st)
      | Some ok \<Rightarrow>
          (if \<not> ok then Some (Ended, st)
           else case field nh 4 2 of
             None \<Rightarrow> Some (Overrun, st)
           | Some nlmsg_type \<Rightarrow>
               (if nlmsg_type = NLMSG_DONE \<or> nlmsg_type = NLMSG_ERROR then Some (Ended, st)
                else case netlink_message env nlmsg_type nh (refresh env st) of (e, st) \<Rightarrow>
                  if e \<noteq> Ended then Some (e, st)
                  else (let nlmsg_len = align (of_nat (the (field nh 0 4)))
                        in processNetlinkTelegram env (drop (unat nlmsg_len) nh) (bufferSize - ucast nlmsg_len) st))))"

section \<open>The object in the event loop\<close>

text \<open>What \<open>readBuffer\<close> holds once the bytes \<open>d\<close> are received into it\<close>

definition read_buffer :: "bytes \<Rightarrow> bytes \<Rightarrow> bytes" where
  "read_buffer d old = d @ drop (length d) old"

text \<open>One call of \<open>recvmsg\<close> into a buffer of this size\<close>

definition Netlink_receive ::
  "('c, 'h, 'w) nl_env \<Rightarrow> nat \<Rightarrow> ('c, 'h, 'w) nl_state \<Rightarrow> bytes sysres \<times> ('h, 'w) loop" where
  "Netlink_receive env bufferSize = (\<lambda>(s, l). sys (k_nl_recv env (nl_event s) bufferSize) l)"

text \<open>The result is what \<open>process\<close> returns to the event loop, where it does return.\<close>

definition Netlink_process ::
  "('c, 'h, 'w) nl_env \<Rightarrow> ('c, 'h, 'w) nl_state \<Rightarrow> (nl_end \<times> int \<times> ('c, 'h, 'w) nl_state) option" where
  "Netlink_process env = (\<lambda>(s, l).
     let old = stack_bytes env (world l) in
     case Netlink_receive env MAX_DATAGRAM_SIZE (s, l) of (res, l) \<Rightarrow>
     case res of
       Inl e \<Rightarrow> Some (Ended, -1, s, l)
     | Inr d \<Rightarrow>
         (if d = [] then Some (Ended, 0, s, l)
          else map_option (\<lambda>(e, st). (e, int (length d), st))
            (processNetlinkTelegram env (read_buffer d old) (of_nat (length d)) (s, l))))"

definition Netlink_start ::
  "('c, 'h, 'w) nl_env \<Rightarrow> 'c option \<Rightarrow> ('c, 'h, 'w) nl_state \<Rightarrow> (outcome \<times> ('c, 'h, 'w) nl_state) option" where
  "Netlink_start env interfaceAddressEventHandler = (\<lambda>(s, l).
     case tell env COMPLETE 0 [] (s\<lparr>nl_handler := interfaceAddressEventHandler\<rparr>, l) of (e, s, l) \<Rightarrow>
     if e \<noteq> Ended then Some (Throws, s, l)
     else map_option (\<lambda>(r, l). (case r of Throws \<Rightarrow> Throws | Returns _ \<Rightarrow> Returns 0, s, l))
       (addEvent (nl_loop env) (nl_event s) (Some (nl_process env)) l))"

definition Netlink_stop :: "('c, 'h, 'w) nl_env \<Rightarrow> ('c, 'h, 'w) nl_state \<Rightarrow> int \<times> ('c, 'h, 'w) nl_state" where
  "Netlink_stop env = (\<lambda>(s, l).
     let l = snd (eraseEvent (nl_loop env) (nl_event s) l)
     in (k_nl_close env (nl_event s) (world l), s, l\<lparr>world := k_close (nl_loop env) (nl_event s) (world l)\<rparr>))"

definition Netlink_destroy :: "('c, 'h, 'w) nl_env \<Rightarrow> ('c, 'h, 'w) nl_state \<Rightarrow> ('h, 'w) loop" where
  "Netlink_destroy env st = snd (snd (Netlink_stop env st))"

end
