(* ===== verification/Netlink_Props.thy ===== *)
theory Netlink_Props
  imports Netlink
begin

text \<open>
  What the kernel sends as data, and how \<open>Netlink\<close> reacts to it; the bytes of a telegram are an
  encoding of this data. The theorems show that the parsing of \<^theory_text>\<open>Netlink\<close> implements the reaction
  to the data, that it comes to an end, and what it does with a telegram whose end is not padded.
\<close>

section \<open>Messages as data\<close>

datatype rtattr = Local u32 | Attr nat bytes

datatype nl_msg =
    End nat bytes
  | Link bool u32 u32 u32 bytes bytes
  | Addr bool nat u32 bytes "rtattr list"
  | Other nat bytes

fun attr_events :: "bool \<Rightarrow> u32 \<Rightarrow> rtattr list \<Rightarrow> (event_t \<times> u32 \<times> string) list" where
  "attr_events new index [] = []"
| "attr_events new index (Local a # as) =
     (if new then ADDRESS_ADDED else ADDRESS_REMOVED, index, dotted a) # attr_events new index as"
| "attr_events new index (Attr _ _ # as) = attr_events new index as"

text \<open>A link that is new and has changed is added when it is up, and removed otherwise.\<close>

fun msg_events :: "nl_msg \<Rightarrow> (event_t \<times> u32 \<times> string) list" where
  "msg_events (Link new index flags change _ _) =
     (if new then (if change = 0 then [] else [(if flags AND IFF_UP \<noteq> 0 then LINK_ADDED else LINK_REMOVED, index, [])])
      else if flags AND IFF_UP = 0 then [(LINK_REMOVED, index, [])] else [])"
| "msg_events (Addr new family index _ as) = (if family = INET_FAMILY then attr_events new index as else [])"
| "msg_events _ = []"

fun tell_all ::
  "('c, 'h, 'w) nl_env \<Rightarrow> (event_t \<times> u32 \<times> string) list \<Rightarrow> ('c, 'h, 'w) nl_state \<Rightarrow> nl_end \<times> ('c, 'h, 'w) nl_state" where
  "tell_all env [] st = (Ended, st)"
| "tell_all env ((ev, index, addr) # evs) st =
     (case tell env ev index addr st of (e, st) \<Rightarrow> if e \<noteq> Ended then (e, st) else tell_all env evs st)"

text \<open>The list of adapters is updated before each message is told; nothing comes after the end.\<close>

fun react ::
  "('c, 'h, 'w) nl_env \<Rightarrow> nl_msg list \<Rightarrow> ('c, 'h, 'w) nl_state \<Rightarrow> nl_end \<times> ('c, 'h, 'w) nl_state" where
  "react env [] st = (Ended, st)"
| "react env (End _ _ # ms) st = (Ended, st)"
| "react env (m # ms) st =
     (case tell_all env (msg_events m) (refresh env st) of (e, st) \<Rightarrow> if e \<noteq> Ended then (e, st) else react env ms st)"

section \<open>Their bytes\<close>

fun le_bytes :: "nat \<Rightarrow> nat \<Rightarrow> bytes" where
  "le_bytes 0 n = []"
| "le_bytes (Suc k) n = of_nat (n mod 256) # le_bytes k (n div 256)"

definition pad :: "bytes \<Rightarrow> bytes" where
  "pad bs = bs @ replicate ((length bs + 3) div 4 * 4 - length bs) 0"

fun rta_bytes :: "rtattr \<Rightarrow> bytes" where
  "rta_bytes (Local a) = pad (le_bytes 2 8 @ le_bytes 2 IFA_LOCAL @ rev (le_bytes 4 (unat a)))"
| "rta_bytes (Attr ty d) = pad (le_bytes 2 (4 + length d) @ le_bytes 2 ty @ d)"

fun msg_type :: "nl_msg \<Rightarrow> nat" where
  "msg_type (End ty _) = ty"
| "msg_type (Link new _ _ _ _ _) = (if new then RTM_NEWLINK else RTM_DELLINK)"
| "msg_type (Addr new _ _ _ _) = (if new then RTM_NEWADDR else RTM_DELADDR)"
| "msg_type (Other ty _) = ty"

fun payload :: "nl_msg \<Rightarrow> bytes" where
  "payload (End _ bs) = bs"
| "payload (Link _ index flags change h bs) =
     h @ le_bytes 4 (unat index) @ le_bytes 4 (unat flags) @ le_bytes 4 (unat change) @ bs"
| "payload (Addr _ family index h as) = le_bytes 1 family @ h @ le_bytes 4 (unat index) @ concat (map rta_bytes as)"
| "payload (Other _ bs) = bs"

text \<open>A message with the rest of its header: flags, sequence number and port\<close>

definition nl_bytes :: "bytes \<times> nl_msg \<Rightarrow> bytes" where
  "nl_bytes = (\<lambda>(hdr, m). pad (le_bytes 4 (16 + length (payload m)) @ le_bytes 2 (msg_type m) @ hdr @ payload m))"

fun attr_ok :: "rtattr \<Rightarrow> bool" where
  "attr_ok (Local a) = True"
| "attr_ok (Attr ty d) = (ty \<noteq> IFA_LOCAL \<and> ty < 65536 \<and> 4 + length d < 65536)"

fun msg_ok :: "nl_msg \<Rightarrow> bool" where
  "msg_ok (End ty bs) = (ty = NLMSG_DONE \<or> ty = NLMSG_ERROR)"
| "msg_ok (Link _ _ _ _ h bs) = (length h = 4)"
| "msg_ok (Addr _ family _ h as) = (family < 256 \<and> length h = 3 \<and> (\<forall>a\<in>set as. attr_ok a))"
| "msg_ok (Other ty bs) = (ty < 65536 \<and> ty \<notin> {NLMSG_DONE, NLMSG_ERROR, RTM_NEWLINK, RTM_DELLINK, RTM_NEWADDR, RTM_DELADDR})"

definition telegram_ok :: "(bytes \<times> nl_msg) list \<Rightarrow> bool" where
  "telegram_ok ms \<longleftrightarrow> (\<forall>(hdr, m)\<in>set ms. length hdr = 10 \<and> msg_ok m) \<and> length (concat (map nl_bytes ms)) \<le> MAX_DATAGRAM_SIZE"

section \<open>Reading what was written\<close>

lemma length_le_bytes [simp]: "length (le_bytes k n) = k"
  by (induction k arbitrary: n) auto

lemma le_le_bytes: "le (le_bytes k n) = n mod 256 ^ k"
proof (induction k arbitrary: n)
  case (Suc k)
  then show ?case by (simp add: unat_of_nat mod_mult2_eq take_bit_eq_mod)
qed simp

lemma field_here: "field (le_bytes k n @ r) 0 k = Some (n mod 256 ^ k)"
  by (simp add: field_def le_le_bytes)

lemma field_later: "length a \<le> off \<Longrightarrow> field (a @ r) off k = field r (off - length a) k"
  by (auto simp: field_def)

lemma of_nat_unat_u32: "(of_nat (unat (a :: u32) mod 4294967296) :: u32) = a"
  by simp

lemma pad_append: "pad bs @ r = bs @ replicate ((length bs + 3) div 4 * 4 - length bs) 0 @ r"
  by (simp add: pad_def)

lemma length_pad: "length (pad bs) = (length bs + 3) div 4 * 4"
  by (simp add: pad_def)

lemma drop_pad: "n = (length bs + 3) div 4 * 4 \<Longrightarrow> drop n (pad bs @ r) = r"
  by (simp add: length_pad)

section \<open>Attributes\<close>

lemma rta_bytes_fields:
  assumes "attr_ok a"
  shows "\<exists>n. field (rta_bytes a @ r) 0 2 = Some n \<and> 4 \<le> n \<and> n < 65536 \<and> length (rta_bytes a) = (n + 3) div 4 * 4"
    and "field (rta_bytes a @ r) 2 2 = Some (case a of Local _ \<Rightarrow> IFA_LOCAL | Attr ty _ \<Rightarrow> ty)"
proof -
  show "\<exists>n. field (rta_bytes a @ r) 0 2 = Some n \<and> 4 \<le> n \<and> n < 65536 \<and> length (rta_bytes a) = (n + 3) div 4 * 4"
    using assms by (cases a) (auto simp: pad_append length_pad field_here)
  show "field (rta_bytes a @ r) 2 2 = Some (case a of Local _ \<Rightarrow> IFA_LOCAL | Attr ty _ \<Rightarrow> ty)"
    using assms by (cases a) (auto simp: pad_append field_later field_here IFA_LOCAL_def)
qed

lemma attribute_event:
  assumes "attr_ok a"
  shows "attribute env (if new then ADDRESS_ADDED else ADDRESS_REMOVED) index (rta_bytes a @ r) st =
    tell_all env (attr_events new index [a]) st"
proof (cases a)
  case (Local x)
  have "take 4 (drop 4 (rta_bytes a @ r)) = rev (le_bytes 4 (unat x))"
    by (simp add: Local pad_def)
  moreover have "\<not> length (rta_bytes a @ r) < 8" by (simp add: Local length_pad)
  moreover have "inet_ntoa (rev (le_bytes 4 (unat x))) = dotted x" by (simp add: inet_ntoa_def le_le_bytes)
  ultimately show ?thesis using rta_bytes_fields(2) [OF assms, of r]
    by (auto simp: attribute_def Local tell_def split: option.splits prod.splits)
next
  case (Attr ty d)
  then show ?thesis using rta_bytes_fields(2) [OF assms, of r] assms by (simp add: attribute_def)
qed

lemma tell_all_append:
  "tell_all env (xs @ ys) st = (case tell_all env xs st of (e, st) \<Rightarrow> if e \<noteq> Ended then (e, st) else tell_all env ys st)"
  by (induction env xs st rule: tell_all.induct) (auto split: prod.splits)

lemma attr_events_Cons: "attr_events new index (a # as) = attr_events new index [a] @ attr_events new index as"
  by (cases a) auto

text \<open>The length that is left, for both types of it, as long as it is less than 2 to the 31\<close>

definition length_left :: "rtl \<Rightarrow> nat \<Rightarrow> bool" where
  "length_left l n \<longleftrightarrow> l = Unsigned (of_nat n) \<or> l = Signed (of_nat n)"

lemma length_left_value:
  assumes "length_left l n" "n < 2 ^ 31"
  shows "rtl_value l = int n"
proof -
  have "sint (of_nat n :: u32) = int n" using assms(2) by (simp add: signed_of_nat signed_take_bit_int_eq_self)
  moreover have "uint (of_nat n :: u32) = int n" using assms(2) by (simp add: uint_nat unat_of_nat take_bit_nat_eq_self)
  ultimately show ?thesis using assms(1) by (auto simp: length_left_def)
qed

lemma length_left_minus: "length_left l n \<Longrightarrow> k \<le> n \<Longrightarrow> length_left (rtl_minus l (of_nat k)) (n - k)"
  by (auto simp: length_left_def of_nat_diff)

lemma attributes_events:
  assumes "\<forall>a\<in>set as. attr_ok a" "length_left l (length (concat (map rta_bytes as)))"
    and "length (concat (map rta_bytes as)) < 2 ^ 31"
  shows "attributes env (if new then ADDRESS_ADDED else ADDRESS_REMOVED) index (concat (map rta_bytes as) @ post) l st =
    tell_all env (attr_events new index as) st"
  using assms
proof (induction as arbitrary: l st)
  case Nil
  then show ?case using length_left_value [of l 0] by (simp add: attributes.simps [of _ _ _ _ l])
next
  case (Cons a as)
  let ?rest = "concat (map rta_bytes as) @ post"
  let ?n = "length (concat (map rta_bytes (a # as)))"
  have v: "rtl_value l = int ?n" using Cons.prems by (intro length_left_value)
  obtain n where n: "field (rta_bytes a @ ?rest) 0 2 = Some n" "4 \<le> n" "n < 65536" "length (rta_bytes a) = (n + 3) div 4 * 4"
    using rta_bytes_fields(1) [of a ?rest] Cons.prems(1) by auto
  have "n \<le> length (rta_bytes a)" "4 \<le> length (rta_bytes a)" using n by linarith+
  then have ok: "rta_ok (rta_bytes a @ ?rest) l = Some True" using n(1,2) v by (simp add: rta_ok_def)
  have step: "unat (align (of_nat n)) = length (rta_bytes a)" using align_pos(1) n by simp
  have "align (of_nat n) = of_nat (length (rta_bytes a))" by (simp flip: step)
  then have left: "length_left (rtl_minus l (align (of_nat n))) (length (concat (map rta_bytes as)))"
    using length_left_minus [OF Cons.prems(2), of "length (rta_bytes a)"] by simp
  have shorter: "length (concat (map rta_bytes as)) < 2 ^ 31" using Cons.prems(3) by simp
  have "attribute env (if new then ADDRESS_ADDED else ADDRESS_REMOVED) index (rta_bytes a @ ?rest) st =
      tell_all env (attr_events new index [a]) st" using Cons.prems(1) by (intro attribute_event) simp
  then show ?case
    unfolding attr_events_Cons [of _ _ a as] tell_all_append
    using Cons.IH [OF _ left shorter] Cons.prems(1) ok v n(1,2,4) step
    by (subst attributes.simps) (auto simp: Let_def split: prod.splits)
qed

section \<open>Messages\<close>

lemma msg_type_bound: "msg_ok m \<Longrightarrow> msg_type m < 65536"
  by (cases m) (auto simp: nl_constants)

lemma nl_bytes_fields:
  assumes "length hdr = 10" "msg_ok m" "16 + length (payload m) < 2 ^ 31"
  shows "field (nl_bytes (hdr, m) @ r) 0 4 = Some (16 + length (payload m))"
    and "field (nl_bytes (hdr, m) @ r) 4 2 = Some (msg_type m)"
    and "length (nl_bytes (hdr, m)) = (16 + length (payload m) + 3) div 4 * 4"
    and "\<exists>z. nl_bytes (hdr, m) = le_bytes 4 (16 + length (payload m)) @ le_bytes 2 (msg_type m) @ hdr @ payload m @ z"
  using assms msg_type_bound [OF assms(2)]
  by (simp_all add: nl_bytes_def pad_append length_pad field_here field_later) (auto simp: pad_def)

lemma field_payload:
  assumes "length hdr = 10"
  shows "field (le_bytes 4 n @ le_bytes 2 ty @ hdr @ p) (16 + k) j = field p k j"
  using assms by (simp add: field_def add.commute)

lemma drop_payload:
  assumes "length hdr = 10"
  shows "drop (16 + k) (le_bytes 4 n @ le_bytes 2 ty @ hdr @ p) = drop k p"
  using assms by (simp add: add.commute)

lemma tell_all_one: "tell_all env [(ev, index, addr)] st = tell env ev index addr st"
  by (cases "tell env ev index addr st") simp

lemma newlink_events:
  assumes "msg_ok (Link new index flags change h bs)"
  shows "(if new then newlink else dellink) env (payload (Link new index flags change h bs) @ r) st =
    tell_all env (msg_events (Link new index flags change h bs)) st"
proof -
  have f: "field (payload (Link new index flags change h bs) @ r) 4 4 = Some (unat index)"
    "field (payload (Link new index flags change h bs) @ r) 8 4 = Some (unat flags)"
    "field (payload (Link new index flags change h bs) @ r) 12 4 = Some (unat change)"
    using assms by (simp_all add: field_later field_here)
  have "unat change \<noteq> 0 \<longleftrightarrow> change \<noteq> 0" by (simp add: unat_eq_0)
  with f show ?thesis
    by (cases new) (simp_all del: payload.simps tell_all.simps add: newlink_def dellink_def and.commute tell_all_one tell_all.simps(1))
qed

lemma address_events:
  assumes "msg_ok (Addr new family index h as)" "length hdr = 10"
    and "16 + length (payload (Addr new family index h as)) < 2 ^ 31"
  shows "(if new then newaddr else deladdr) env (nl_bytes (hdr, Addr new family index h as) @ r) st =
    tell_all env (msg_events (Addr new family index h as)) st"
proof -
  let ?m = "Addr new family index h as" and ?as = "concat (map rta_bytes as)"
  obtain z where z: "nl_bytes (hdr, ?m) = le_bytes 4 (16 + length (payload ?m)) @ le_bytes 2 (msg_type ?m) @ hdr @ payload ?m @ z"
    using nl_bytes_fields(4) [OF assms(2,1,3)] by blast
  let ?p = "le_bytes 1 family @ h @ le_bytes 4 (unat index) @ ?as @ z @ r"
  have p: "field ?p 0 1 = Some family" "field ?p 4 4 = Some (unat index)"
    using assms(1) field_here [of 1 family] field_later [of "le_bytes 1 family @ h" 4]
    by (simp_all add: field_here del: One_nat_def)
  have split: "nl_bytes (hdr, ?m) @ r = le_bytes 4 (16 + length (payload ?m)) @ le_bytes 2 (msg_type ?m) @ hdr @ ?p"
    unfolding z by simp
  have f: "field (nl_bytes (hdr, ?m) @ r) 16 1 = Some family" "field (nl_bytes (hdr, ?m) @ r) 20 4 = Some (unat index)"
    using field_payload [OF assms(2), of _ _ ?p 0] field_payload [OF assms(2), of _ _ ?p 4] p unfolding split by simp_all
  have l: "field (nl_bytes (hdr, ?m) @ r) 0 4 = Some (24 + length ?as)"
    using nl_bytes_fields(1) [OF assms(2,1,3), of r] assms(1) by simp
  have d: "drop 24 (nl_bytes (hdr, ?m) @ r) = ?as @ z @ r"
    using drop_payload [OF assms(2), of 8] assms(1) unfolding z by simp
  have "of_nat (24 + length ?as) - 24 = (of_nat (length ?as) :: u32)" by simp
  moreover have "length_left (Unsigned (of_nat (length ?as))) (length ?as)" "length_left (Signed (of_nat (length ?as))) (length ?as)"
    by (simp_all add: length_left_def)
  moreover have "\<forall>a\<in>set as. attr_ok a" "length ?as < 2 ^ 31" using assms(1,3) by simp_all
  ultimately show ?thesis
    using attributes_events [of as _ env new index "z @ r" st] f l d
    by (auto simp: newaddr_def deladdr_def address_message_def)
qed

lemma message_events:
  assumes "msg_ok m" "\<And>ty bs. m \<noteq> End ty bs" "length hdr = 10" "16 + length (payload m) < 2 ^ 31"
  shows "netlink_message env (msg_type m) (nl_bytes (hdr, m) @ r) st = tell_all env (msg_events m) st"
proof (cases m)
  case (Link new index flags change h bs)
  obtain z where "nl_bytes (hdr, m) = le_bytes 4 (16 + length (payload m)) @ le_bytes 2 (msg_type m) @ hdr @ payload m @ z"
    using nl_bytes_fields(4) [OF assms(3,1,4)] by blast
  then have "drop 16 (nl_bytes (hdr, m) @ r) = payload m @ z @ r" using assms(3) by simp
  then show ?thesis
    using newlink_events [of new index flags change h bs env "z @ r" st] assms(1) Link
    by (cases new) (simp_all del: payload.simps msg_ok.simps msg_events.simps add: netlink_message_def nl_constants)
next
  case (Addr new family index h as)
  then show ?thesis
    using address_events [of new family index h as hdr env r st] assms
    by (cases new) (simp_all del: payload.simps msg_ok.simps msg_events.simps add: netlink_message_def nl_constants)
qed (use assms in \<open>auto simp: netlink_message_def\<close>)

section \<open>Telegrams\<close>

lemma unat_len64: "n < 2 ^ 31 \<Longrightarrow> unat (of_nat n :: u64) = n"
  by (simp add: unat_of_nat take_bit_nat_eq_self)

lemma of_nat_minus64:
  assumes "k \<le> n" "unat (w :: u32) = k"
  shows "(of_nat n :: u64) - ucast w = of_nat (n - k)"
proof -
  have "(ucast w :: u64) = of_nat k" using assms(2) by (metis of_nat_unat)
  then show ?thesis using assms(1) by (simp add: of_nat_diff)
qed

lemma unat_align_of_nat:
  assumes "k < 2 ^ 31"
  shows "unat (align (of_nat k)) = (k + 3) div 4 * 4"
proof -
  have "unat (of_nat k :: u32) = k" using assms by (simp add: unat_of_nat take_bit_nat_eq_self)
  then show ?thesis using assms by (simp add: unat_align)
qed

lemma telegram_react:
  assumes "\<forall>(hdr, m)\<in>set ms. length hdr = 10 \<and> msg_ok m" "length (concat (map nl_bytes ms)) < 2 ^ 31"
  shows "processNetlinkTelegram env (concat (map nl_bytes ms) @ post) (of_nat (length (concat (map nl_bytes ms)))) st =
    Some (react env (map snd ms) st)"
  using assms
proof (induction ms arbitrary: st)
  case Nil
  then show ?case by (subst processNetlinkTelegram.simps) (simp add: nlmsg_ok_def)
next
  case (Cons hm ms)
  obtain hdr m where hm: "hm = (hdr, m)" by fastforce
  let ?rest = "concat (map nl_bytes ms) @ post" and ?n = "length (concat (map nl_bytes (hm # ms)))"
  have ok: "length hdr = 10" "msg_ok m" using Cons.prems(1) hm by auto
  have len: "length (nl_bytes (hdr, m)) = (16 + length (payload m) + 3) div 4 * 4" by (simp add: nl_bytes_def length_pad ok(1))
  have small: "16 + length (payload m) < 2 ^ 31" "16 + length (payload m) \<le> length (nl_bytes (hdr, m))"
    "length (nl_bytes (hdr, m)) \<le> ?n" "?n < 2 ^ 31" using Cons.prems(2) len by (simp_all add: hm)
  have f: "field (nl_bytes (hdr, m) @ ?rest) 0 4 = Some (16 + length (payload m))"
    "field (nl_bytes (hdr, m) @ ?rest) 4 2 = Some (msg_type m)" using nl_bytes_fields(1,2) [OF ok small(1)] by blast+
  have "\<not> (of_nat ?n :: u64) < 16" using small unat_len64 [OF small(4)] by (simp add: word_less_nat_alt)
  then have nlok: "nlmsg_ok (nl_bytes (hdr, m) @ ?rest) (of_nat ?n) = Some True"
    using f(1) small unat_len64 [OF small(4)] by (simp add: nlmsg_ok_def)
  have al: "unat (align (of_nat (16 + length (payload m)))) = length (nl_bytes (hdr, m))"
    using unat_align_of_nat [OF small(1)] len by simp
  have left: "(of_nat ?n :: u64) - ucast (align (of_nat (16 + length (payload m)))) = of_nat (length (concat (map nl_bytes ms)))"
    using of_nat_minus64 [OF small(3) al] by (simp add: hm)
  have IH: "processNetlinkTelegram env ?rest (of_nat (length (concat (map nl_bytes ms)))) st = Some (react env (map snd ms) st)" for st
    using Cons.IH Cons.prems by auto
  show ?case
  proof (cases "\<exists>ty bs. m = End ty bs")
    case True
    then show ?thesis using nlok f ok(2) by (subst processNetlinkTelegram.simps) (auto simp: hm)
  next
    case False
    then have ty: "msg_type m \<noteq> NLMSG_DONE" "msg_type m \<noteq> NLMSG_ERROR"
      and r: "react env (m # map snd ms) st =
        (case tell_all env (msg_events m) (refresh env st) of (e, st) \<Rightarrow> if e \<noteq> Ended then (e, st) else react env (map snd ms) st)"
      using ok(2) by (cases m; auto simp: nl_constants)+
    have "netlink_message env (msg_type m) (nl_bytes (hdr, m) @ ?rest) (refresh env st) = tell_all env (msg_events m) (refresh env st)"
      using message_events [OF ok(2) _ ok(1) small(1)] False by blast
    then show ?thesis using nlok f ty r al left IH
      by (subst processNetlinkTelegram.simps) (simp add: hm Let_def split: prod.splits)
  qed
qed

text \<open>
  C26: on a telegram of the kernel \<open>process\<close> reacts to the messages in it: for each of them, up to the
  first that is an end or an error, the list of adapters is updated and then the callback is told of
  the links and IPv4 addresses that came or went, in order, whatever the rest of the stack buffer
  holds; if the callback throws, nothing more is done. The result is the length of the telegram.
\<close>

theorem process_reacts:
  assumes "telegram_ok ms" "ms \<noteq> []"
    and "sys (k_nl_recv env (nl_event s) MAX_DATAGRAM_SIZE) l = (Inr (concat (map nl_bytes ms)), l')"
  shows "Netlink_process env (s, l) =
    (case react env (map snd ms) (s, l') of (e, st) \<Rightarrow> Some (e, int (length (concat (map nl_bytes ms))), st))"
proof -
  have ok: "\<forall>(hdr, m)\<in>set ms. length hdr = 10 \<and> msg_ok m" "length (concat (map nl_bytes ms)) < 2 ^ 31"
    using assms(1) by (auto simp: telegram_ok_def MAX_DATAGRAM_SIZE_def)
  have run: "Netlink_process env (s, l) = map_option (\<lambda>(e, st). (e, int (length D), st))
      (processNetlinkTelegram env (D @ drop (length D) (stack_bytes env (world l))) (of_nat (length D)) (s, l'))"
    if "D \<noteq> []" "sys (k_nl_recv env (nl_event s) MAX_DATAGRAM_SIZE) l = (Inr D, l')" for D
    using that by (simp add: Netlink_process_def Netlink_receive_def read_buffer_def Let_def)
  have "concat (map nl_bytes ms) \<noteq> []" using assms(2) by (cases ms) (auto simp: nl_bytes_def pad_def)
  from run [OF this assms(3)] show ?thesis unfolding telegram_react [OF ok] by (simp split: prod.splits)
qed

text \<open>
  C27: a telegram whose length is a multiple of 4, as those of the kernel are, is done with after
  finitely many steps whatever it contains.
\<close>

theorem telegram_ends:
  assumes "4 dvd n" "n \<le> MAX_DATAGRAM_SIZE"
  shows "\<exists>e st'. processNetlinkTelegram env nh (of_nat n) st = Some (e, st')"
  using assms
proof (induction n arbitrary: nh st rule: less_induct)
  case (less n)
  have n: "unat (of_nat n :: u64) = n" using less.prems by (intro unat_len64) (simp add: MAX_DATAGRAM_SIZE_def)
  show ?case
  proof (cases "nlmsg_ok nh (of_nat n) = Some True")
    case True
    then obtain k where k: "field nh 0 4 = Some k" "16 \<le> k" "k \<le> n"
      using n by (auto simp: nlmsg_ok_def split: if_splits)
    have al: "unat (align (of_nat k)) = (k + 3) div 4 * 4"
      using k less.prems(2) by (intro unat_align_of_nat) (simp add: MAX_DATAGRAM_SIZE_def)
    have le: "(k + 3) div 4 * 4 \<le> n" using k less.prems(1) by (auto elim!: dvdE)
    have dvd: "4 dvd n - (k + 3) div 4 * 4" using less.prems(1) by (simp add: dvd_diff_nat)
    have "n - (k + 3) div 4 * 4 < n" using k(2) le by linarith
    then have IH: "\<exists>e st'. processNetlinkTelegram env nh' (of_nat n - ucast (align (of_nat k))) st = Some (e, st')" for nh' st
      unfolding of_nat_minus64 [OF le al] using less.IH dvd less.prems(2) by simp
    show ?thesis using True k(1) IH
      by (subst processNetlinkTelegram.simps) (auto simp: Let_def split: option.splits prod.splits)
  next
    case False
    then show ?thesis by (subst processNetlinkTelegram.simps) (auto split: option.splits)
  qed
qed

section \<open>A message that is not padded\<close>

text \<open>A message of 29 bytes about an IPv4 address, with one attribute of 5 bytes\<close>

definition unpadded :: "nat \<Rightarrow> bytes \<Rightarrow> bytes \<Rightarrow> u32 \<Rightarrow> nat \<Rightarrow> u8 \<Rightarrow> bytes" where
  "unpadded ty hdr h index rta_type b =
     le_bytes 4 29 @ le_bytes 2 ty @ hdr @ le_bytes 1 INET_FAMILY @ h @ le_bytes 4 (unat index) @ le_bytes 2 5 @ le_bytes 2 rta_type @ [b]"

lemma unpadded_address:
  assumes "length hdr = 10" "length h = 3"
  shows "address_message env ev wrap (unpadded ty hdr h index rta_type b @ p) st =
    attributes env ev index (le_bytes 2 5 @ le_bytes 2 rta_type @ b # p) (wrap 5) st"
proof -
  let ?q = "le_bytes 1 INET_FAMILY @ h @ le_bytes 4 (unat index) @ le_bytes 2 5 @ le_bytes 2 rta_type @ b # p"
  have s: "unpadded ty hdr h index rta_type b @ p = le_bytes 4 29 @ le_bytes 2 ty @ hdr @ ?q" by (simp add: unpadded_def)
  have q: "field ?q 0 1 = Some INET_FAMILY" "field ?q 4 4 = Some (unat index)"
    using assms(2) field_here [of 1 INET_FAMILY] field_later [of "le_bytes 1 INET_FAMILY @ h" 4]
    by (simp_all add: field_here INET_FAMILY_def del: One_nat_def)
  have f: "field (unpadded ty hdr h index rta_type b @ p) 16 1 = Some INET_FAMILY"
    "field (unpadded ty hdr h index rta_type b @ p) 20 4 = Some (unat index)"
    using field_payload [OF assms(1), of _ _ ?q 0] field_payload [OF assms(1), of _ _ ?q 4] q unfolding s by simp_all
  have l: "field (unpadded ty hdr h index rta_type b @ p) 0 4 = Some 29" unfolding s field_here by simp
  have d: "drop 24 (unpadded ty hdr h index rta_type b @ p) = le_bytes 2 5 @ le_bytes 2 rta_type @ b # p"
    using drop_payload [OF assms(1), of 8] assms(2) unfolding s by simp
  show ?thesis by (simp add: address_message_def f l d del: le_bytes.simps One_nat_def drop_append)
qed

lemma attribute_skipped:
  assumes "rta_type \<noteq> IFA_LOCAL" "rta_type < 65536"
  shows "attribute env ev index (le_bytes 2 5 @ le_bytes 2 rta_type @ p) st = (Ended, st)"
  using assms by (simp add: attribute_def field_later field_here)

lemma align_5: "align 5 = 8" and align_8: "align 8 = 8"
  by (simp_all add: align_def down4)

lemma short_attribute:
  assumes "rta_type \<noteq> IFA_LOCAL" "rta_type < 65536" "length z = 3" "rtl_value l = 5"
  shows "attributes env ev index (le_bytes 2 5 @ le_bytes 2 rta_type @ b # z @ p) l st =
    attributes env ev index p (rtl_minus l 8) st"
proof -
  have "field (le_bytes 2 5 @ le_bytes 2 rta_type @ b # z @ p) 0 2 = Some 5" unfolding field_here by simp
  moreover from this have "rta_ok (le_bytes 2 5 @ le_bytes 2 rta_type @ b # z @ p) l = Some True" using assms(4) by (simp add: rta_ok_def)
  moreover have "drop 8 (le_bytes 2 5 @ le_bytes 2 rta_type @ b # z @ p) = p" using assms(3) by simp
  ultimately show ?thesis using assms(4)
    by (subst attributes.simps) (simp add: Let_def align_5 attribute_skipped [OF assms(1,2)] del: le_bytes.simps drop_append)
qed

lemma local_attribute:
  assumes "12 \<le> rtl_value l" "rtl_value (rtl_minus l 8) \<noteq> 0"
  shows "attributes env ADDRESS_ADDED index (rta_bytes (Local a) @ le_bytes 2 0 @ p) l st = tell env ADDRESS_ADDED index (dotted a) st"
proof -
  have ev: "attribute env ADDRESS_ADDED index (rta_bytes (Local a) @ q) st = tell env ADDRESS_ADDED index (dotted a) st" for q
    using attribute_event [of "Local a" env True] by (simp add: tell_all_one del: rta_bytes.simps tell_all.simps)
  have f: "field (rta_bytes (Local a) @ q) 0 2 = Some 8" for q
    unfolding rta_bytes.simps pad_append append_assoc field_here by simp
  have d: "drop 8 (rta_bytes (Local a) @ q) = q" for q by (simp add: length_pad)
  have z: "rta_ok (le_bytes 2 0 @ p) m \<in> {Some False}" for m
    unfolding rta_ok_def field_here by simp
  then have "attributes env ADDRESS_ADDED index (le_bytes 2 0 @ p) m st = (Ended, st)" for m st
    by (subst attributes.simps) auto
  moreover have "rta_ok (rta_bytes (Local a) @ q) l = Some True" for q using assms(1) f by (simp add: rta_ok_def)
  ultimately show ?thesis using ev f d assms
    by (subst attributes.simps) (auto simp: Let_def align_8 simp del: rta_bytes.simps le_bytes.simps drop_append split: prod.splits)
qed

text \<open>
  A message about an IPv4 address whose last attribute is not padded is read differently when the
  address is new and when it is deleted. For a new one the unsigned length that is left wraps
  around, and what follows the message is told as an address of it; for a deleted one the
  length becomes negative and the loop ends.
\<close>

theorem unpadded_message_differs:
  assumes "length hdr = 10" "length h = 3" "length z = 3" "rta_type \<noteq> IFA_LOCAL" "rta_type < 65536"
  shows "newaddr env (unpadded RTM_NEWADDR hdr h index rta_type b @ z @ rta_bytes (Local a) @ le_bytes 2 0 @ p) st =
      tell env ADDRESS_ADDED index (dotted a) st \<and>
    deladdr env (unpadded RTM_DELADDR hdr h index rta_type b @ z @ rta_bytes (Local a) @ le_bytes 2 0 @ p) st = (Ended, st)"
proof -
  have u: "rtl_value (rtl_minus (Unsigned 5) 8) = 4294967293" "rtl_value (rtl_minus (rtl_minus (Unsigned 5) 8) 8) = 4294967285"
    "rtl_value (rtl_minus (Signed 5) 8) = -3" by simp_all
  have "attributes env ADDRESS_REMOVED index q (Signed (- 3)) st = (Ended, st)" for q
    by (subst attributes.simps) (simp add: rta_ok_def)
  then show ?thesis
    using u local_attribute [of "rtl_minus (Unsigned 5) 8" env index a p st]
    unfolding newaddr_def deladdr_def unpadded_address [OF assms(1,2)]
    by (simp add: short_attribute [OF assms(4,5,3)] del: rta_bytes.simps le_bytes.simps)
qed

section \<open>Instances\<close>

record wire =
  w_sent :: bytes
  w_told :: "(event_t \<times> u32 \<times> string) list"
  w_adapters :: Adapters

definition wire_env :: "(unit, wire) loop_env \<Rightarrow> (unit, unit, wire) nl_env" where
  "wire_env lp = \<lparr>nl_loop = lp, nl_process = (), k_nl_socket = (\<lambda>w. (Inr 3, w)), k_nl_reuse = (\<lambda>fd w. (True, w)),
     k_nl_bind = (\<lambda>fd w. (None, w)), k_nl_recv = (\<lambda>fd n w. (Inr (w_sent w), w\<lparr>w_sent := []\<rparr>)), k_nl_close = (\<lambda>fd w. 0),
     stack_bytes = (\<lambda>w. replicate MAX_DATAGRAM_SIZE 0), if_tables = (\<lambda>w. desk), getifaddrs = (\<lambda>w. Some []),
     netadapterlist = w_adapters, set_netadapterlist = (\<lambda>as w. w\<lparr>w_adapters := as\<rparr>),
     run_nl = (\<lambda>c ev i a (s, l). (True, s, l\<lparr>world := (world l)\<lparr>w_told := w_told (world l) @ [(ev, i, a)]\<rparr>\<rparr>))\<rparr>"

definition link_and_address :: "(bytes \<times> nl_msg) list" where
  "link_and_address =
     [(replicate 10 0, Link True 2 1 1 [0, 0, 0, 0] []),
      (replicate 10 0, Addr True 2 2 [0, 0, 0] [Attr 1 [9], Local 0xC0A80001]),
      (replicate 10 0, End 3 []), (replicate 10 0, Link False 2 0 0 [0, 0, 0, 0] [])]"

lemma link_and_address_ok: "telegram_ok link_and_address" "link_and_address \<noteq> []"
  by (simp_all add: telegram_ok_def link_and_address_def nl_constants nl_bytes_def pad_def MAX_DATAGRAM_SIZE_def)

theorem process_reacts_witness:
  "\<forall>lp l. \<exists>s' l'. Netlink_process (wire_env lp) (\<lparr>nl_event = 3, nl_handler = Some ()\<rparr>,
      l\<lparr>world := \<lparr>w_sent = concat (map nl_bytes link_and_address), w_told = [], w_adapters = []\<rparr>\<rparr>) = Some (Ended, 120, s', l') \<and>
    w_told (world l') = [(LINK_ADDED, 2, []), (ADDRESS_ADDED, 2, dotted 0xC0A80001)]"
proof (intro allI)
  fix lp :: "(unit, wire) loop_env" and l :: "(unit, wire) loop"
  let ?w = "\<lparr>w_sent = concat (map nl_bytes link_and_address), w_told = [], w_adapters = []\<rparr>"
  let ?s = "\<lparr>nl_event = 3, nl_handler = Some ()\<rparr>" and ?l' = "l\<lparr>world := ?w\<lparr>w_sent := []\<rparr>\<rparr>"
  have recv: "sys (k_nl_recv (wire_env lp) (nl_event ?s) MAX_DATAGRAM_SIZE) (l\<lparr>world := ?w\<rparr>) =
      (Inr (concat (map nl_bytes link_and_address)), ?l')"
    by (simp add: sys_def wire_env_def)
  have "length (concat (map nl_bytes link_and_address)) = 120"
    by (simp add: link_and_address_def nl_bytes_def pad_def)
  moreover have "react (wire_env lp) (map snd link_and_address) (?s, ?l') = (Ended, ?s, l\<lparr>world :=
      \<lparr>w_sent = [], w_told = [(LINK_ADDED, 2, []), (ADDRESS_ADDED, 2, dotted 0xC0A80001)], w_adapters = []\<rparr>\<rparr>)"
    by (simp add: link_and_address_def tell_def refresh_def wire_env_def Let_def update_def nl_constants)
  ultimately show "\<exists>s' l'. Netlink_process (wire_env lp) (?s, l\<lparr>world := ?w\<rparr>) = Some (Ended, 120, s', l') \<and>
      w_told (world l') = [(LINK_ADDED, 2, []), (ADDRESS_ADDED, 2, dotted 0xC0A80001)]"
    using process_reacts [OF link_and_address_ok recv] by simp
qed

theorem telegram_ends_witness:
  "\<forall>lp st. \<exists>e st'. processNetlinkTelegram (wire_env lp) (replicate 40 7) 20 st = Some (e, st')"
proof (intro allI)
  fix lp :: "(unit, wire) loop_env" and st :: "(unit, unit, wire) nl_state"
  show "\<exists>e st'. processNetlinkTelegram (wire_env lp) (replicate 40 7) 20 st = Some (e, st')"
    using telegram_ends [of 20 "wire_env lp" "replicate 40 7" st] by (simp add: MAX_DATAGRAM_SIZE_def)
qed

theorem unpadded_message_differs_witness:
  "\<forall>lp st. deladdr (wire_env lp) (unpadded RTM_DELADDR (replicate 10 0) [0, 0, 0] 2 1 9 @ [0, 0, 0] @
      rta_bytes (Local 0x0A000001) @ le_bytes 2 0 @ []) st = (Ended, st) \<and>
    newaddr (wire_env lp) (unpadded RTM_NEWADDR (replicate 10 0) [0, 0, 0] 2 1 9 @ [0, 0, 0] @
      rta_bytes (Local 0x0A000001) @ le_bytes 2 0 @ []) st = tell (wire_env lp) ADDRESS_ADDED 2 (dotted 0x0A000001) st"
proof (intro allI)
  fix lp :: "(unit, wire) loop_env" and st :: "(unit, unit, wire) nl_state"
  show "deladdr (wire_env lp) (unpadded RTM_DELADDR (replicate 10 0) [0, 0, 0] 2 1 9 @ [0, 0, 0] @
      rta_bytes (Local 0x0A000001) @ le_bytes 2 0 @ []) st = (Ended, st) \<and>
    newaddr (wire_env lp) (unpadded RTM_NEWADDR (replicate 10 0) [0, 0, 0] 2 1 9 @ [0, 0, 0] @
      rta_bytes (Local 0x0A000001) @ le_bytes 2 0 @ []) st = tell (wire_env lp) ADDRESS_ADDED 2 (dotted 0x0A000001) st"
    by (intro conjI unpadded_message_differs [THEN conjunct1] unpadded_message_differs [THEN conjunct2])
      (simp_all add: IFA_LOCAL_def)
qed

end
