(* ===== verification/Win_Socket.thy ===== *)
theory Win_Socket
  imports Win_Event_Loop Socket_Object
begin

text \<open>
  \<open>hbk::communication::SocketNonblocking\<close> under Windows (\<^verbatim>\<open>lib/communication/windows/socketnonblocking.cpp\<close>):
  the object with its buffered reader, registered with the event loop on the completion port. The
  calls of Winsock are parameters; \<^term>\<open>INVALID_HANDLE_VALUE\<close> is also \<open>INVALID_SOCKET\<close>. The lengths of blocks
  are below 2 to the 31, so that the casts to \<open>int\<close> and \<open>DWORD\<close> keep them.
\<close>

section \<open>State and system calls\<close>

record 'cb win_socket =
  ws_event :: win_event
  ws_reader :: BufferedReader
  ws_handler :: "'cb option"

type_synonym ('cb, 'h, 'w) ws_state = "'cb win_socket \<times> ('h, 'w) win_loop"

text \<open>
  The calls on the handle of a socket. \<open>w_send\<close> gives the error or the number of bytes, \<open>w_wsasend\<close> the
  error, if any, and the number of bytes, and \<open>w_select\<close> waits for a socket to become readable
  or writable, with the seconds and microseconds of the timeout.
\<close>

datatype readiness = Readable | Writable

record 'w winsock =
  w_nonblocking :: "handle \<Rightarrow> 'w \<Rightarrow> bool \<times> 'w"
  w_nodelay :: "handle \<Rightarrow> 'w \<Rightarrow> bool \<times> 'w"
  w_keepalive :: "handle \<Rightarrow> nat \<Rightarrow> nat \<Rightarrow> 'w \<Rightarrow> bool \<times> 'w"
  w_socket :: "domain \<Rightarrow> 'w \<Rightarrow> handle \<times> 'w"
  w_connect :: "handle \<Rightarrow> sockaddr \<Rightarrow> 'w \<Rightarrow> wsa_error option \<times> 'w"
  w_select :: "readiness \<Rightarrow> handle \<Rightarrow> (int \<times> int) option \<Rightarrow> 'w \<Rightarrow> (wsa_error + nat) \<times> 'w"
  w_so_error :: "handle \<Rightarrow> 'w \<Rightarrow> int \<times> 'w"
  w_getaddrinfo :: "string \<Rightarrow> string \<Rightarrow> 'w \<Rightarrow> addrinfo option \<times> 'w"
  w_wsarecv :: "handle \<Rightarrow> 'w wsa_reader"
  w_send :: "handle \<Rightarrow> bytes \<Rightarrow> 'w \<Rightarrow> (wsa_error + nat) \<times> 'w"
  w_wsasend :: "handle \<Rightarrow> bytes list \<Rightarrow> 'w \<Rightarrow> wsa_error option \<times> nat \<times> 'w"
  w_shutdown :: "handle \<Rightarrow> 'w \<Rightarrow> 'w"
  w_closesocket :: "handle \<Rightarrow> 'w \<Rightarrow> 'w"
  w_create_event :: "'w \<Rightarrow> handle \<times> 'w"
  w_close_event :: "handle \<Rightarrow> 'w \<Rightarrow> 'w"
  w_peername :: "handle \<Rightarrow> nat \<Rightarrow> 'w \<Rightarrow> sockaddr"
  w_nameinfo :: "sockaddr \<Rightarrow> (string \<times> string) option"
  w_stack_names :: "string \<times> string"
  w_stack_buffer :: bytes

record ('cb, 'h, 'w) ws_env =
  ws_loop :: "('h, 'w) win_env"
  ws_sock :: "'w winsock"
  ws_process :: 'h
  run_ws :: "'cb \<Rightarrow> ('cb, 'h, 'w) ws_state \<Rightarrow> outcome \<times> ('cb, 'h, 'w) ws_state"

definition on_world :: "('w \<Rightarrow> 'a \<times> 'w) \<Rightarrow> ('h, 'w) win_loop \<Rightarrow> 'a \<times> ('h, 'w) win_loop" where
  "on_world f l = (case f (w_world l) of (a, w) \<Rightarrow> (a, l\<lparr>w_world := w\<rparr>))"

fun wsa_code :: "wsa_error \<Rightarrow> int" where
  "wsa_code WSA_IO_PENDING = 997"
| "wsa_code WSAEWOULDBLOCK = 10035"
| "wsa_code WSAEINTR = 10004"
| "wsa_code WSAEINPROGRESS = 10036"
| "wsa_code (WSAE_OTHER n) = int n"

section \<open>Construction and options\<close>

definition win_socket_init ::
  "('cb, 'h, 'w) ws_env \<Rightarrow> ('h, 'w) win_loop \<Rightarrow> 'cb win_socket \<times> ('h, 'w) win_loop" where
  "win_socket_init env l =
     (case on_world (w_create_event (ws_sock env)) l of (h, l) \<Rightarrow>
      (\<lparr>ws_event = win_event_init\<lparr>completionPort := m_completionPort l, hEvent := h\<rparr>,
        ws_reader = BufferedReader_init (w_stack_buffer (ws_sock env)), ws_handler = None\<rparr>, l))"

definition win_setSocketOptions :: "'w winsock \<Rightarrow> handle \<Rightarrow> 'w \<Rightarrow> int \<times> 'w" where
  "win_setSocketOptions sock h w =
     (case w_nonblocking sock h w of (ok, w) \<Rightarrow>
      if \<not> ok then (-1, w)
      else case w_nodelay sock h w of (ok, w) \<Rightarrow>
      if \<not> ok then (-1, w)
      else case w_keepalive sock h 1000 1000 w of (ok, w) \<Rightarrow>
      if \<not> ok then (-1, w) else (0, w))"

text \<open>The constructor for a socket that was accepted; \<^term>\<open>Inl\<close> is what it throws.\<close>

definition win_socket_accepted ::
  "('cb, 'h, 'w) ws_env \<Rightarrow> handle \<Rightarrow> ('h, 'w) win_loop \<Rightarrow> (std_exn + 'cb win_socket) \<times> ('h, 'w) win_loop" where
  "win_socket_accepted env fd l =
     (case win_socket_init env l of (s, l) \<Rightarrow>
      let s = s\<lparr>ws_event := (ws_event s)\<lparr>fileHandle := fd\<rparr>\<rparr> in
      case on_world (win_setSocketOptions (ws_sock env) fd) l of (r, l) \<Rightarrow>
      if r < 0 then (Inl (runtime_error ''error setting socket options''), l) else (Inr s, l))"

section \<open>Callbacks\<close>

text \<open>The last call asks for a completion with the first byte that arrives.\<close>

definition win_setDataCb ::
  "('cb, 'h, 'w) ws_env \<Rightarrow> 'cb option \<Rightarrow> ('cb, 'h, 'w) ws_state \<Rightarrow> ('cb, 'h, 'w) ws_state" where
  "win_setDataCb env dataCb = (\<lambda>(s, l).
     let s = s\<lparr>ws_handler := dataCb\<rparr>;
         l = snd (win_addEvent (ws_loop env) (ws_event s) (Some (ws_process env)) l);
         l = snd (on_world (wsa_signal (w_wsarecv (ws_sock env) (fileHandle (ws_event s)))) l)
     in (s, l))"

definition win_clearDataCb :: "('cb, 'h, 'w) ws_state \<Rightarrow> ('cb, 'h, 'w) ws_state" where
  "win_clearDataCb = (\<lambda>(s, l). (s\<lparr>ws_handler := None\<rparr>, snd (win_eraseEvent (ws_event s) l)))"

definition win_socket_process ::
  "('cb, 'h, 'w) ws_env \<Rightarrow> ('cb, 'h, 'w) ws_state \<Rightarrow> outcome \<times> ('cb, 'h, 'w) ws_state" where
  "win_socket_process env st =
     (case ws_handler (fst st) of Some c \<Rightarrow> run_ws env c st | None \<Rightarrow> (Returns (-1), st))"

section \<open>Connecting and disconnecting\<close>

text \<open>What follows the creation of the socket, up to the wait for the connection\<close>

definition win_establish :: "'w winsock \<Rightarrow> handle \<Rightarrow> sockaddr \<Rightarrow> 'w \<Rightarrow> int \<times> 'w" where
  "win_establish sock h addr w =
     (case win_setSocketOptions sock h w of (err, w) \<Rightarrow>
      if err < 0 then (err, w)
      else case w_connect sock h addr w of (err, w) \<Rightarrow>
      case err of
        None \<Rightarrow> (0, w)
      | Some e \<Rightarrow>
          (if e \<noteq> WSAEWOULDBLOCK then (-1, w)
           else case w_select sock Writable h (Some (TIMEOUT_CONNECT_S, 0)) w of (err, w) \<Rightarrow>
             if err \<noteq> Inr 1 then (-1, w)
             else case w_so_error sock h w of (v, w) \<Rightarrow> (if v \<noteq> 0 then -1 else 0, w)))"

definition win_connect ::
  "('cb, 'h, 'w) ws_env \<Rightarrow> domain \<Rightarrow> sockaddr \<Rightarrow> ('cb, 'h, 'w) ws_state \<Rightarrow> int \<times> ('cb, 'h, 'w) ws_state" where
  "win_connect env domain addr = (\<lambda>(s, l).
     case on_world (w_socket (ws_sock env) domain) l of (h, l) \<Rightarrow>
     let s = s\<lparr>ws_event := (ws_event s)\<lparr>fileHandle := h\<rparr>\<rparr> in
     if h = INVALID_HANDLE_VALUE then (-1, s, l)
     else case on_world (win_establish (ws_sock env) h addr) l of (err, l) \<Rightarrow>
       if err < 0 then (err, s, l) else (0, win_setDataCb env (ws_handler s) (s, l)))"

definition win_connect_tcp ::
  "('cb, 'h, 'w) ws_env \<Rightarrow> string \<Rightarrow> string \<Rightarrow> ('cb, 'h, 'w) ws_state \<Rightarrow> int \<times> ('cb, 'h, 'w) ws_state" where
  "win_connect_tcp env address port = (\<lambda>(s, l).
     case on_world (w_getaddrinfo (ws_sock env) address port) l of (res, l) \<Rightarrow>
     case res of
       None \<Rightarrow> (-1, s, l)
     | Some pResult \<Rightarrow> win_connect env (ai_family pResult) (ai_addr pResult) (s, l))"

definition win_disconnect :: "('cb, 'h, 'w) ws_env \<Rightarrow> ('cb, 'h, 'w) ws_state \<Rightarrow> ('cb, 'h, 'w) ws_state" where
  "win_disconnect env = (\<lambda>(s, l).
     let l = snd (win_eraseEvent (ws_event s) l);
         h = fileHandle (ws_event s);
         w = w_closesocket (ws_sock env) h (w_shutdown (ws_sock env) h (w_world l))
     in (s\<lparr>ws_event := (ws_event s)\<lparr>fileHandle := INVALID_HANDLE_VALUE\<rparr>\<rparr>, l\<lparr>w_world := w\<rparr>))"

definition win_socket_destroy :: "('cb, 'h, 'w) ws_env \<Rightarrow> ('cb, 'h, 'w) ws_state \<Rightarrow> ('h, 'w) win_loop" where
  "win_socket_destroy env st =
     (case win_disconnect env st of (s, l) \<Rightarrow>
      l\<lparr>w_world := w_close_event (ws_sock env) (hEvent (ws_event s)) (w_world l)\<rparr>)"

definition win_isFirewire :: bool where "win_isFirewire = False"

text \<open>The results of the last two calls are not looked at: the names keep what the stack held.\<close>

definition win_checkSockAddr :: "'w winsock \<Rightarrow> handle \<Rightarrow> sockaddr \<Rightarrow> 'w \<Rightarrow> bool" where
  "win_checkSockAddr sock h pCheckSockAddr w =
     (case w_nameinfo sock pCheckSockAddr of None \<Rightarrow> False | Some (checkHost, checkService) \<Rightarrow>
      case (case w_nameinfo sock (w_peername sock h 16 w) of None \<Rightarrow> w_stack_names sock | Some names \<Rightarrow> names) of
        (host, service) \<Rightarrow> if host = checkHost \<and> service = checkService then True else False)"

section \<open>Receiving\<close>

definition win_receive ::
  "'w winsock \<Rightarrow> handle \<Rightarrow> BufferedReader \<Rightarrow> 'w \<Rightarrow> bytes \<Rightarrow> nat
    \<Rightarrow> (wsa_error + nat) \<times> bytes \<times> BufferedReader \<times> 'w" where
  "win_receive sock h reader w pBlock len = win_recv (w_wsarecv sock h) reader w pBlock len"

text \<open>The wait is repeated on every error except an interruption.\<close>

partial_function (option) win_wait_readable ::
  "('w \<Rightarrow> (wsa_error + nat) \<times> 'w) \<Rightarrow> 'w \<Rightarrow> ((wsa_error + nat) \<times> 'w) option" where
  "win_wait_readable wait w =
     (case wait w of (err, w) \<Rightarrow>
      case err of
        Inl e \<Rightarrow> if e \<noteq> WSAEINTR then win_wait_readable wait w else Some (err, w)
      | Inr n \<Rightarrow> Some (err, w))"

definition win_timeval :: "int \<Rightarrow> (int \<times> int) option" where
  "win_timeval msTimeout = (if 0 \<le> msTimeout then Some (msTimeout div 1000, msTimeout mod 1000 * 1000) else None)"

text \<open>\<open>pos\<close> bytes of the block have been received, \<open>dataToGet\<close> are missing.\<close>

partial_function (option) win_receive_loop ::
  "'w winsock \<Rightarrow> handle \<Rightarrow> int \<Rightarrow> nat \<Rightarrow> BufferedReader \<Rightarrow> 'w \<Rightarrow> bytes \<Rightarrow> bytes \<Rightarrow> nat
    \<Rightarrow> (int \<times> bytes \<times> BufferedReader \<times> 'w) option" where
  "win_receive_loop sock h msTimeout len reader w received pDat dataToGet =
     (if dataToGet = 0 then Some (int len, received @ pDat, reader, w)
      else case win_recv (w_wsarecv sock h) reader w pDat dataToGet of (res, pDat, reader, w) \<Rightarrow>
      case res of
        Inr numBytes \<Rightarrow>
          (if 0 < numBytes then
             win_receive_loop sock h msTimeout len reader w (received @ take numBytes pDat) (drop numBytes pDat) (dataToGet - numBytes)
           else Some (int (len - dataToGet), received @ pDat, reader, w))
      | Inl lastError \<Rightarrow>
          (if lastError = WSA_IO_PENDING \<or> lastError = WSAEWOULDBLOCK then
             Option.bind (win_wait_readable (w_select sock Readable h (win_timeval msTimeout)) w) (\<lambda>(err, w).
               if err \<noteq> Inr 1 then Some (-1, received @ pDat, reader, w)
               else win_receive_loop sock h msTimeout len reader w received pDat dataToGet)
           else Some (-1, received @ pDat, reader, w)))"

definition win_receiveComplete ::
  "'w winsock \<Rightarrow> handle \<Rightarrow> BufferedReader \<Rightarrow> 'w \<Rightarrow> bytes \<Rightarrow> nat \<Rightarrow> int
    \<Rightarrow> (int \<times> bytes \<times> BufferedReader \<times> 'w) option" where
  "win_receiveComplete sock h reader w pBlock len msTimeout =
     win_receive_loop sock h msTimeout len reader w [] pBlock len"

section \<open>Sending\<close>

definition win_send :: "'w winsock \<Rightarrow> handle \<Rightarrow> bytes \<Rightarrow> bool \<Rightarrow> 'w \<Rightarrow> (wsa_error + nat) \<times> 'w" where
  "win_send sock h pBlock more_data w = w_send sock h pBlock w"

text \<open>
  \<open>pDat\<close> is the part of the block that is still to be sent. The variable that the error branches
  set to \<open>-1\<close> is not the one that is returned.
\<close>

partial_function (option) win_sendBlock_loop ::
  "'w winsock \<Rightarrow> handle \<Rightarrow> bytes \<Rightarrow> int \<Rightarrow> 'w \<Rightarrow> (int \<times> 'w) option" where
  "win_sendBlock_loop sock h pDat retVal w =
     (if pDat = [] then Some (retVal, w)
      else case w_send sock h pDat w of (res, w) \<Rightarrow>
      case res of
        Inr numBytes \<Rightarrow>
          (if 0 < numBytes then win_sendBlock_loop sock h (drop numBytes pDat) retVal w
           else win_sendBlock_loop sock h [] (-1) w)
      | Inl e \<Rightarrow>
          (if e = WSAEWOULDBLOCK \<or> e = WSA_IO_PENDING \<or> e = WSAEINPROGRESS then
             (case w_select sock Writable h None w of (err, w) \<Rightarrow>
              if err \<noteq> Inr 1 then win_sendBlock_loop sock h [] retVal w
              else win_sendBlock_loop sock h pDat retVal w)
           else if e \<noteq> WSAEINTR then win_sendBlock_loop sock h [] retVal w
           else win_sendBlock_loop sock h pDat retVal w))"

definition win_sendBlock :: "'w winsock \<Rightarrow> handle \<Rightarrow> bytes \<Rightarrow> bool \<Rightarrow> 'w \<Rightarrow> (int \<times> 'w) option" where
  "win_sendBlock sock h pBlock more_data w = win_sendBlock_loop sock h pBlock (int (length pBlock)) w"

text \<open>The loop over the buffers that were not sent completely\<close>

fun win_sendBlocks_loop ::
  "'w winsock \<Rightarrow> handle \<Rightarrow> bool \<Rightarrow> bytes list \<Rightarrow> nat \<Rightarrow> nat \<Rightarrow> 'w \<Rightarrow> (int \<times> 'w) option" where
  "win_sendBlocks_loop sock h more_data [] blockSum bytesWritten w = Some (int bytesWritten, w)"
| "win_sendBlocks_loop sock h more_data (b # buffers) blockSum bytesWritten w =
     (let blockSum = blockSum + length b in
      if bytesWritten < blockSum then
        (let bytesRemaining = blockSum - bytesWritten; start = length b - bytesRemaining in
         Option.bind (win_sendBlock sock h (take bytesRemaining (drop start b)) more_data w) (\<lambda>(retVal, w).
           if 0 < retVal then win_sendBlocks_loop sock h more_data buffers blockSum (bytesWritten + nat retVal) w
           else Some (-1, w)))
      else win_sendBlocks_loop sock h more_data buffers blockSum bytesWritten w)"

definition win_sendBlocks_list :: "'w winsock \<Rightarrow> handle \<Rightarrow> bytes list \<Rightarrow> bool \<Rightarrow> 'w \<Rightarrow> (int \<times> 'w) option" where
  "win_sendBlocks_list sock h blocks more_data w =
     (let completeLength = sum_list (map length blocks) in
      case w_wsasend sock h blocks w of (err, bytesWritten, w) \<Rightarrow>
      if (case err of None \<Rightarrow> False | Some e \<Rightarrow> e \<notin> {WSAEWOULDBLOCK, WSA_IO_PENDING, WSAEINTR, WSAEINPROGRESS})
      then Some (wsa_code (the err), w)
      else if bytesWritten = completeLength then Some (int bytesWritten, w)
      else win_sendBlocks_loop sock h more_data blocks 0 bytesWritten w)"

text \<open>The form for an array copies the blocks into a list.\<close>

definition win_sendBlocks :: "'w winsock \<Rightarrow> handle \<Rightarrow> bytes list \<Rightarrow> nat \<Rightarrow> bool \<Rightarrow> 'w \<Rightarrow> (int \<times> 'w) option" where
  "win_sendBlocks sock h blocks blockCount more_data w = win_sendBlocks_list sock h (take blockCount blocks) more_data w"

section \<open>Calls without effect\<close>

text \<open>Every call succeeds and changes nothing; the instances of the theorems change single calls.\<close>

definition idle_sock :: "'w winsock" where
  "idle_sock = \<lparr>w_nonblocking = (\<lambda>h w. (True, w)), w_nodelay = (\<lambda>h w. (True, w)), w_keepalive = (\<lambda>h t i w. (True, w)),
     w_socket = (\<lambda>d w. (8, w)), w_connect = (\<lambda>h a w. (None, w)), w_select = (\<lambda>x h t w. (Inr 1, w)),
     w_so_error = (\<lambda>h w. (0, w)), w_getaddrinfo = (\<lambda>a p w. (None, w)),
     w_wsarecv = (\<lambda>h. \<lparr>is_pending = (\<lambda>w. False), wsa_recv = (\<lambda>ls w. (Inl WSAEWOULDBLOCK, w)), wsa_signal = (\<lambda>w. (Inl WSA_IO_PENDING, w)), garbage = 0\<rparr>),
     w_send = (\<lambda>h d w. (Inr (length d), w)), w_wsasend = (\<lambda>h bs w. (None, length (concat bs), w)),
     w_shutdown = (\<lambda>h w. w), w_closesocket = (\<lambda>h w. w), w_create_event = (\<lambda>w. (4, w)), w_close_event = (\<lambda>h w. w),
     w_peername = (\<lambda>h n w. ([], 0)), w_nameinfo = (\<lambda>a. None), w_stack_names = ([], []), w_stack_buffer = replicate buffer_size 0\<rparr>"

end
