(* ===== verification/Win_Socket_Props.thy ===== *)
theory Win_Socket_Props
  imports Win_Socket
begin

text \<open>
  What \<^theory_text>\<open>Win_Socket\<close> does with the bytes of a connection and with errors of the calls: the contract of a
  stream socket as locales, what sending promises under it, and where the code under Windows
  does not do what it means to.
\<close>

section \<open>Sending: the contract\<close>

text \<open>
  What a stream socket promises: \<open>sent\<close> are the bytes handed to the connection. A call takes a prefix
  of the bytes it is given, and none when it fails; \<open>patience\<close> bounds how often it can ask for another
  try. Waiting sends nothing.
\<close>

definition retry :: "wsa_error \<Rightarrow> bool" where
  "retry e \<longleftrightarrow> e \<in> {WSAEWOULDBLOCK, WSA_IO_PENDING, WSAEINTR, WSAEINPROGRESS}"

locale win_stream =
  fixes sock :: "'w winsock" and sent :: "'w \<Rightarrow> bytes" and patience :: "'w \<Rightarrow> nat"
  assumes send_takes: "w_send sock h d w = (Inr n, w') \<Longrightarrow> n \<le> length d \<and> sent w' = sent w @ take n d"
    and send_fails: "w_send sock h d w = (Inl e, w') \<Longrightarrow> sent w' = sent w \<and> (retry e \<longrightarrow> patience w' < patience w)"
    and select_frame: "w_select sock x h tv w = (res, w') \<Longrightarrow> sent w' = sent w \<and> patience w' \<le> patience w"
    and wsasend_takes: "w_wsasend sock h blocks w = (err, n, w') \<Longrightarrow>
      n \<le> length (concat blocks) \<and> sent w' = sent w @ take n (concat blocks)"
begin

lemma sendBlock_loop_ends:
  "\<exists>r w' k. win_sendBlock_loop sock h d retVal w = Some (r, w') \<and> k \<le> length d \<and> sent w' = sent w @ take k d \<and>
     (r = retVal \<or> r = -1 \<and> k < length d)"
proof (induction "(length d, patience w)" arbitrary: d w rule: wf_induct_rule [OF wf_lex_prod [OF wf_less wf_less]])
  case (1 d w)
  show ?case
  proof (cases "d = []")
    case True
    then show ?thesis by (subst win_sendBlock_loop.simps) simp
  next
    case False
    obtain res w1 where s: "w_send sock h d w = (res, w1)" by fastforce
    have quit: "win_sendBlock_loop sock h [] v w2 = Some (v, w2)" for v w2
      by (subst win_sendBlock_loop.simps) simp
    show ?thesis
    proof (cases res)
      case (Inr n)
      note ok = send_takes [OF s [unfolded Inr]]
      show ?thesis
      proof (cases "n = 0")
        case True
        then show ?thesis using False s Inr ok quit by (subst win_sendBlock_loop.simps) (auto intro!: exI [of _ 0])
      next
        case pos: False
        then obtain r w' k where r: "win_sendBlock_loop sock h (drop n d) retVal w1 = Some (r, w')" "k \<le> length (drop n d)"
          "sent w' = sent w1 @ take k (drop n d)" "r = retVal \<or> r = -1 \<and> k < length (drop n d)"
          using 1 [of "drop n d" w1] False by (auto simp: in_lex_prod)
        then have "n + k \<le> length d \<and> sent w' = sent w @ take (n + k) d \<and> (r = retVal \<or> r = -1 \<and> n + k < length d)"
          using ok by (auto simp: take_add)
        then show ?thesis using r(1) False s Inr pos by (subst win_sendBlock_loop.simps) auto
      qed
    next
      case (Inl e)
      note er = send_fails [OF s [unfolded Inl]]
      have stop: "\<exists>k \<le> length d. sent w1 = sent w @ take k d" using er by (auto intro!: exI [of _ 0])
      obtain p w2 where p: "w_select sock Writable h None w1 = (p, w2)" by fastforce
      note fr = select_frame [OF p]
      show ?thesis
      proof (cases "retry e")
        case True
        have again: "\<exists>r w' k. win_sendBlock_loop sock h d retVal v = Some (r, w') \<and> k \<le> length d \<and>
            sent w' = sent w @ take k d \<and> (r = retVal \<or> r = -1 \<and> k < length d)" if "v = w1 \<or> v = w2" for v
          using 1 [of d v] er fr True that by (auto simp: in_lex_prod)
        show ?thesis using again [of w1] again [of w2] False s Inl True p stop fr quit
          by (subst win_sendBlock_loop.simps) (auto simp: retry_def)
      next
        case no: False
        then show ?thesis using False s Inl stop quit by (subst win_sendBlock_loop.simps) (auto simp: retry_def)
      qed
    qed
  qed
qed

end

text \<open>A connection that is in order: calls make progress or ask for another try, and waiting ends.\<close>

locale win_healthy = win_stream +
  assumes send_progress: "w_send sock h d w = (Inr n, w') \<Longrightarrow> d \<noteq> [] \<Longrightarrow> 0 < n"
    and send_retries: "w_send sock h d w = (Inl e, w') \<Longrightarrow> retry e"
    and select_ready: "w_select sock x h tv w = (res, w') \<Longrightarrow> res = Inr 1"
    and wsasend_retries: "w_wsasend sock h blocks w = (Some e, n, w') \<Longrightarrow> retry e"
begin

lemma sendBlock_loop_all:
  "\<exists>w'. win_sendBlock_loop sock h d retVal w = Some (retVal, w') \<and> sent w' = sent w @ d"
proof (induction "(length d, patience w)" arbitrary: d w rule: wf_induct_rule [OF wf_lex_prod [OF wf_less wf_less]])
  case (1 d w)
  show ?case
  proof (cases "d = []")
    case True
    then show ?thesis by (subst win_sendBlock_loop.simps) simp
  next
    case False
    obtain res w1 where s: "w_send sock h d w = (res, w1)" by fastforce
    show ?thesis
    proof (cases res)
      case (Inr n)
      have ok: "n \<le> length d" "sent w1 = sent w @ take n d" "0 < n"
        using send_takes [OF s [unfolded Inr]] send_progress [OF s [unfolded Inr] False] by blast+
      then obtain w' where "win_sendBlock_loop sock h (drop n d) retVal w1 = Some (retVal, w')" "sent w' = sent w1 @ drop n d"
        using 1 [of "drop n d" w1] False by (auto simp: in_lex_prod)
      then show ?thesis using False s Inr ok by (subst win_sendBlock_loop.simps) auto
    next
      case (Inl e)
      note er = send_fails [OF s [unfolded Inl]] send_retries [OF s [unfolded Inl]]
      obtain p w2 where p: "w_select sock Writable h None w1 = (p, w2)" by fastforce
      note fr = select_frame [OF p] select_ready [OF p]
      have again: "\<exists>w'. win_sendBlock_loop sock h d retVal v = Some (retVal, w') \<and> sent w' = sent w @ d" if "v = w1 \<or> v = w2" for v
        using 1 [of d v] er fr that by (auto simp: in_lex_prod)
      show ?thesis using again [of w1] again [of w2] False s Inl p fr er(2)
        by (subst win_sendBlock_loop.simps) (auto simp: retry_def)
    qed
  qed
qed

lemma sendBlocks_loop_all:
  "blockSum \<le> bw \<Longrightarrow> bw \<le> blockSum + length (concat bs) \<Longrightarrow>
   \<exists>w'. win_sendBlocks_loop sock h m bs blockSum bw w = Some (int (blockSum + length (concat bs)), w') \<and>
     sent w' = sent w @ drop (bw - blockSum) (concat bs)"
proof (induction bs arbitrary: blockSum bw w)
  case (Cons b bs)
  show ?case
  proof (cases "bw < blockSum + length b")
    case True
    let ?rem = "blockSum + length b - bw" and ?start = "bw - blockSum"
    have start: "length b - ?rem = ?start" "length (drop ?start b) = ?rem" using Cons.prems True by auto
    obtain w1 where w1: "win_sendBlock sock h (drop ?start b) m w = Some (int ?rem, w1)" "sent w1 = sent w @ drop ?start b"
      using sendBlock_loop_all [of h "drop ?start b" "int ?rem" w] start(2) by (auto simp: win_sendBlock_def)
    obtain w' where w': "win_sendBlocks_loop sock h m bs (blockSum + length b) (blockSum + length b) w1 =
        Some (int (blockSum + length b + length (concat bs)), w')" "sent w' = sent w1 @ concat bs"
      using Cons.IH [of "blockSum + length b" "blockSum + length b" w1] by auto
    have "bw + nat (int ?rem) = blockSum + length b" using True by simp
    then show ?thesis using True w1 w' start Cons.prems(1) by (simp add: Let_def add.assoc)
  next
    case False
    then obtain w' where "win_sendBlocks_loop sock h m bs (blockSum + length b) bw w =
        Some (int (blockSum + length b + length (concat bs)), w')" "sent w' = sent w @ drop (bw - (blockSum + length b)) (concat bs)"
      using Cons.IH [of "blockSum + length b" bw w] Cons.prems by auto
    then show ?thesis using False by (simp add: Let_def add.assoc)
  qed
qed simp

lemma sendBlocks_all:
  "\<exists>w'. win_sendBlocks_list sock h bs m w = Some (int (length (concat bs)), w') \<and> sent w' = sent w @ concat bs"
proof -
  obtain err n w1 where s: "w_wsasend sock h bs w = (err, n, w1)" using prod_cases3 by blast
  note ok = wsasend_takes [OF s]
  have "\<not> (case err of None \<Rightarrow> False | Some e \<Rightarrow> e \<notin> {WSAEWOULDBLOCK, WSA_IO_PENDING, WSAEINTR, WSAEINPROGRESS})"
  proof (cases err)
    case (Some e)
    then have "retry e" using wsasend_retries [of h bs w e n w1] s by simp
    then show ?thesis using Some by (auto simp: retry_def)
  qed simp
  moreover have "sum_list (map length bs) = length (concat bs)" by (simp add: length_concat)
  moreover obtain w' where "win_sendBlocks_loop sock h m bs 0 n w1 = Some (int (length (concat bs)), w')"
      "sent w' = sent w1 @ drop n (concat bs)"
    using sendBlocks_loop_all [of 0 n bs h m w1] ok by auto
  ultimately show ?thesis using s ok by (simp add: win_sendBlocks_list_def Let_def)
qed

end
section \<open>Waiting for data\<close>

lemma win_wait_no_end: "win_wait_readable wait w = Some y \<Longrightarrow> (\<forall>w. \<exists>e. fst (wait w) = Inl e \<and> e \<noteq> WSAEINTR) \<Longrightarrow> False"
proof (rule win_wait_readable.raw_induct
    [where P = "\<lambda>wait w y. (\<forall>w. \<exists>e. fst (wait w) = Inl e \<and> e \<noteq> WSAEINTR) \<longrightarrow> False", rule_format])
  fix f wait w y
  assume IH: "\<And>wait w y. f wait w = Some y \<Longrightarrow> (\<And>w. \<exists>e. fst (wait w) = Inl e \<and> e \<noteq> WSAEINTR) \<Longrightarrow> False"
    and eq: "(case wait w of (err, w) \<Rightarrow> case err of Inl e \<Rightarrow> if e \<noteq> WSAEINTR then f wait w else Some (err, w)
      | Inr n \<Rightarrow> Some (err, w)) = Some y"
    and bad: "\<And>w. \<exists>e. fst (wait w) = Inl e \<and> e \<noteq> WSAEINTR"
  from bad [of w] obtain e w1 where "wait w = (Inl e, w1)" "e \<noteq> WSAEINTR" by (metis prod.collapse)
  with eq have "f wait w1 = Some y" by simp
  from IH [OF this bad] show False .
qed auto

lemma win_wait_error:
  assumes "e \<noteq> WSAEINTR" "\<forall>w. fst (wait w) = Inl e"
  shows "win_wait_readable wait w = None"
  using win_wait_no_end [of wait w] assms by (cases "win_wait_readable wait w") auto

lemma win_wait_interrupted: "wait w = (Inl WSAEINTR, w') \<Longrightarrow> win_wait_readable wait w = Some (Inl WSAEINTR, w')"
  by (subst win_wait_readable.simps) simp

section \<open>Connections\<close>

text \<open>A connection whose calls end as a list says, and take everything after that\<close>

record pipe =
  px_sent :: bytes
  px_script :: "(wsa_error + nat) list"

fun take_bytes :: "nat \<Rightarrow> bytes \<Rightarrow> pipe \<Rightarrow> nat \<times> pipe" where
  "take_bytes n d w = (min n (length d), w\<lparr>px_sent := px_sent w @ take n d, px_script := tl (px_script w)\<rparr>)"

definition pipe_send :: "handle \<Rightarrow> bytes \<Rightarrow> pipe \<Rightarrow> (wsa_error + nat) \<times> pipe" where
  "pipe_send h d w =
     (case px_script w of
        Inl e # s \<Rightarrow> (Inl e, w\<lparr>px_script := s\<rparr>)
      | Inr n # s \<Rightarrow> apfst Inr (take_bytes n d w)
      | [] \<Rightarrow> apfst Inr (take_bytes (length d) d w))"

text \<open>The same without anything but delays\<close>

definition calm_send :: "handle \<Rightarrow> bytes \<Rightarrow> pipe \<Rightarrow> (wsa_error + nat) \<times> pipe" where
  "calm_send h d w =
     (case px_script w of
        Inl e # s \<Rightarrow> (Inl WSAEWOULDBLOCK, w\<lparr>px_script := s\<rparr>)
      | Inr n # s \<Rightarrow> apfst Inr (take_bytes (Suc n) d w)
      | [] \<Rightarrow> apfst Inr (take_bytes (length d) d w))"

definition pipe_sock :: "(handle \<Rightarrow> bytes \<Rightarrow> pipe \<Rightarrow> (wsa_error + nat) \<times> pipe) \<Rightarrow> pipe winsock" where
  "pipe_sock snd_call = idle_sock\<lparr>w_send := snd_call,
     w_wsasend := \<lambda>h bs w. case take_bytes 2 (concat bs) w of (n, w) \<Rightarrow> (None, n, w)\<rparr>"

lemma pipe_sock_calls [simp, kernel_calls]:
  "w_send (pipe_sock f) = f" "w_select (pipe_sock f) x h t w = (Inr 1, w)"
  "w_wsasend (pipe_sock f) h bs w = (case take_bytes 2 (concat bs) w of (n, w) \<Rightarrow> (None, n, w))"
  by (simp_all add: pipe_sock_def idle_sock_def)

interpretation scripted: win_stream "pipe_sock pipe_send" px_sent "\<lambda>w. length (px_script w)"
  by unfold_locales (auto simp: pipe_send_def min_def split: list.splits sum.splits)

interpretation calm: win_healthy "pipe_sock calm_send" px_sent "\<lambda>w. length (px_script w)"
  by unfold_locales (auto simp: calm_send_def retry_def min_def split: list.splits sum.splits)

section \<open>Properties\<close>



text \<open>
  Over a connection that is in order \<open>sendBlocks\<close> hands over the concatenation of the blocks, wherever
  \<open>WSASend\<close> and \<open>send\<close> stop in between, and returns the number of all bytes.
\<close>

theorem win_sendBlocks_delivers:
  assumes "win_healthy sock sent patience"
  shows "\<exists>w'. win_sendBlocks sock h blocks (length blocks) m w = Some (int (length (concat blocks)), w') \<and>
    sent w' = sent w @ concat blocks"
  unfolding win_sendBlocks_def using win_healthy.sendBlocks_all [OF assms] by simp


theorem win_sendBlocks_delivers_witness:
  "\<exists>w'. win_sendBlocks (pipe_sock calm_send) 8 [[1], [2, 3, 4], [5]] 3 False \<lparr>px_sent = [], px_script = [Inr 0, Inl WSAEINTR]\<rparr> =
    Some (5, w') \<and> px_sent w' = [1, 2, 3, 4, 5]"
  using win_sendBlocks_delivers [OF calm.win_healthy_axioms, of 8 "[[1], [2, 3, 4], [5]]" False
      "\<lparr>px_sent = [], px_script = [Inr 0, Inl WSAEINTR]\<rparr>"]
  by (simp add: eval_nat_numeral)

text \<open>
  The condition of the loop around \<open>select\<close> in \<open>receiveComplete\<close> is the wrong way round. An
  interruption, which should lead to another try, ends the call with \<open>-1\<close>, and an error that stays
  makes it wait for ever.
\<close>

theorem win_receiveComplete_wait:
  assumes "0 < len" and "win_recv (w_wsarecv sock h) reader w pBlock len = (Inl lastError, pBlock', reader', w1)"
    and "lastError = WSA_IO_PENDING \<or> lastError = WSAEWOULDBLOCK"
  shows "(w_select sock Readable h (win_timeval t) w1 = (Inl WSAEINTR, w2) \<longrightarrow>
      win_receiveComplete sock h reader w pBlock len t = Some (-1, pBlock', reader', w2)) \<and>
    (e \<noteq> WSAEINTR \<and> (\<forall>w. fst (w_select sock Readable h (win_timeval t) w) = Inl e) \<longrightarrow>
      win_receiveComplete sock h reader w pBlock len t = None)"
proof -
  have step: "win_receiveComplete sock h reader w pBlock len t =
      Option.bind (win_wait_readable (w_select sock Readable h (win_timeval t)) w1) (\<lambda>(err, w).
        if err \<noteq> Inr 1 then Some (-1, [] @ pBlock', reader', w)
        else win_receive_loop sock h t len reader' w [] pBlock' len)"
    unfolding win_receiveComplete_def using assms by (subst win_receive_loop.simps) simp
  show ?thesis unfolding step
    using win_wait_interrupted [of "w_select sock Readable h (win_timeval t)" w1 w2]
      win_wait_error [of e "w_select sock Readable h (win_timeval t)" w1] by auto
qed

theorem win_receiveComplete_wait_witness:
  "\<forall>w. win_receiveComplete ((pipe_sock pipe_send)\<lparr>w_select := \<lambda>x h t w. (Inl WSAEINTR, w)\<rparr>) 8 (BufferedReader_init []) w [0] 1 (-1) =
      Some (-1, [0], (BufferedReader_init [])\<lparr>m_alreadyRead := 0, m_fillLevel := 0\<rparr>, w) \<and>
    win_receiveComplete ((pipe_sock pipe_send)\<lparr>w_select := \<lambda>x h t w. (Inl (WSAE_OTHER 10038), w)\<rparr>) 8 (BufferedReader_init []) w [0] 1 (-1) = None"
proof
  fix w :: pipe
  let ?s = "\<lambda>e. (pipe_sock pipe_send)\<lparr>w_select := \<lambda>x h t w. (Inl e, w)\<rparr>"
  have r: "win_recv (w_wsarecv (?s e) 8) (BufferedReader_init []) w [0] 1 =
      (Inl WSA_IO_PENDING, [0], (BufferedReader_init [])\<lparr>m_alreadyRead := 0, m_fillLevel := 0\<rparr>, w)" for e
    by (simp add: win_recv_def BufferedReader_init_def pipe_sock_def idle_sock_def Let_def)
  show "win_receiveComplete (?s WSAEINTR) 8 (BufferedReader_init []) w [0] 1 (-1) =
      Some (-1, [0], (BufferedReader_init [])\<lparr>m_alreadyRead := 0, m_fillLevel := 0\<rparr>, w) \<and>
    win_receiveComplete (?s (WSAE_OTHER 10038)) 8 (BufferedReader_init []) w [0] 1 (-1) = None"
    using win_receiveComplete_wait [OF zero_less_one r [of WSAEINTR] disjI1 [OF refl], of "-1" w "WSAE_OTHER 0"]
      win_receiveComplete_wait [OF zero_less_one r [of "WSAE_OTHER 10038"] disjI1 [OF refl], of "-1" w "WSAE_OTHER 10038"] by simp
qed

text \<open>
  What the reader has fetched ahead survives \<open>disconnect\<close> and \<open>connect\<close>: the first bytes received
  over the new connection are those left from the old one, and no call is made for them.
\<close>

theorem reconnect_keeps_old_bytes:
  assumes "reader_ok (ws_reader s)" "n \<le> length (left (ws_reader s))"
    and "win_connect env domain addr (win_disconnect env (s, l)) = (r, s', l')"
  shows "\<exists>reader'. win_receive (ws_sock env) (fileHandle (ws_event s')) (ws_reader s') (w_world l') buf n =
    (Inr n, copy_to 0 (take n (left (ws_reader s))) buf, reader', w_world l')"
proof -
  have same: "ws_reader s' = ws_reader s"
    using assms(3) by (auto simp: win_connect_def win_disconnect_def win_setDataCb_def on_world_def Let_def split: prod.splits if_splits)
  have "n \<le> m_fillLevel (ws_reader s) - m_alreadyRead (ws_reader s)" using assms(2) left_length [OF assms(1)] by simp
  then show ?thesis using left_take [OF assms(1,2)] by (simp add: same win_receive_def win_recv_def Let_def)
qed

definition old_reader :: BufferedReader where
  "old_reader = \<lparr>m_buffer = [7, 9] @ replicate (buffer_size - 2) 0, m_fillLevel = 2, m_alreadyRead = 1\<rparr>"

lemma old_reader_left: "reader_ok old_reader" "left old_reader = [9]"
  by (simp_all add: old_reader_def reader_ok_def left_def buffer_size_def)

theorem reconnect_keeps_old_bytes_witness:
  "\<forall>(env :: (unit, unit, pipe) ws_env) l. \<exists>s' l' reader'. win_connect (env\<lparr>ws_sock := pipe_sock pipe_send\<rparr>) AF_INET ([], 0)
      (win_disconnect (env\<lparr>ws_sock := pipe_sock pipe_send\<rparr>) (\<lparr>ws_event = win_event_init, ws_reader = old_reader, ws_handler = None\<rparr>, l)) = (0, s', l') \<and>
    win_receive (pipe_sock pipe_send) (fileHandle (ws_event s')) (ws_reader s') (w_world l') [0] 1 = (Inr 1, [9], reader', w_world l')"
proof (intro allI)
  fix env0 :: "(unit, unit, pipe) ws_env" and l :: "(unit, pipe) win_loop"
  let ?env = "env0\<lparr>ws_sock := pipe_sock pipe_send\<rparr>" and ?s = "\<lparr>ws_event = win_event_init, ws_reader = old_reader, ws_handler = None\<rparr>"
  obtain r s' l' where c: "win_connect ?env AF_INET ([], 0) (win_disconnect ?env (?s, l)) = (r, s', l')"
    by (metis prod_cases3)
  moreover have "r = 0"
    using c by (simp add: win_connect_def win_disconnect_def win_establish_def win_setSocketOptions_def on_world_def pipe_sock_def idle_sock_def
        INVALID_HANDLE_VALUE_def Let_def split: prod.splits)
  ultimately show "\<exists>s' l' reader'. win_connect ?env AF_INET ([], 0) (win_disconnect ?env (?s, l)) = (0, s', l') \<and>
      win_receive (pipe_sock pipe_send) (fileHandle (ws_event s')) (ws_reader s') (w_world l') [0] 1 = (Inr 1, [9], reader', w_world l')"
    using reconnect_keeps_old_bytes [of ?s 1 ?env AF_INET "([], 0)" l r s' l' "[0]"] old_reader_left by (simp add: copy_to_def)
qed

end
