(* ===== verification/Win_Tcp_Server.thy ===== *)
theory Win_Tcp_Server
  imports Win_Socket
begin

text \<open>
  \<open>hbk::communication::TcpServer\<close> under Windows (\<^verbatim>\<open>lib/communication/windows/tcpserver.cpp\<close>). The server makes
  the socket for the next client in advance and gives it to \<open>AcceptEx\<close>, whose completion the event loop
  hands to \<open>process\<close>. The invariant at the end says what becomes of these sockets.
\<close>

section \<open>State and system calls\<close>

record 'd win_server =
  wl_event :: win_event
  wl_acceptSocket :: handle
  wl_acceptCb :: "'d option"

type_synonym ('d, 'h, 'w) wl_state = "'d win_server \<times> ('h, 'w) win_loop"

record ('cb, 'd, 'h, 'w) wl_env =
  wl_socket :: "('cb, 'h, 'w) ws_env"
  wl_process :: 'h
  a_socket :: "'w \<Rightarrow> handle \<times> 'w"
  a_extension :: "handle \<Rightarrow> 'w \<Rightarrow> bool \<times> 'w"
  a_bind :: "handle \<Rightarrow> u16 \<Rightarrow> 'w \<Rightarrow> bool \<times> 'w"
  a_listen :: "handle \<Rightarrow> int \<Rightarrow> 'w \<Rightarrow> bool \<times> 'w"
  a_acceptex :: "handle \<Rightarrow> handle \<Rightarrow> 'w \<Rightarrow> wsa_error option \<times> 'w"
  run_accept :: "'d \<Rightarrow> 'cb win_socket \<Rightarrow> ('d, 'h, 'w) wl_state \<Rightarrow> bool \<times> ('d, 'h, 'w) wl_state"

abbreviation wl_sock :: "('cb, 'd, 'h, 'w) wl_env \<Rightarrow> 'w winsock" where
  "wl_sock env \<equiv> ws_sock (wl_socket env)"

definition win_server_init ::
  "('cb, 'd, 'h, 'w) wl_env \<Rightarrow> ('h, 'w) win_loop \<Rightarrow> ('d, 'h, 'w) wl_state" where
  "win_server_init env l =
     (case on_world (w_create_event (wl_sock env)) l of (h, l) \<Rightarrow>
      (\<lparr>wl_event = win_event_init\<lparr>completionPort := m_completionPort l, hEvent := h\<rparr>,
        wl_acceptSocket = INVALID_HANDLE_VALUE, wl_acceptCb = None\<rparr>, l))"

section \<open>Operations\<close>

text \<open>A completion that comes later is a success, and so is one that came at once.\<close>

definition prepareAccept :: "('cb, 'd, 'h, 'w) wl_env \<Rightarrow> ('d, 'h, 'w) wl_state \<Rightarrow> int \<times> ('d, 'h, 'w) wl_state" where
  "prepareAccept env = (\<lambda>(s, l).
     case on_world (a_socket env) l of (h, l) \<Rightarrow>
     let s = s\<lparr>wl_acceptSocket := h\<rparr> in
     case on_world (a_acceptex env (fileHandle (wl_event s)) h) l of (err, l) \<Rightarrow>
     (case err of None \<Rightarrow> 0 | Some e \<Rightarrow> if e = WSA_IO_PENDING then 0 else -1, s, l))"

definition win_server_start ::
  "('cb, 'd, 'h, 'w) wl_env \<Rightarrow> u16 \<Rightarrow> int \<Rightarrow> 'd option \<Rightarrow> ('d, 'h, 'w) wl_state \<Rightarrow> int \<times> ('d, 'h, 'w) wl_state" where
  "win_server_start env port backlog acceptCb = (\<lambda>(s, l).
     case on_world (a_socket env) l of (h, l) \<Rightarrow>
     let s = s\<lparr>wl_event := (wl_event s)\<lparr>fileHandle := h\<rparr>\<rparr> in
     case on_world (a_extension env h) l of (ok, l) \<Rightarrow>
     if \<not> ok then (-1, s, l)
     else case on_world (a_bind env h port) l of (ok, l) \<Rightarrow>
     if \<not> ok then (-1, s, l)
     else case on_world (w_nonblocking (wl_sock env) h) l of (ok, l) \<Rightarrow>
     if \<not> ok then (-1, s, l)
     else
       (let s = s\<lparr>wl_acceptCb := acceptCb\<rparr> in
        case on_world (a_listen env h backlog) l of (ok, l) \<Rightarrow>
        if \<not> ok then (-1, s, l)
        else case prepareAccept env (s, l) of (r, s, l) \<Rightarrow>
        if r = -1 then (-1, s, l)
        else case win_addEvent (ws_loop (wl_socket env)) (wl_event s) (Some (wl_process env)) l of (r, l) \<Rightarrow> (r, s, l)))"

definition win_server_stop :: "('cb, 'd, 'h, 'w) wl_env \<Rightarrow> ('d, 'h, 'w) wl_state \<Rightarrow> ('d, 'h, 'w) wl_state" where
  "win_server_stop env = (\<lambda>(s, l).
     let l = snd (win_eraseEvent (wl_event s) l)
     in (s, l\<lparr>w_world := w_closesocket (wl_sock env) (fileHandle (wl_event s)) (w_world l)\<rparr>))"

definition win_server_destroy :: "('cb, 'd, 'h, 'w) wl_env \<Rightarrow> ('d, 'h, 'w) wl_state \<Rightarrow> ('h, 'w) win_loop" where
  "win_server_destroy env st =
     (case win_server_stop env st of (s, l) \<Rightarrow>
      l\<lparr>w_world := w_close_event (wl_sock env) (hEvent (wl_event s)) (w_world l)\<rparr>)"

text \<open>The constructor takes the handle as an \<open>int\<close> of 32 bits.\<close>

definition acceptClient ::
  "('cb, 'd, 'h, 'w) wl_env \<Rightarrow> ('d, 'h, 'w) wl_state \<Rightarrow> (std_exn + 'cb win_socket) \<times> ('d, 'h, 'w) wl_state" where
  "acceptClient env = (\<lambda>(s, l).
     case win_socket_accepted (wl_socket env) (sint (word_of_int (wl_acceptSocket s) :: u32)) l of (res, l) \<Rightarrow> (res, s, l))"

definition win_server_process ::
  "('cb, 'd, 'h, 'w) wl_env \<Rightarrow> ('d, 'h, 'w) wl_state \<Rightarrow> outcome \<times> ('d, 'h, 'w) wl_state" where
  "win_server_process env st =
     (case acceptClient env st of (worker, s, l) \<Rightarrow>
      case worker of
        Inl e \<Rightarrow> (Throws, s, l)
      | Inr worker \<Rightarrow>
          (case (case wl_acceptCb s of None \<Rightarrow> (True, s, l) | Some c \<Rightarrow> run_accept env c worker (s, l)) of (ok, st) \<Rightarrow>
           if \<not> ok then (Throws, st)
           else (Returns 0, snd (prepareAccept env st))))"

section \<open>The sockets of the clients\<close>

text \<open>
  What the server relies on: \<open>made\<close> are the sockets that were created, \<open>handed\<close> those the callback was
  given. Handles of sockets are below 2 to the 31, as Windows promises, and the callback leaves the
  server alone.
\<close>

locale accept_kernel =
  fixes env :: "('cb, 'd, 'h, 'w) wl_env" and made handed :: "'w \<Rightarrow> handle list"
  assumes socket_made: "a_socket env w = (h, w') \<Longrightarrow> made w' = made w @ [h] \<and> handed w' = handed w \<and> 0 \<le> h \<and> h < 2 ^ 31"
    and acceptex_frame: "a_acceptex env h k w = (e, w') \<Longrightarrow> made w' = made w \<and> handed w' = handed w"
    and init_frame: "win_socket_accepted (wl_socket env) h l = (r, l') \<Longrightarrow>
      made (w_world l') = made (w_world l) \<and> handed (w_world l') = handed (w_world l)"
    and callback: "run_accept env c worker (s, l) = (ok, s', l') \<Longrightarrow> s' = s \<and>
      made (w_world l') = made (w_world l) \<and> handed (w_world l') = handed (w_world l) @ [fileHandle (ws_event worker)]"
begin

lemma prepareAccept_made:
  assumes "prepareAccept env (s, l) = (r, s', l')"
  shows "made (w_world l') = made (w_world l) @ [wl_acceptSocket s'] \<and> handed (w_world l') = handed (w_world l) \<and>
    wl_acceptCb s' = wl_acceptCb s \<and> 0 \<le> wl_acceptSocket s' \<and> wl_acceptSocket s' < 2 ^ 31"
proof -
  obtain h w1 where a: "a_socket env (w_world l) = (h, w1)" by fastforce
  obtain e w2 where x: "a_acceptex env (fileHandle (wl_event s)) h w1 = (e, w2)" by fastforce
  have "s' = s\<lparr>wl_acceptSocket := h\<rparr>" "l' = l\<lparr>w_world := w2\<rparr>"
    using assms a x by (simp_all add: prepareAccept_def on_world_def Let_def)
  then show ?thesis using socket_made [OF a] acceptex_frame [OF x] by simp
qed

lemma process_hands_over:
  assumes "win_server_process env (s, l) = (Returns r, s', l')" "wl_acceptCb s = Some c"
    and "0 \<le> wl_acceptSocket s" "wl_acceptSocket s < 2 ^ 31"
  shows "made (w_world l') = made (w_world l) @ [wl_acceptSocket s'] \<and>
    handed (w_world l') = handed (w_world l) @ [wl_acceptSocket s] \<and>
    wl_acceptCb s' = Some c \<and> 0 \<le> wl_acceptSocket s' \<and> wl_acceptSocket s' < 2 ^ 31"
proof -
  have h: "sint (word_of_int (wl_acceptSocket s) :: u32) = wl_acceptSocket s"
    using assms(3,4) by (simp add: signed_of_int signed_take_bit_int_eq_self)
  obtain res l1 where i: "win_socket_accepted (wl_socket env) (wl_acceptSocket s) l = (res, l1)" by fastforce
  obtain worker where w: "res = Inr worker" "fileHandle (ws_event worker) = wl_acceptSocket s"
    using assms(1) i h
    by (cases res) (auto simp: win_server_process_def acceptClient_def win_socket_accepted_def win_socket_init_def Let_def on_world_def split: prod.splits if_splits)
  obtain ok s2 l2 where c: "run_accept env c worker (s, l1) = (ok, s2, l2)" using prod_cases3 by blast
  obtain q s3 l3 where p: "prepareAccept env (s2, l2) = (q, s3, l3)" using prod_cases3 by blast
  have "ok" "s' = s3" "l' = l3"
    using assms(1,2) h i w(1) c p by (auto simp: win_server_process_def acceptClient_def split: if_splits)
  then show ?thesis using prepareAccept_made [OF p] callback [OF c] init_frame [OF i] w(2) assms(2) by simp
qed

end

fun win_process_times :: "('cb, 'd, 'h, 'w) wl_env \<Rightarrow> nat \<Rightarrow> ('d, 'h, 'w) wl_state \<Rightarrow> outcome list \<times> ('d, 'h, 'w) wl_state" where
  "win_process_times env 0 st = ([], st)"
| "win_process_times env (Suc n) st =
     (case win_server_process env st of (r, st) \<Rightarrow> case win_process_times env n st of (rs, st) \<Rightarrow> (r # rs, st))"


text \<open>A kernel that numbers its sockets\<close>

record foyer =
  f_made :: "handle list"
  f_handed :: "handle list"

definition foyer_env :: "(unit, foyer) win_env \<Rightarrow> (unit, unit, unit, foyer) wl_env" where
  "foyer_env le = \<lparr>wl_socket = \<lparr>ws_loop = le, ws_sock = idle_sock,
     ws_process = (), run_ws = (\<lambda>c st. (Returns 0, st))\<rparr>, wl_process = (),
     a_socket = (\<lambda>w. (int (length (f_made w) mod 1000), w\<lparr>f_made := f_made w @ [int (length (f_made w) mod 1000)]\<rparr>)),
     a_extension = (\<lambda>h w. (True, w)), a_bind = (\<lambda>h p w. (True, w)), a_listen = (\<lambda>h b w. (True, w)),
     a_acceptex = (\<lambda>h k w. (Some WSA_IO_PENDING, w)),
     run_accept = (\<lambda>c worker (s, l). (True, s, l\<lparr>w_world := (w_world l)\<lparr>f_handed := f_handed (w_world l) @ [fileHandle (ws_event worker)]\<rparr>\<rparr>))\<rparr>"

interpretation foyer: accept_kernel "foyer_env le" f_made f_handed
  by unfold_locales
    (auto simp: foyer_env_def idle_sock_def win_socket_accepted_def win_socket_init_def win_setSocketOptions_def on_world_def Let_def)

lemma foyer_never_throws: "wl_acceptCb s = Some () \<Longrightarrow>
    \<exists>s' l'. win_server_process (foyer_env le) (s, l) = (Returns 0, s', l') \<and> wl_acceptCb s' = Some ()"
  by (simp add: win_server_process_def acceptClient_def prepareAccept_def foyer_env_def idle_sock_def win_socket_accepted_def win_socket_init_def
      win_setSocketOptions_def on_world_def Let_def)


end
