(* ===== verification/Win_Multicast.thy ===== *)
theory Win_Multicast
  imports Multicast_Server Win_Socket
begin

text \<open>
  \<open>hbk::communication::MulticastServer\<close> under Windows (\<^verbatim>\<open>lib/communication/windows/multicastserver.cpp\<close>).
  Receiving is by an operation that was ordered before and whose completion the event loop gets;
  \<open>receiveTelegram\<close> takes what it has received and orders the next. The options of the sockets are
  parameters of \<open>setsockopt\<close>; the one that selects the interface for sending is the bytes the
  code passes, and the kernel takes the first four of them, an address in network order.
  The address the sender of a datagram is written to, \<open>m_receiveAddr\<close>, is only used for binding before.
  Where the code looks for an error it reads \<open>errno\<close>, which is not changed by a call of Winsock.
\<close>

section \<open>State and system calls\<close>

datatype win_mc_option =
  W_RCVBUF nat | W_REUSEADDR nat | W_PKTINFO nat | W_MULTICAST_LOOP bool | W_ADD_MEMBERSHIP u32 u32
  | W_DROP_MEMBERSHIP u32 u32 | W_MULTICAST_IF bytes | W_MULTICAST_TTL u32

record 'c win_mc =
  wm_group :: string
  wm_port :: u32
  wm_receive :: win_event
  wm_send :: win_event
  wm_receiveAddr :: "domain \<times> u16"
  wm_dataHandler :: "'c option"

type_synonym ('c, 'h, 'w) wm_state = "'c win_mc \<times> ('h, 'w) win_loop"

text \<open>
  \<open>r_size\<close> is \<open>overlapped.InternalHigh\<close>, the number of bytes the operation has received into \<open>r_buffer\<close>
  with the control messages \<open>r_cmsgs\<close>, and \<open>r_clear\<close> sets it to 0; \<open>r_order\<close> is \<open>WSARecvMsg\<close>.
\<close>

record ('c, 'h, 'w) wm_env =
  wm_loop :: "('h, 'w) win_env"
  wm_process :: 'h
  wm_sock :: "'w winsock"
  wm_adapters :: "'w \<Rightarrow> Adapters"
  wm_option :: "handle \<Rightarrow> win_mc_option \<Rightarrow> 'w \<Rightarrow> bool \<times> 'w"
  wm_bind :: "handle \<Rightarrow> domain \<times> u16 \<Rightarrow> 'w \<Rightarrow> bool \<times> 'w"
  wm_extension :: "handle \<Rightarrow> 'w \<Rightarrow> bool \<times> 'w"
  wm_resolve :: "domain \<Rightarrow> string \<Rightarrow> string \<Rightarrow> (domain \<times> u32) option"
  wm_inet_pton :: "string \<Rightarrow> u32 option"
  wm_sendto :: "handle \<Rightarrow> bytes \<Rightarrow> u32 \<Rightarrow> u16 \<Rightarrow> 'w \<Rightarrow> (wsa_error + nat) \<times> 'w"
  c_errno :: "'w \<Rightarrow> nat"
  r_size :: "'w \<Rightarrow> nat"
  r_clear :: "'w \<Rightarrow> 'w"
  r_buffer :: "'w \<Rightarrow> bytes"
  r_cmsgs :: "'w \<Rightarrow> cmsg list"
  r_order :: "handle \<Rightarrow> 'w \<Rightarrow> (wsa_error + nat) \<times> 'w"
  run_wm :: "'c \<Rightarrow> ('c, 'h, 'w) wm_state \<Rightarrow> outcome \<times> ('c, 'h, 'w) wm_state"

text \<open>The values of \<open>errno\<close> and of the errors of Winsock\<close>

definition C_EADDRINUSE :: nat where "C_EADDRINUSE = 100"
definition C_EADDRNOTAVAIL :: nat where "C_EADDRNOTAVAIL = 101"
definition WSAEADDRINUSE :: nat where "WSAEADDRINUSE = 10048"
definition WSAEADDRNOTAVAIL :: nat where "WSAEADDRNOTAVAIL = 10049"

text \<open>An address as its four bytes in network order\<close>

definition net_bytes :: "u32 \<Rightarrow> bytes" where
  "net_bytes a = [ucast (drop_bit 24 a), ucast (drop_bit 16 a), ucast (drop_bit 8 a), ucast a]"

definition win_mc_init :: "('c, 'h, 'w) wm_env \<Rightarrow> ('h, 'w) win_loop \<Rightarrow> ('c, 'h, 'w) wm_state" where
  "win_mc_init env l =
     (case on_world (w_create_event (wm_sock env)) l of (h, l) \<Rightarrow>
      (\<lparr>wm_group = [], wm_port = 0,
        wm_receive = win_event_init\<lparr>completionPort := m_completionPort l, hEvent := h, fileHandle := INVALID_HANDLE_VALUE\<rparr>,
        wm_send = win_event_init\<lparr>fileHandle := INVALID_HANDLE_VALUE\<rparr>,
        wm_receiveAddr = (AF_UNSPEC, 0), wm_dataHandler = None\<rparr>, l))"

section \<open>The sockets\<close>

fun win_mc_options :: "('c, 'h, 'w) wm_env \<Rightarrow> handle \<Rightarrow> win_mc_option list \<Rightarrow> 'w \<Rightarrow> bool \<times> 'w" where
  "win_mc_options env h [] w = (True, w)"
| "win_mc_options env h (opt # opts) w =
     (case wm_option env h opt w of (ok, w) \<Rightarrow> if ok then win_mc_options env h opts w else (False, w))"

text \<open>The tests \<open>fileHandle < 0\<close> of a pointer are never true, so an invalid socket is used on.\<close>

definition win_setupReceiveSocket :: "('c, 'h, 'w) wm_env \<Rightarrow> ('c, 'h, 'w) wm_state \<Rightarrow> int \<times> ('c, 'h, 'w) wm_state" where
  "win_setupReceiveSocket env = (\<lambda>(s, l).
     case wm_resolve env AF_UNSPEC (wm_group s) (port_string (wm_port s)) of
       None \<Rightarrow> (-1, s, l)
     | Some (family, _) \<Rightarrow>
         (case on_world (w_socket (wm_sock env) family) l of (h, l) \<Rightarrow>
          let s = s\<lparr>wm_receive := (wm_receive s)\<lparr>fileHandle := h\<rparr>, wm_receiveAddr := (family, ucast (wm_port s))\<rparr>;
              l = snd (on_world (w_nonblocking (wm_sock env) h) l) in
          case on_world (win_mc_options env h [W_RCVBUF 128000, W_REUSEADDR 1, W_PKTINFO 1]) l of (ok, l) \<Rightarrow>
          if \<not> ok then (-1, s, l)
          else case on_world (wm_bind env h (wm_receiveAddr s)) l of (ok, l) \<Rightarrow>
          if \<not> ok then (-1, s, l)
          else case on_world (wm_extension env h) l of (ok, l) \<Rightarrow>
          if \<not> ok then (-1, s, l) else (0, s, l)))"

definition win_setMulticastLoop :: "('c, 'h, 'w) wm_env \<Rightarrow> bool \<Rightarrow> ('c, 'h, 'w) wm_state \<Rightarrow> int \<times> ('c, 'h, 'w) wm_state" where
  "win_setMulticastLoop env v = (\<lambda>(s, l).
     case on_world (wm_option env (fileHandle (wm_send s)) (W_MULTICAST_LOOP v)) l of (ok, l) \<Rightarrow>
     (if ok then 0 else -1, s, l))"

definition win_setupSendSocket :: "('c, 'h, 'w) wm_env \<Rightarrow> ('c, 'h, 'w) wm_state \<Rightarrow> int \<times> ('c, 'h, 'w) wm_state" where
  "win_setupSendSocket env = (\<lambda>(s, l).
     case on_world (w_socket (wm_sock env) AF_INET) l of (h, l) \<Rightarrow>
     let s = s\<lparr>wm_send := (wm_send s)\<lparr>fileHandle := h\<rparr>\<rparr> in
     if h = INVALID_HANDLE_VALUE then (-1, s, l)
     else (0, snd (win_setMulticastLoop env False (s, l))))"

section \<open>Membership\<close>

text \<open>The ends of both forms, which compare \<open>errno\<close> with different numbers\<close>

definition win_membership ::
  "('c, 'h, 'w) wm_env \<Rightarrow> nat \<Rightarrow> nat \<Rightarrow> u32 \<Rightarrow> u32 \<Rightarrow> bool \<Rightarrow> ('c, 'h, 'w) wm_state \<Rightarrow> int \<times> ('c, 'h, 'w) wm_state" where
  "win_membership env in_use not_avail g i add = (\<lambda>(s, l).
     case on_world (wm_option env (fileHandle (wm_receive s)) (if add then W_ADD_MEMBERSHIP g i else W_DROP_MEMBERSHIP g i)) l of (ok, l) \<Rightarrow>
     (if ok then 1
      else if add then (if c_errno env (w_world l) = in_use then 0 else -1)
      else (if c_errno env (w_world l) = not_avail then 0 else -1), s, l))"

definition win_dropOrAdd_address ::
  "('c, 'h, 'w) wm_env \<Rightarrow> string \<Rightarrow> bool \<Rightarrow> ('c, 'h, 'w) wm_state \<Rightarrow> int \<times> ('c, 'h, 'w) wm_state" where
  "win_dropOrAdd_address env interfaceAddress add = (\<lambda>(s, l).
     case wm_resolve env AF_UNSPEC (wm_group s) (port_string (wm_port s)) of
       None \<Rightarrow> (-1, s, l)
     | Some (_, g) \<Rightarrow>
         (case wm_inet_pton env interfaceAddress of
            None \<Rightarrow> (-1, s, l)
          | Some i \<Rightarrow> win_membership env WSAEADDRINUSE WSAEADDRNOTAVAIL g i add (s, l)))"

definition win_dropOrAdd_index ::
  "('c, 'h, 'w) wm_env \<Rightarrow> u32 \<Rightarrow> bool \<Rightarrow> ('c, 'h, 'w) wm_state \<Rightarrow> int \<times> ('c, 'h, 'w) wm_state" where
  "win_dropOrAdd_index env interfaceIndex add = (\<lambda>(s, l).
     case wm_resolve env AF_INET (wm_group s) (port_string (wm_port s)) of
       None \<Rightarrow> (-1, s, l)
     | Some (sa_family, g) \<Rightarrow>
         (if sa_family \<noteq> AF_INET then (-1, s, l)
          else win_membership env C_EADDRINUSE C_EADDRNOTAVAIL g interfaceIndex add (s, l)))"

definition win_addInterface_address where "win_addInterface_address env a = win_dropOrAdd_address env a True"
definition win_addInterface_index where "win_addInterface_index env i = win_dropOrAdd_index env i True"
definition win_dropInterface_address where "win_dropInterface_address env a = win_dropOrAdd_address env a False"
definition win_dropInterface_index where "win_dropInterface_index env i = win_dropOrAdd_index env i False"

definition win_addAllInterfaces :: "('c, 'h, 'w) wm_env \<Rightarrow> ('c, 'h, 'w) wm_state \<Rightarrow> ('c, 'h, 'w) wm_state" where
  "win_addAllInterfaces env st =
     fold (\<lambda>(_, adapter) st. snd (win_dropOrAdd_index env (m_index adapter) True st)) (wm_adapters env (w_world (snd st))) st"

definition win_dropAllInterfaces :: "('c, 'h, 'w) wm_env \<Rightarrow> ('c, 'h, 'w) wm_state \<Rightarrow> ('c, 'h, 'w) wm_state" where
  "win_dropAllInterfaces env st =
     fold (\<lambda>(_, adapter) st. snd (win_dropOrAdd_index env (m_index adapter) False st)) (wm_adapters env (w_world (snd st))) st"

section \<open>Receiving\<close>

definition orderNextMessage :: "('c, 'h, 'w) wm_env \<Rightarrow> ('c, 'h, 'w) wm_state \<Rightarrow> int \<times> ('c, 'h, 'w) wm_state" where
  "orderNextMessage env = (\<lambda>(s, l).
     case on_world (r_order env (fileHandle (wm_receive s))) l of (res, l) \<Rightarrow>
     (case res of Inr recvSize \<Rightarrow> int recvSize | Inl e \<Rightarrow> if e = WSA_IO_PENDING then 0 else -1, s, l))"

definition win_mc_process :: "('c, 'h, 'w) wm_env \<Rightarrow> ('c, 'h, 'w) wm_state \<Rightarrow> outcome \<times> ('c, 'h, 'w) wm_state" where
  "win_mc_process env st =
     (case wm_dataHandler (fst st) of Some c \<Rightarrow> run_wm env c st | None \<Rightarrow> (Returns (-1), st))"

text \<open>The result, the bytes received, the index, which is left alone without a control message, and the ttl\<close>

definition win_receiveTelegram_index ::
  "('c, 'h, 'w) wm_env \<Rightarrow> nat \<Rightarrow> u32 \<Rightarrow> ('c, 'h, 'w) wm_state \<Rightarrow> (int \<times> bytes \<times> u32 \<times> int) \<times> ('c, 'h, 'w) wm_state" where
  "win_receiveTelegram_index env msgBufSize adapterIndex = (\<lambda>(s, l).
     let w = w_world l in
     if r_size env w = 0 then ((-1, [], adapterIndex, 1), s, l)
     else
       (let n = min (r_size env w) msgBufSize; msg = take n (r_buffer env w);
            st = snd (orderNextMessage env (s, l\<lparr>w_world := r_clear env w\<rparr>))
        in ((int n, msg, read_cmsgs (r_cmsgs env w) (adapterIndex, 1)), st)))"

definition win_receiveTelegram_adapter ::
  "('c, 'h, 'w) wm_env \<Rightarrow> nat \<Rightarrow> ('c, 'h, 'w) wm_state \<Rightarrow> (int \<times> bytes \<times> Netadapter option \<times> int) \<times> ('c, 'h, 'w) wm_state" where
  "win_receiveTelegram_adapter env len st =
     (case win_receiveTelegram_index env len 0 st of ((nbytes, msg, interfaceIndex, ttl), st) \<Rightarrow>
      if 0 < nbytes then
        (case getAdapterByInterfaceIndex (wm_adapters env (w_world (snd st))) interfaceIndex of
           Inr adapter \<Rightarrow> ((nbytes, msg, Some adapter, ttl), st)
         | Inl e \<Rightarrow> ((-1, msg, None, ttl), st))
      else ((nbytes, msg, None, ttl), st))"

definition win_receiveTelegram_name ::
  "('c, 'h, 'w) wm_env \<Rightarrow> nat \<Rightarrow> ('c, 'h, 'w) wm_state \<Rightarrow> (int \<times> bytes \<times> string option \<times> int) \<times> ('c, 'h, 'w) wm_state" where
  "win_receiveTelegram_name env len st =
     (case win_receiveTelegram_index env len 0 st of ((nbytes, msg, interfaceIndex, ttl), st) \<Rightarrow>
      if 0 < nbytes then
        (case getAdapterByInterfaceIndex (wm_adapters env (w_world (snd st))) interfaceIndex of
           Inr adapter \<Rightarrow> ((nbytes, msg, Some (m_name adapter), ttl), st)
         | Inl e \<Rightarrow> ((-1, msg, None, ttl), st))
      else ((nbytes, msg, None, ttl), st))"

section \<open>Sending\<close>

text \<open>What the three functions that send have in common after the choice of the interface\<close>

definition win_send_datagram ::
  "('c, 'h, 'w) wm_env \<Rightarrow> bytes \<Rightarrow> bytes \<Rightarrow> u32 \<Rightarrow> ('c, 'h, 'w) wm_state \<Rightarrow> int \<times> ('c, 'h, 'w) wm_state" where
  "win_send_datagram env iface pData ttl = (\<lambda>(s, l).
     let h = fileHandle (wm_send s) in
     case on_world (wm_option env h (W_MULTICAST_IF iface)) l of (ok, l) \<Rightarrow>
     if \<not> ok then (ERR_INVALIDADAPTER, s, l)
     else case on_world (wm_option env h (W_MULTICAST_TTL ttl)) l of (ok, l) \<Rightarrow>
     if \<not> ok then (ERR_NO_SUCCESS, s, l)
     else case wm_inet_pton env (wm_group s) of None \<Rightarrow> (ERR_NO_SUCCESS, s, l) | Some g \<Rightarrow>
     case on_world (wm_sendto env h pData g (ucast (wm_port s))) l of (nbytes, l) \<Rightarrow>
     (if nbytes \<noteq> Inr (length pData) then ERR_NO_SUCCESS else ERR_SUCCESS, s, l))"

definition win_sendOver_index ::
  "('c, 'h, 'w) wm_env \<Rightarrow> u32 \<Rightarrow> bytes option \<Rightarrow> nat \<Rightarrow> u32 \<Rightarrow> ('c, 'h, 'w) wm_state \<Rightarrow> int \<times> ('c, 'h, 'w) wm_state" where
  "win_sendOver_index env interfaceIndex pData len ttl st =
     (case pData of None \<Rightarrow> (if 0 < len then ERR_NO_SUCCESS else ERR_SUCCESS, st) | Some d \<Rightarrow>
      win_send_datagram env (net_bytes interfaceIndex) (take len d) ttl st)"

text \<open>The address that is converted is the one of the group.\<close>

definition win_sendOverInterfaceByAddress ::
  "('c, 'h, 'w) wm_env \<Rightarrow> string \<Rightarrow> bytes option \<Rightarrow> nat \<Rightarrow> u32 \<Rightarrow> ('c, 'h, 'w) wm_state \<Rightarrow> int \<times> ('c, 'h, 'w) wm_state" where
  "win_sendOverInterfaceByAddress env interfaceIp pData len ttl st =
     (case pData of None \<Rightarrow> (if 0 < len then ERR_NO_SUCCESS else ERR_SUCCESS, st) | Some d \<Rightarrow>
      case wm_inet_pton env (wm_group (fst st)) of None \<Rightarrow> (ERR_INVALIDIPADDRESS, st) | Some ifAddr \<Rightarrow>
      win_send_datagram env (net_bytes ifAddr) (take len d) ttl st)"

text \<open>The option is a whole \<open>struct ip_mreq\<close>: four bytes for the group, which are 0, then the index.\<close>

definition win_sendOverInterfaceByIndex ::
  "('c, 'h, 'w) wm_env \<Rightarrow> u32 \<Rightarrow> bytes option \<Rightarrow> nat \<Rightarrow> u32 \<Rightarrow> ('c, 'h, 'w) wm_state \<Rightarrow> int \<times> ('c, 'h, 'w) wm_state" where
  "win_sendOverInterfaceByIndex env interfaceIndex pData len ttl st =
     (case pData of None \<Rightarrow> (if 0 < len then ERR_NO_SUCCESS else ERR_SUCCESS, st) | Some d \<Rightarrow>
      win_send_datagram env ([0, 0, 0, 0] @ net_bytes interfaceIndex) (take len d) ttl st)"

definition win_sendByAddress_string ::
  "('c, 'h, 'w) wm_env \<Rightarrow> string \<Rightarrow> bytes \<Rightarrow> u32 \<Rightarrow> ('c, 'h, 'w) wm_state \<Rightarrow> int \<times> ('c, 'h, 'w) wm_state" where
  "win_sendByAddress_string env interfaceIp data ttl st =
     (if data = [] then (ERR_SUCCESS, st)
      else win_sendOverInterfaceByAddress env interfaceIp (Some data) (length data) ttl st)"

definition win_sendByIndex_string ::
  "('c, 'h, 'w) wm_env \<Rightarrow> u32 \<Rightarrow> bytes \<Rightarrow> u32 \<Rightarrow> ('c, 'h, 'w) wm_state \<Rightarrow> int \<times> ('c, 'h, 'w) wm_state" where
  "win_sendByIndex_string env interfaceIndex data ttl st =
     (if data = [] then (ERR_SUCCESS, st)
      else win_sendOverInterfaceByIndex env interfaceIndex (Some data) (length data) ttl st)"

definition win_sendOver_adapter_string ::
  "('c, 'h, 'w) wm_env \<Rightarrow> Netadapter \<Rightarrow> bytes \<Rightarrow> u32 \<Rightarrow> ('c, 'h, 'w) wm_state \<Rightarrow> int \<times> ('c, 'h, 'w) wm_state" where
  "win_sendOver_adapter_string env adapter data ttl st =
     (if data = [] then (0, st)
      else case m_ipv4Addresses adapter of
        [] \<Rightarrow> (ERR_NO_SUCCESS, st)
      | a # _ \<Rightarrow> win_sendByAddress_string env (address a) data ttl st)"

definition win_sendOver_index_string ::
  "('c, 'h, 'w) wm_env \<Rightarrow> u32 \<Rightarrow> bytes \<Rightarrow> u32 \<Rightarrow> ('c, 'h, 'w) wm_state \<Rightarrow> int \<times> ('c, 'h, 'w) wm_state" where
  "win_sendOver_index_string env interfaceIndex data ttl st =
     (if data = [] then (0, st)
      else case getAdapterByInterfaceIndex (wm_adapters env (w_world (snd st))) interfaceIndex of
        Inr adapter \<Rightarrow> win_sendOver_adapter_string env adapter data ttl st
      | Inl e \<Rightarrow> (ERR_INVALIDADAPTER, st))"

definition win_sendOver_adapter ::
  "('c, 'h, 'w) wm_env \<Rightarrow> Netadapter \<Rightarrow> bytes option \<Rightarrow> nat \<Rightarrow> u32 \<Rightarrow> ('c, 'h, 'w) wm_state \<Rightarrow> int \<times> ('c, 'h, 'w) wm_state" where
  "win_sendOver_adapter env adapter pData len ttl st =
     (if 0 < len then
        if pData = None then (ERR_NO_SUCCESS, st)
        else (case m_ipv4Addresses adapter of
            a # _ \<Rightarrow> win_sendOverInterfaceByAddress env (address a) pData len ttl st
          | [] \<Rightarrow> (ERR_INVALIDADAPTER, st))
      else (ERR_SUCCESS, st))"

fun win_send_loop ::
  "('c, 'h, 'w) wm_env \<Rightarrow> bytes option \<Rightarrow> nat \<Rightarrow> u32 \<Rightarrow> Netadapter list \<Rightarrow> int \<Rightarrow> ('c, 'h, 'w) wm_state \<Rightarrow> int \<times> ('c, 'h, 'w) wm_state" where
  "win_send_loop env pData len ttl [] retVal st = (retVal, st)"
| "win_send_loop env pData len ttl (adapter # adapters) retVal st =
     (case win_sendOverInterfaceByIndex env (m_index adapter) pData len ttl st of (retValIntern, st) \<Rightarrow>
      win_send_loop env pData len ttl adapters (if retValIntern \<noteq> 0 then retValIntern else retVal) st)"

definition win_mc_send ::
  "('c, 'h, 'w) wm_env \<Rightarrow> bytes option \<Rightarrow> nat \<Rightarrow> u32 \<Rightarrow> ('c, 'h, 'w) wm_state \<Rightarrow> int \<times> ('c, 'h, 'w) wm_state" where
  "win_mc_send env pData len ttl st = win_send_loop env pData len ttl (getArray (wm_adapters env (w_world (snd st)))) 0 st"

definition win_mc_send_string ::
  "('c, 'h, 'w) wm_env \<Rightarrow> bytes \<Rightarrow> u32 \<Rightarrow> ('c, 'h, 'w) wm_state \<Rightarrow> int \<times> ('c, 'h, 'w) wm_state" where
  "win_mc_send_string env data ttl st = win_mc_send env (Some data) (length data) ttl st"

section \<open>Starting and stopping\<close>

definition win_mc_start ::
  "('c, 'h, 'w) wm_env \<Rightarrow> string \<Rightarrow> u32 \<Rightarrow> 'c option \<Rightarrow> ('c, 'h, 'w) wm_state \<Rightarrow> int \<times> ('c, 'h, 'w) wm_state" where
  "win_mc_start env multicastGroup port dataHandler = (\<lambda>(s, l).
     case win_setupSendSocket env (s\<lparr>wm_group := multicastGroup, wm_port := port\<rparr>, l) of (err, s, l) \<Rightarrow>
     if err < 0 then (err, s, l)
     else case win_setupReceiveSocket env (s, l) of (err, s, l) \<Rightarrow>
     if err < 0 then (err, s, l)
     else
       (let s = s\<lparr>wm_dataHandler := dataHandler\<rparr> in
        if dataHandler = None then (0, s, l)
        else case snd (orderNextMessage env (s, l)) of (s, l) \<Rightarrow>
          case win_addEvent (wm_loop env) (wm_receive s) (Some (wm_process env)) l of (r, l) \<Rightarrow> (r, s, l)))"

definition win_mc_stop :: "('c, 'h, 'w) wm_env \<Rightarrow> ('c, 'h, 'w) wm_state \<Rightarrow> ('c, 'h, 'w) wm_state" where
  "win_mc_stop env st =
     (case win_dropAllInterfaces env st of (s, l) \<Rightarrow>
      let hs = fileHandle (wm_send s);
          (s, l) = (if hs \<noteq> INVALID_HANDLE_VALUE then
              (s\<lparr>wm_send := (wm_send s)\<lparr>fileHandle := INVALID_HANDLE_VALUE\<rparr>\<rparr>,
               l\<lparr>w_world := w_closesocket (wm_sock env) hs (w_world l)\<rparr>) else (s, l));
          hr = fileHandle (wm_receive s);
          (s, l) = (if hr \<noteq> INVALID_HANDLE_VALUE then
              (s\<lparr>wm_receive := (wm_receive s)\<lparr>fileHandle := INVALID_HANDLE_VALUE\<rparr>\<rparr>,
               l\<lparr>w_world := w_closesocket (wm_sock env) hr (w_shutdown (wm_sock env) hr (w_world l))\<rparr>) else (s, l))
      in (s, snd (win_eraseEvent (wm_receive s) l)))"

definition win_mc_destroy :: "('c, 'h, 'w) wm_env \<Rightarrow> ('c, 'h, 'w) wm_state \<Rightarrow> ('h, 'w) win_loop" where
  "win_mc_destroy env st =
     (case win_mc_stop env st of (s, l) \<Rightarrow>
      l\<lparr>w_world := w_close_event (wm_sock env) (hEvent (wm_receive s)) (w_world l)\<rparr>)"

end
