(* ===== verification/Win_Multicast_Props.thy ===== *)
theory Win_Multicast_Props
  imports Win_Multicast
begin

text \<open>
  What \<^theory_text>\<open>Win_Multicast\<close> does with the interface it is told to send over, and when it goes on
  receiving.
\<close>

section \<open>The interface for sending\<close>

text \<open>
  The kernel reads the value of \<open>IP_MULTICAST_IF\<close> as four bytes: the address of an interface, or its index
  in the last of them; zero is the interface of the default route.
\<close>

definition reads_four_bytes :: "('c, 'h, 'w) wm_env \<Rightarrow> bool" where
  "reads_four_bytes env \<longleftrightarrow>
     (\<forall>h x y w. take 4 x = take 4 y \<longrightarrow> wm_option env h (W_MULTICAST_IF x) w = wm_option env h (W_MULTICAST_IF y) w)"

lemma send_datagram_prefix:
  assumes "reads_four_bytes env" "take 4 x = take 4 y"
  shows "win_send_datagram env x d ttl st = win_send_datagram env y d ttl st"
proof -
  have "wm_option env h (W_MULTICAST_IF x) = wm_option env h (W_MULTICAST_IF y)" for h
    using assms unfolding reads_four_bytes_def by blast
  then show ?thesis by (simp add: win_send_datagram_def)
qed

lemma net_bytes_0: "net_bytes 0 = [0, 0, 0, 0]"
  by (simp add: net_bytes_def)

lemma byIndex_default:
  assumes "reads_four_bytes env"
  shows "win_sendOverInterfaceByIndex env i d n ttl st = win_sendOver_index env 0 d n ttl st"
  using send_datagram_prefix [OF assms, of "[0, 0, 0, 0] @ net_bytes i" "net_bytes 0"]
  by (simp add: win_sendOverInterfaceByIndex_def win_sendOver_index_def net_bytes_0 split: option.splits)

lemma send_loop_length:
  assumes "reads_four_bytes env" "length as = length bs"
  shows "win_send_loop env d n ttl as r st = win_send_loop env d n ttl bs r st"
  using assms(2)
proof (induction as arbitrary: bs r st)
  case (Cons a as)
  then obtain b bs' where bs: "bs = b # bs'" "length as = length bs'" by (cases bs) auto
  show ?case using Cons.IH [OF bs(2)] by (simp add: bs(1) byIndex_default [OF assms(1)] split: prod.splits)
qed simp

text \<open>
  The interface given to two of the functions that send has no effect. By address, the address of the
  group is used in its place; by index, the four bytes the kernel reads are zero, so the datagram
  goes over the interface of the default route. Sending over all interfaces therefore does the
  same whatever the adapters are, as long as there are as many: the datagram goes out over the
  default interface that many times.
\<close>

theorem win_interface_ignored:
  assumes "reads_four_bytes env"
  shows "win_sendOverInterfaceByAddress env ip d n ttl st = win_sendOverInterfaceByAddress env ip' d n ttl st \<and>
    win_sendOverInterfaceByIndex env i d n ttl st = win_sendOver_index env 0 d n ttl st \<and>
    (length (wm_adapters env (w_world (snd st))) = length as \<longrightarrow>
      win_mc_send env d n ttl st = win_send_loop env d n ttl as 0 st)"
  using byIndex_default [OF assms] send_loop_length [OF assms, of "getArray (wm_adapters env (w_world (snd st)))" as]
  by (simp add: win_sendOverInterfaceByAddress_def win_mc_send_def getArray_def)

section \<open>Going on with receiving\<close>

text \<open>
  A datagram without data ends the reception. When the operation has received bytes, \<open>receiveTelegram\<close>
  hands them over, cut to the size of the buffer, and orders exactly one more operation; when it has
  received none it returns \<open>-1\<close> and orders nothing, so no completion will come any more.
\<close>

theorem empty_datagram_ends_reception:
  assumes "\<And>h w res w'. r_order env h w = (res, w') \<Longrightarrow> orders w' = Suc (orders w)"
    and "\<And>w. orders (r_clear env w) = orders w"
    and "win_receiveTelegram_index env len i (s, l) = ((r, msg, i', ttl), s', l')"
  shows "if r_size env (w_world l) = 0 then r = -1 \<and> l' = l
    else r = int (min (r_size env (w_world l)) len) \<and> msg = take (nat r) (r_buffer env (w_world l)) \<and>
      orders (w_world l') = Suc (orders (w_world l))"
proof (cases "r_size env (w_world l) = 0")
  case True
  then show ?thesis using assms(3) by (simp add: win_receiveTelegram_index_def Let_def)
next
  case False
  obtain res w' where o: "r_order env (fileHandle (wm_receive s)) (r_clear env (w_world l)) = (res, w')" by fastforce
  then have "l' = l\<lparr>w_world := w'\<rparr>"
    using assms(3) False by (simp add: win_receiveTelegram_index_def orderNextMessage_def on_world_def Let_def)
  then show ?thesis using assms(1) [OF o] assms(2) assms(3) False
    by (auto simp: win_receiveTelegram_index_def orderNextMessage_def on_world_def Let_def nat_int)
qed

section \<open>Instances\<close>

record mc_pc =
  q_orders :: nat
  q_size :: nat
  q_if :: bytes
  q_sent :: "(bytes \<times> bytes) list"

definition pc_env :: "(unit, mc_pc) win_env \<Rightarrow> (unit, unit, mc_pc) wm_env" where
  "pc_env lp = \<lparr>wm_loop = lp, wm_process = (), wm_sock = idle_sock,
     wm_adapters = (\<lambda>w. [(2, Netadapter_init\<lparr>m_index := 2\<rparr>), (3, Netadapter_init\<lparr>m_index := 3\<rparr>)]),
     wm_option = (\<lambda>h opt w. (True, case opt of W_MULTICAST_IF x \<Rightarrow> w\<lparr>q_if := take 4 x\<rparr> | _ \<Rightarrow> w)),
     wm_bind = (\<lambda>h a w. (True, w)), wm_extension = (\<lambda>h w. (True, w)), wm_resolve = (\<lambda>f g p. Some (AF_INET, 0xEF000001)),
     wm_inet_pton = (\<lambda>a. Some 0xEF000001), wm_sendto = (\<lambda>h d g p w. (Inr (length d), w\<lparr>q_sent := q_sent w @ [(q_if w, d)]\<rparr>)),
     c_errno = (\<lambda>w. 0), r_size = q_size, r_clear = (\<lambda>w. w\<lparr>q_size := 0\<rparr>), r_buffer = (\<lambda>w. [1, 2, 3, 4]), r_cmsgs = (\<lambda>w. []),
     r_order = (\<lambda>h w. (Inl WSA_IO_PENDING, w\<lparr>q_orders := Suc (q_orders w)\<rparr>)), run_wm = (\<lambda>c st. (Returns 0, st))\<rparr>"

theorem win_interface_ignored_witness:
  "\<forall>lp s l. q_sent (w_world (snd (snd (win_mc_send (pc_env lp) (Some [7]) 1 1
      (s, l\<lparr>w_world := \<lparr>q_orders = 0, q_size = 0, q_if = [], q_sent = []\<rparr>\<rparr>))))) = [([0, 0, 0, 0], [7]), ([0, 0, 0, 0], [7])]"
proof (intro allI)
  fix lp :: "(unit, mc_pc) win_env" and s :: "unit win_mc" and l :: "(unit, mc_pc) win_loop"
  let ?st = "(s, l\<lparr>w_world := \<lparr>q_orders = 0, q_size = 0, q_if = [], q_sent = []\<rparr>\<rparr>)"
  have "reads_four_bytes (pc_env lp)" by (simp add: reads_four_bytes_def pc_env_def)
  from win_interface_ignored [OF this, of "[]" "Some [7]" 1 1 ?st "[]" 0 "[Netadapter_init, Netadapter_init]"]
  have "win_mc_send (pc_env lp) (Some [7]) 1 1 ?st = win_send_loop (pc_env lp) (Some [7]) 1 1 [Netadapter_init, Netadapter_init] 0 ?st"
    by (simp add: pc_env_def)
  then show "q_sent (w_world (snd (snd (win_mc_send (pc_env lp) (Some [7]) 1 1 ?st)))) = [([0, 0, 0, 0], [7]), ([0, 0, 0, 0], [7])]"
    by (simp add: win_sendOverInterfaceByIndex_def win_send_datagram_def pc_env_def on_world_def Let_def)
qed

theorem empty_datagram_ends_reception_witness:
  "\<forall>lp s l. q_orders (w_world (snd (snd (win_receiveTelegram_index (pc_env lp) 2 0
      (s, l\<lparr>w_world := \<lparr>q_orders = 1, q_size = 3, q_if = [], q_sent = []\<rparr>\<rparr>))))) = 2"
proof (intro allI)
  fix lp :: "(unit, mc_pc) win_env" and s :: "unit win_mc" and l :: "(unit, mc_pc) win_loop"
  let ?st = "(s, l\<lparr>w_world := \<lparr>q_orders = 1, q_size = 3, q_if = [], q_sent = []\<rparr>\<rparr>)"
  obtain r msg i ttl s' l' where t: "win_receiveTelegram_index (pc_env lp) 2 0 ?st = ((r, msg, i, ttl), s', l')"
    by (metis prod_cases6 surj_pair)
  have "\<And>h w res w'. r_order (pc_env lp) h w = (res, w') \<Longrightarrow> q_orders w' = Suc (q_orders w)"
    "\<And>w. q_orders (r_clear (pc_env lp) w) = q_orders w" by (auto simp: pc_env_def)
  from empty_datagram_ends_reception [of "pc_env lp" q_orders, OF this t]
  show "q_orders (w_world (snd (snd (win_receiveTelegram_index (pc_env lp) 2 0 ?st)))) = 2"
    using t by (simp add: pc_env_def)
qed

end
