(* ===== verification/Route_Table.thy ===== *)
theory Route_Table
  imports Netlink_Props
begin

text \<open>
  \<open>Netadapter::getIpv4DefaultGateway\<close> under Linux (\<^verbatim>\<open>lib/communication/linux/netadapter.cpp\<close>), which reads
  the table of routes from \<^verbatim>\<open>/proc/net/route\<close> with \<open>fscanf\<close>. The conversions of \<open>fscanf\<close> that the format
  of the code uses are written out on the text that is left of the file. The variables of a turn of the
  loop are not initialised; what they hold before is the parameter \<open>stack\<close>.
\<close>

section \<open>Scanning\<close>

text \<open>\<open>%63s\<close>: \<^term>\<open>None\<close> at the end of the file\<close>

definition scan_word :: "nat \<Rightarrow> string \<Rightarrow> (string \<times> string) option" where
  "scan_word w s =
     (let s = dropWhile isspace s in
      if s = [] then None
      else let t = takeWhile (\<lambda>c. \<not> isspace c) (take w s) in Some (t, drop (length t) s))"

text \<open>\<open>%8lx\<close>, \<open>%8X\<close> and \<open>%8d\<close>: a sign, for base 16 the prefix \<open>0x\<close>, and digits, of \<open>w\<close> characters at most\<close>

definition scan_num :: "nat \<Rightarrow> nat \<Rightarrow> string \<Rightarrow> int option \<times> string" where
  "scan_num b w s =
     (let s = dropWhile isspace s;
          neg = (s \<noteq> [] \<and> hd s = CHR ''-'');
          (w, t) = (if s \<noteq> [] \<and> (hd s = CHR ''-'' \<or> hd s = CHR ''+'') then (w - 1, tl s) else (w, s));
          (w, u) = (if b = 16 \<and> 2 \<le> w \<and> 2 \<le> length t \<and> hd t = CHR ''0'' \<and> (t ! 1 = CHR ''x'' \<or> t ! 1 = CHR ''X'')
                    then (w - 2, drop 2 t) else (w, t));
          ds = takeWhile (is_digit b) (take w u)
      in if ds = [] then (None, u)
         else (Some (if neg then - int (digits_value b ds) else int (digits_value b ds)), drop (length ds) u))"

text \<open>Conversions one after the other, up to the first that fails\<close>

fun scan_nums :: "(nat \<times> nat) list \<Rightarrow> string \<Rightarrow> int list \<times> string" where
  "scan_nums [] s = ([], s)"
| "scan_nums ((b, w) # fmt) s =
     (case scan_num b w s of
        (None, s) \<Rightarrow> ([], s)
      | (Some v, s) \<Rightarrow> (case scan_nums fmt s of (vs, s) \<Rightarrow> (v # vs, s)))"

section \<open>The code\<close>

record route_vars =
  v_destination :: u64
  v_gateway :: u64
  v_flags :: u32

definition ROUTE_GW :: u32 where "ROUTE_GW = 2"
definition ROUTE_UP :: u32 where "ROUTE_UP = 1"

definition route_format :: "(nat \<times> nat) list" where
  "route_format = [(16, 8), (16, 8), (16, 8), (10, 8), (10, 8), (10, 8), (16, 8), (10, 8), (10, 8), (10, 8)]"

text \<open>The call of \<open>fscanf\<close>: its result, the variables, and the rest of the file\<close>

definition scan_route :: "route_vars \<Rightarrow> string \<Rightarrow> int \<times> route_vars \<times> string" where
  "scan_route v s =
     (case scan_word 63 s of
        None \<Rightarrow> (-1, v, [])
      | Some (_, s) \<Rightarrow>
          (case scan_nums route_format s of (vs, s) \<Rightarrow>
           (1 + int (length vs),
            v\<lparr>v_destination := (if 0 < length vs then word_of_int (vs ! 0) else v_destination v),
              v_gateway := (if 1 < length vs then word_of_int (vs ! 1) else v_gateway v),
              v_flags := (if 2 < length vs then word_of_int (vs ! 2) else v_flags v)\<rparr>,
            if length vs = length route_format then dropWhile isspace s else s)))"

text \<open>Each call takes a character, so the loop ends.\<close>

lemma length_scan_num: "length (snd (scan_num b w s)) \<le> length s"
proof -
  have d: "length (dropWhile isspace s) \<le> length s" by (rule length_dropWhile_le)
  have "length (snd (scan_num b w s)) \<le> length (dropWhile isspace s)"
    by (simp add: scan_num_def Let_def split: prod.splits if_splits)
  with d show ?thesis by simp
qed

lemma length_scan_nums: "length (snd (scan_nums fmt s)) \<le> length s"
proof (induction fmt s rule: scan_nums.induct)
  case (2 b w fmt s)
  then show ?case using length_scan_num [of b w s] by (force split: prod.splits option.splits)
qed simp

lemma length_scan_word:
  assumes "scan_word w s = Some (t, r)" "0 < w"
  shows "length r < length s"
proof -
  define u where "u = dropWhile isspace s"
  have u: "u \<noteq> []" "t = takeWhile (\<lambda>c. \<not> isspace c) (take w u)" "r = drop (length t) u"
    using assms(1) by (auto simp: scan_word_def u_def Let_def split: if_splits)
  then have "\<not> isspace (hd u)" unfolding u_def by (metis hd_dropWhile)
  then have "0 < length t" using u(1,2) assms(2) by (cases u; cases w) auto
  moreover have "length u \<le> length s" unfolding u_def by (rule length_dropWhile_le)
  moreover have "0 < length u" using u(1) by simp
  ultimately show ?thesis unfolding u(3) length_drop by linarith
qed

lemma length_scan_route:
  assumes "scan_route v s = (result, v', r)" "0 \<le> result"
  shows "length r < length s"
proof -
  obtain t q where q: "scan_word 63 s = Some (t, q)"
    using assms by (auto simp: scan_route_def split: option.splits)
  obtain vs u where u: "scan_nums route_format q = (vs, u)" by fastforce
  have "length q < length s" "length u \<le> length q" "length (dropWhile isspace u) \<le> length u"
    using length_scan_word [OF q] length_scan_nums [of route_format q] u by (simp_all add: length_dropWhile_le)
  moreover have "r = u \<or> r = dropWhile isspace u" using assms(1) by (auto simp: scan_route_def q u split: if_splits)
  ultimately show ?thesis by auto
qed

function route_loop :: "(nat \<Rightarrow> route_vars) \<Rightarrow> nat \<Rightarrow> string \<Rightarrow> string" where
  "route_loop stack turn s =
     (case scan_route (stack turn) s of (result, v, s) \<Rightarrow>
      if result \<noteq> 11 \<and> result < 0 then []
      else if v_flags v AND ROUTE_GW \<noteq> 0 \<and> v_flags v AND ROUTE_UP \<noteq> 0 \<and> v_destination v = 0
        then inet_ntoa (le_bytes 4 (unat (ucast (v_gateway v) :: u32)))
        else route_loop stack (Suc turn) s)"
  by pat_completeness auto
termination
proof (relation "measure (\<lambda>(stack, turn, s). length s)", goal_cases)
  case (2 stack turn s result vr v r)
  then have "scan_route (stack turn) s = (result, v, r)" by simp
  then show ?case using 2(3) by (auto simp: length_scan_route)
qed simp

declare route_loop.simps [simp del]

text \<open>\<open>%*[^\n]\n\<close>, which does not match at an empty line\<close>

definition skip_line :: "string \<Rightarrow> string" where
  "skip_line s = (if hd s = CHR 0x0A then s else dropWhile isspace (dropWhile (\<lambda>c. c \<noteq> CHR 0x0A) s))"

definition getIpv4DefaultGateway :: "(nat \<Rightarrow> route_vars) \<Rightarrow> string option \<Rightarrow> string" where
  "getIpv4DefaultGateway stack file =
     (case file of None \<Rightarrow> [] | Some s \<Rightarrow> if s = [] then [] else route_loop stack 0 (skip_line s))"

section \<open>Reading what the kernel writes\<close>

fun uhex :: "nat \<Rightarrow> nat \<Rightarrow> string" where
  "uhex 0 n = []"
| "uhex (Suc k) n = uhex k (n div 16) @ [upper_hex (n mod 16)]"

text \<open>A line of the table: the three numbers the code looks at, and the other ones\<close>

record route =
  r_name :: string
  r_destination :: u32
  r_gateway :: u32
  r_flags :: u16
  r_mask :: u32
  r_counts :: "nat \<times> nat \<times> nat"
  r_limits :: "nat \<times> nat \<times> nat"

text \<open>The number that an address in memory, the bytes of which are in network order, is printed as\<close>

definition kernel_number :: "u32 \<Rightarrow> nat" where
  "kernel_number a = le (rev (le_bytes 4 (unat a)))"

text \<open>The fields: the conversion of the format, the number, and how the kernel prints it\<close>

definition route_fields :: "route \<Rightarrow> ((nat \<times> nat) \<times> nat \<times> string) list" where
  "route_fields r = (case (r_counts r, r_limits r) of ((ref, use, metric), (mtu, window, irtt)) \<Rightarrow>
     let hex = \<lambda>k n. ((16, 8), n, uhex k n); dec = \<lambda>n. ((10, 8), n, to_string n) in
     [hex 8 (kernel_number (r_destination r)), hex 8 (kernel_number (r_gateway r)), hex 4 (unat (r_flags r)),
      dec ref, dec use, dec metric, hex 8 (kernel_number (r_mask r)), dec mtu, dec window, dec irtt])"

definition tabbed :: "string list \<Rightarrow> string" where
  "tabbed fs = concat (map (\<lambda>f. CHR 0x09 # f) fs)"

text \<open>The line of a route, filled up with \<open>n\<close> blanks\<close>

definition route_line :: "nat \<times> route \<Rightarrow> string" where
  "route_line = (\<lambda>(n, r). r_name r @ tabbed (map (\<lambda>(_, _, f). f) (route_fields r)) @ replicate n (CHR '' '') @ [CHR 0x0A])"

definition route_ok :: "route \<Rightarrow> bool" where
  "route_ok r \<longleftrightarrow> r_name r \<noteq> [] \<and> length (r_name r) \<le> 63 \<and> (\<forall>c\<in>set (r_name r). \<not> isspace c) \<and>
     (case (r_counts r, r_limits r) of ((ref, use, metric), (mtu, window, irtt)) \<Rightarrow>
        \<forall>n\<in>{ref, use, metric, mtu, window, irtt}. length (to_string n) \<le> 8)"

definition is_default :: "route \<Rightarrow> bool" where
  "is_default r \<longleftrightarrow> r_flags r AND 3 = 3 \<and> r_destination r = 0"

lemma digit_val_upper: "d < 16 \<Longrightarrow> digit_val (upper_hex d) = Some d"
  by (auto simp: digit_val_def upper_hex_def Let_def)

lemma length_uhex [simp]: "length (uhex k n) = k"
  by (induction k arbitrary: n) auto

lemma uhex_digits: "c \<in> set (uhex k n) \<Longrightarrow> is_digit 16 c"
  by (induction k arbitrary: n) (auto simp: is_digit_def digit_val_upper)

lemma uhex_value: "digits_value 16 (uhex k n) = n mod 16 ^ k"
proof (induction k arbitrary: n)
  case (Suc k)
  then show ?case by (simp add: digit_val_upper mod_mult2_eq)
qed simp

text \<open>A field that a conversion reads to its end\<close>

definition field_of :: "nat \<times> nat \<Rightarrow> nat \<Rightarrow> string \<Rightarrow> bool" where
  "field_of fw v f \<longleftrightarrow> (case fw of (b, w) \<Rightarrow> (b = 10 \<or> b = 16) \<and> f \<noteq> [] \<and> length f \<le> w \<and> (\<forall>c\<in>set f. is_digit b c) \<and> digits_value b f = v)"

definition stops :: "string \<Rightarrow> bool" where
  "stops r \<longleftrightarrow> (r \<noteq> [] \<longrightarrow> isspace (hd r))"

lemma takeWhile_field:
  assumes "\<forall>c\<in>set f. P c" "length f \<le> w" "r = [] \<or> \<not> P (hd r)"
  shows "takeWhile P (take w (f @ r)) = f"
  using assms by (cases r; cases "w - length f") (auto simp: takeWhile_append)

lemma scan_num_field:
  assumes "field_of (b, w) v f" "stops r"
  shows "scan_num b w (CHR 0x09 # f @ r) = (Some (int v), r)"
proof -
  have f: "b = 10 \<or> b = 16" "f \<noteq> []" "length f \<le> w" "\<forall>c\<in>set f. is_digit b c" "digits_value b f = v"
    using assms(1) by (auto simp: field_of_def)
  obtain c fs where c: "f = c # fs" using f(2) by (cases f) auto
  have hd: "is_digit b c" using f(4) c by simp
  have sp: "isspace (CHR 0x09)" by (simp add: isspace_def)
  have drop: "dropWhile isspace (CHR 0x09 # f @ r) = f @ r"
    using is_digit_not_special [OF hd] by (simp add: c sp)
  have no_x: "\<not> ((f @ r) ! 1 = CHR ''x'' \<or> (f @ r) ! 1 = CHR ''X'')" if "2 \<le> length (f @ r)"
  proof (cases fs)
    case Nil
    then have "(f @ r) ! 1 = hd r" "r \<noteq> []" using that c by (cases r; auto)+
    then show ?thesis using assms(2) by (auto simp: stops_def isspace_def)
  next
    case (Cons d ds)
    then have "(f @ r) ! 1 = d" "is_digit b d" using f(4) c by auto
    then show ?thesis using f(1) is_digit_10_not_x is_digit_16_not_x by auto
  qed
  have "r = [] \<or> \<not> is_digit b (hd r)" using assms(2) is_digit_not_special by (auto simp: stops_def)
  then have "takeWhile (is_digit b) (take w (f @ r)) = f" using f by (intro takeWhile_field) auto
  then show ?thesis
    using is_digit_not_special [OF hd] no_x f(2,5) unfolding scan_num_def drop
    by (auto simp: c Let_def)
qed


text \<open>A list of fields, each with its conversion and its value\<close>

lemma stops_tabbed: "stops r \<Longrightarrow> stops (tabbed fs @ r)"
  by (cases fs) (auto simp: tabbed_def stops_def isspace_def)

lemma scan_nums_fields:
  assumes "\<forall>(fw, v, f)\<in>set xs. field_of fw v f" "stops r"
  shows "scan_nums (map fst xs) (tabbed (map (\<lambda>(_, _, f). f) xs) @ r) = (map (\<lambda>(_, v, _). int v) xs, r)"
  using assms(1)
proof (induction xs)
  case (Cons x xs)
  obtain b w v f where x: "x = ((b, w), v, f)" by (metis prod_cases4 prod.collapse)
  have "scan_num b w (CHR 0x09 # f @ tabbed (map (\<lambda>(_, _, f). f) xs) @ r) =
      (Some (int v), tabbed (map (\<lambda>(_, _, f). f) xs) @ r)"
    using Cons.prems by (intro scan_num_field stops_tabbed assms(2)) (auto simp: x)
  then show ?case using Cons by (simp add: x tabbed_def)
qed (simp add: tabbed_def)

lemma kernel_number_bound: "kernel_number a < 4294967296"
  using le_bound [of "rev (le_bytes 4 (unat a))"] by (simp add: kernel_number_def length_le_bytes del: le_bytes.simps)

lemma field_uhex: "0 < k \<Longrightarrow> k \<le> 8 \<Longrightarrow> n < 16 ^ k \<Longrightarrow> field_of (16, 8) n (uhex k n)"
  using uhex_digits length_uhex [of k n] by (auto simp: field_of_def uhex_value simp del: length_uhex)

lemma field_dec: "length (to_string n) \<le> 8 \<Longrightarrow> field_of (10, 8) n (to_string n)"
  using radix_digits [of 10] by (auto simp: field_of_def std_string_simps)

lemma route_fields_ok:
  assumes "route_ok r"
  shows "\<forall>(fw, v, f)\<in>set (route_fields r). field_of fw v f"
proof -
  obtain ref use metric mtu window irtt where c: "r_counts r = (ref, use, metric)" "r_limits r = (mtu, window, irtt)"
    by (metis prod_cases3)
  have "field_of (16, 8) (kernel_number a) (uhex 8 (kernel_number a))" for a
    using kernel_number_bound by (intro field_uhex) auto
  moreover have "field_of (16, 8) (unat (r_flags r)) (uhex 4 (unat (r_flags r)))"
    using unsigned_less [of "r_flags r"] by (intro field_uhex) auto
  ultimately show ?thesis using assms by (auto simp: route_fields_def route_ok_def c Let_def intro: field_dec)
qed

lemma scan_word_name:
  assumes "s \<noteq> []" "length s \<le> w" "\<forall>c\<in>set s. \<not> isspace c" "stops r"
  shows "scan_word w (s @ r) = Some (s, r)"
proof -
  have "dropWhile isspace (s @ r) = s @ r" using assms(1,3) by (cases s) auto
  moreover have "takeWhile (\<lambda>c. \<not> isspace c) (take w (s @ r)) = s"
    using assms by (intro takeWhile_field) (auto simp: stops_def)
  ultimately show ?thesis using assms(1) by (simp add: scan_word_def Let_def)
qed

lemma scan_route_line:
  assumes "route_ok r"
  shows "scan_route v (route_line (n, r) @ rest) =
    (11, \<lparr>v_destination = of_nat (kernel_number (r_destination r)), v_gateway = of_nat (kernel_number (r_gateway r)),
      v_flags = ucast (r_flags r)\<rparr>, dropWhile isspace rest)"
proof -
  let ?fs = "map (\<lambda>(_, _, f). f) (route_fields r)" and ?q = "replicate n (CHR '' '') @ CHR 0x0A # rest"
  obtain ref use metric mtu window irtt where c: "r_counts r = (ref, use, metric)" "r_limits r = (mtu, window, irtt)"
    by (metis prod_cases3)
  have stop: "stops ?q" by (cases n) (auto simp: stops_def isspace_def)
  have w: "scan_word 63 (route_line (n, r) @ rest) = Some (r_name r, tabbed ?fs @ ?q)"
    using assms scan_word_name [of "r_name r" 63 "tabbed ?fs @ ?q", OF _ _ _ stops_tabbed [OF stop]]
    by (simp add: route_ok_def route_line_def)
  have fmt: "map fst (route_fields r) = route_format" by (simp add: route_fields_def route_format_def c Let_def)
  have ns: "scan_nums route_format (tabbed ?fs @ ?q) = (map (\<lambda>(_, v, _). int v) (route_fields r), ?q)"
    using scan_nums_fields [OF route_fields_ok [OF assms] stop] by (simp add: fmt)
  have "dropWhile isspace ?q = dropWhile isspace rest" by (induction n) (auto simp: isspace_def)
  moreover have "length route_format = 10" by (simp add: route_format_def)
  moreover have "length (route_fields r) = 10" "route_fields r \<noteq> []" by (simp_all add: route_fields_def c Let_def)
  ultimately have "scan_route v (route_line (n, r) @ rest) =
      (11, v\<lparr>v_destination := word_of_int (map (\<lambda>(_, v, _). int v) (route_fields r) ! 0),
        v_gateway := word_of_int (map (\<lambda>(_, v, _). int v) (route_fields r) ! 1),
        v_flags := word_of_int (map (\<lambda>(_, v, _). int v) (route_fields r) ! 2)\<rparr>, dropWhile isspace rest)"
    by (simp add: scan_route_def w ns)
  then show ?thesis by (simp add: route_fields_def c Let_def)
qed

lemma le_bytes_le: "le_bytes (length bs) (le bs) = bs"
proof (induction bs)
  case (Cons b bs)
  have "unat b < 256" using unsigned_less [of b] by simp
  with Cons show ?case by simp
qed simp

lemma inet_ntoa_kernel: "inet_ntoa (le_bytes 4 (kernel_number a)) = dotted a"
proof -
  have "le_bytes 4 (kernel_number a) = rev (le_bytes 4 (unat a))"
    using le_bytes_le [of "rev (le_bytes 4 (unat a))"] by (simp add: kernel_number_def length_le_bytes del: le_bytes.simps)
  then show ?thesis by (simp add: inet_ntoa_def le_le_bytes del: le_bytes.simps)
qed

lemma small64: "n < 4294967296 \<Longrightarrow> unat (of_nat n :: u64) = n"
  by (simp add: unat_of_nat take_bit_nat_eq_self)

lemma k0: "kernel_number 0 = 0"
  by code_simp

lemma kernel_number_0: "(of_nat (kernel_number a) :: u64) = 0 \<longleftrightarrow> a = 0"
proof
  assume "(of_nat (kernel_number a) :: u64) = 0"
  then have "kernel_number a = 0" using kernel_number_bound [of a]
    by (metis (no_types) small64 unsigned_0)
  then have "dotted a = dotted 0" using inet_ntoa_kernel [of a] inet_ntoa_kernel [of 0] by (simp add: k0)
  then show "a = 0" by (rule dotted_inject)
qed (simp add: k0)

lemma default_flags: "((ucast (f :: u16) :: u32) AND ROUTE_GW \<noteq> 0 \<and> (ucast f :: u32) AND ROUTE_UP \<noteq> 0) \<longleftrightarrow> f AND 3 = 3"
proof -
  have "(x :: u32) AND 2 \<noteq> 0 \<longleftrightarrow> bit x 1" "(x :: u32) AND 1 \<noteq> 0 \<longleftrightarrow> bit x 0" for x
    using and_exp_eq_0_iff_not_bit [of x 1] and_exp_eq_0_iff_not_bit [of x 0] by simp_all
  moreover have b3: "bit (3 :: u16) n \<longleftrightarrow> n = 0 \<or> n = 1" for n
  proof -
    have "(3 :: u16) = mask 2" by (simp add: mask_eq_exp_minus_1)
    then have "bit (3 :: u16) n \<longleftrightarrow> n < min 16 2" by (simp only: bit_mask_iff) auto
    then show ?thesis by auto
  qed
  have "f AND 3 = 3 \<longleftrightarrow> bit f 0 \<and> bit f 1"
  proof
    assume "f AND 3 = 3"
    then show "bit f 0 \<and> bit f 1" by (metis b3 bit_and_iff)
  next
    assume "bit f 0 \<and> bit f 1"
    then show "f AND 3 = 3" by (intro bit_word_eqI) (auto simp only: bit_and_iff b3)
  qed
  ultimately show ?thesis by (auto simp: ROUTE_GW_def ROUTE_UP_def bit_ucast_iff)
qed

lemma route_line_start: "route_ok r \<Longrightarrow> dropWhile isspace (route_line (n, r) @ s) = route_line (n, r) @ s"
  by (cases "r_name r") (auto simp: route_ok_def route_line_def)

lemma lines_start: "\<forall>p\<in>set rs. route_ok (snd p) \<Longrightarrow> dropWhile isspace (concat (map route_line rs)) = concat (map route_line rs)"
  by (cases rs) (auto simp: route_line_start)

lemma low_kernel_number: "unat (ucast (of_nat (kernel_number a) :: u64) :: u32) = kernel_number a"
  using kernel_number_bound [of a] by (simp add: unsigned_ucast_eq small64 take_bit_nat_eq_self)

lemma route_loop_lines:
  assumes "\<forall>p\<in>set rs. route_ok (snd p)"
  shows "route_loop stack turn (concat (map route_line rs)) =
    (case find (\<lambda>p. is_default (snd p)) rs of None \<Rightarrow> [] | Some (_, r) \<Rightarrow> dotted (r_gateway r))"
  using assms
proof (induction rs arbitrary: turn)
  case Nil
  show ?case by (subst route_loop.simps) (simp add: scan_route_def scan_word_def)
next
  case (Cons p rs)
  obtain n r where p: "p = (n, r)" by fastforce
  have "scan_route (stack turn) (concat (map route_line (p # rs))) =
    (11, \<lparr>v_destination = of_nat (kernel_number (r_destination r)), v_gateway = of_nat (kernel_number (r_gateway r)),
      v_flags = ucast (r_flags r)\<rparr>, concat (map route_line rs))"
    using Cons.prems scan_route_line [of r "stack turn" n "concat (map route_line rs)"] by (simp add: p lines_start)
  with Cons show ?case
    by (subst route_loop.simps) (simp add: p default_flags kernel_number_0 is_default_def low_kernel_number inet_ntoa_kernel
        flip: conj_assoc del: le_bytes.simps)
qed

lemma skip_header:
  assumes "h \<noteq> []" "CHR 0x0A \<notin> set h"
  shows "skip_line (h @ CHR 0x0A # s) = dropWhile isspace s"
proof -
  have "dropWhile (\<lambda>c. c \<noteq> CHR 0x0A) (h @ CHR 0x0A # s) = CHR 0x0A # s" using assms(2) by (induction h) auto
  moreover have "isspace (CHR 0x0A)" by (simp add: isspace_def)
  ultimately show ?thesis using assms by (cases h) (auto simp: skip_line_def)
qed

section \<open>Properties\<close>

text \<open>
  C30: The result is the address of the gateway of the first route in the table that is up, goes
  through a gateway and has the destination 0.0.0.0. Without such a route, and without the table, it is
  empty. What the stack holds does not matter.
\<close>

theorem default_gateway_first:
  assumes "h \<noteq> []" "CHR 0x0A \<notin> set h" "\<forall>p\<in>set rs. route_ok (snd p)"
  shows "getIpv4DefaultGateway stack (Some (h @ CHR 0x0A # concat (map route_line rs))) =
    (case find (\<lambda>p. is_default (snd p)) rs of None \<Rightarrow> [] | Some (_, r) \<Rightarrow> dotted (r_gateway r))"
  using assms by (simp add: getIpv4DefaultGateway_def skip_header lines_start route_loop_lines)

text \<open>
  When a line does not hold the numbers, the loop looks at variables nobody has written: with a table that
  has one word after its first line, what the stack holds decides whether there is a default
  gateway, and its address.
\<close>

theorem gateway_from_stack:
  assumes "h \<noteq> []" "CHR 0x0A \<notin> set h" "s \<noteq> []" "length s \<le> 63" "\<forall>c\<in>set s. \<not> isspace c"
  shows "getIpv4DefaultGateway stack (Some (h @ CHR 0x0A # s @ [CHR 0x0A])) =
    (if v_flags (stack 0) AND ROUTE_GW \<noteq> 0 \<and> v_flags (stack 0) AND ROUTE_UP \<noteq> 0 \<and> v_destination (stack 0) = 0
     then inet_ntoa (le_bytes 4 (unat (ucast (v_gateway (stack 0)) :: u32))) else [])"
proof -
  have "dropWhile isspace (s @ [CHR 0x0A]) = s @ [CHR 0x0A]" using assms(3,5) by (cases s) auto
  moreover have "scan_word 63 (s @ [CHR 0x0A]) = Some (s, [CHR 0x0A])"
    using assms by (intro scan_word_name) (auto simp: stops_def isspace_def)
  moreover have "scan_nums route_format [CHR 0x0A] = ([], [])"
    by (simp add: route_format_def scan_num_def isspace_def)
  ultimately have "scan_route (stack 0) (s @ [CHR 0x0A]) = (1, stack 0, [])"
    by (simp add: scan_route_def route_format_def)
  moreover have "route_loop stack (Suc 0) [] = []"
    by (subst route_loop.simps) (simp add: scan_route_def scan_word_def)
  ultimately show ?thesis
    using assms(1,2) \<open>dropWhile isspace (s @ _) = _\<close>
    by (simp add: getIpv4DefaultGateway_def skip_header route_loop.simps [of stack 0] del: le_bytes.simps)
qed

text \<open>Two routes, one of them to the world\<close>

definition two_routes :: "(nat \<times> route) list" where
  "two_routes = (let r = \<lparr>r_name = ''eth0'', r_destination = 0xC0A80000, r_gateway = 0, r_flags = 1, r_mask = 0xFFFF0000,
       r_counts = (0, 0, 100), r_limits = (0, 0, 0)\<rparr>
     in [(3, r), (0, r\<lparr>r_destination := 0, r_gateway := 0xC0A80001, r_flags := 3, r_mask := 0\<rparr>)])"

theorem default_gateway_first_witness:
  "getIpv4DefaultGateway (\<lambda>_. \<lparr>v_destination = 7, v_gateway = 7, v_flags = 7\<rparr>)
     (Some (''Iface Destination'' @ CHR 0x0A # concat (map route_line two_routes))) = ''192.168.0.1''"
proof -
  have "find (\<lambda>p. is_default (snd p)) two_routes = Some (two_routes ! 1)" by code_simp
  moreover have "dotted (r_gateway (snd (two_routes ! 1))) = ''192.168.0.1''" by code_simp
  moreover have "\<forall>p\<in>set two_routes. route_ok (snd p)" by code_simp
  moreover have "CHR 0x0A \<notin> set ''Iface Destination''" by code_simp
  ultimately show ?thesis by (subst default_gateway_first) (simp_all add: case_prod_unfold)
qed

definition old_stack :: "nat \<Rightarrow> route_vars" where
  "old_stack n = \<lparr>v_destination = 0, v_gateway = of_nat (kernel_number 0xC0A80001), v_flags = 3\<rparr>"

theorem gateway_from_stack_witness:
  "getIpv4DefaultGateway old_stack (Some (''Iface'' @ CHR 0x0A # ''eth0'' @ [CHR 0x0A])) = ''192.168.0.1''"
proof (rule trans [OF gateway_from_stack])
  have s0: "v_flags (old_stack 0) = 3" "v_destination (old_stack 0) = 0" "v_gateway (old_stack 0) = of_nat (kernel_number 0xC0A80001)"
    by (simp_all only: old_stack_def route_vars.simps)
  have "dotted 0xC0A80001 = ''192.168.0.1''" by code_simp
  then have g: "inet_ntoa (le_bytes 4 (unat (ucast (of_nat (kernel_number 0xC0A80001) :: u64) :: u32))) = ''192.168.0.1''"
    by (simp only: low_kernel_number inet_ntoa_kernel)
  have b: "(3 :: u32) AND ROUTE_GW \<noteq> 0" "(3 :: u32) AND ROUTE_UP \<noteq> 0" by code_simp+
  show "CHR 0x0A \<notin> set ''Iface''" "\<forall>c\<in>set ''eth0''. \<not> isspace c" by code_simp+
  show "(if v_flags (old_stack 0) AND ROUTE_GW \<noteq> 0 \<and> v_flags (old_stack 0) AND ROUTE_UP \<noteq> 0 \<and> v_destination (old_stack 0) = 0
     then inet_ntoa (le_bytes 4 (unat (ucast (v_gateway (old_stack 0)) :: u32))) else []) = ''192.168.0.1''"
    using g b by (simp only: s0 refl not_False_eq_True if_True simp_thms)
qed simp_all

end
