(* ===== verification/Wmi.thy ===== *)
theory Wmi
  imports Netadapter_List
begin

text \<open>
  \<open>hbk::communication::WMI\<close> (\<^verbatim>\<open>lib/communication/windows/wmi.cpp\<close>), which asks the Windows Management
  Instrumentation, a COM service, about network adapters and configures them. The calls of COM are the constructors of
  a datatype, and COM itself is a parameter: a function that gives, for each call, the result code, a
  count, and the object the call makes, 0 for none. Interface pointers, safe arrays, variants
  and strings of COM are such objects. What they are for is to follow which of them are given back.
\<close>

section \<open>COM\<close>

type_synonym obj = nat
type_synonym hresult = int

datatype com_call =
    CoInitializeEx | CoInitializeSecurity | CoCreateInstance | ConnectServer obj string | CoSetProxyBlanket obj
  | ExecQuery obj string | Next obj | Get obj string | ExecMethod obj obj string obj
  | GetObject obj string | GetMethod obj string | SpawnInstance obj
  | SafeArrayCreateVector | SysAllocString string | SafeArrayPutElement obj obj | Put obj string obj
  | Release obj | VariantClear obj | SysFreeString obj | SafeArrayDestroy obj | CoUninitialize

type_synonym 'w com = "com_call \<Rightarrow> 'w \<Rightarrow> (hresult \<times> nat \<times> obj) \<times> 'w"

definition WBEM_S_NO_ERROR :: hresult where "WBEM_S_NO_ERROR = 0"

abbreviation FAILED :: "hresult \<Rightarrow> bool" where "FAILED hres \<equiv> hres < 0"

abbreviation call :: "'w com \<Rightarrow> com_call \<Rightarrow> 'w \<Rightarrow> 'w" where "call com c w \<equiv> snd (com c w)"

section \<open>The class\<close>

text \<open>The static members\<close>

record wmi =
  m_pLoc :: obj
  m_pSvc :: obj

text \<open>\<^verbatim>\<open>ROOT\CIMV2\<close>\<close>

definition cimv2 :: string where "cimv2 = ''ROOT'' @ [CHR 0x5C] @ ''CIMV2''"

definition initWMI :: "'w com \<Rightarrow> wmi \<times> 'w \<Rightarrow> int \<times> wmi \<times> 'w" where
  "initWMI com = (\<lambda>(s, w).
     if m_pLoc s \<noteq> 0 \<and> m_pSvc s \<noteq> 0 then (1, s, w)
     else case com CoInitializeEx w of ((hres, _), w) \<Rightarrow>
     if FAILED hres then (-1, s, w)
     else case com CoInitializeSecurity w of ((hres, _), w) \<Rightarrow>
     if FAILED hres then (-1, s, w)
     else case com CoCreateInstance w of ((hres, _, loc), w) \<Rightarrow>
     let s = s\<lparr>m_pLoc := loc\<rparr> in
     if FAILED hres then (-1, s, w)
     else case com (ConnectServer (m_pLoc s) cimv2) w of ((hres, _, svc), w) \<Rightarrow>
     let s = s\<lparr>m_pSvc := svc\<rparr> in
     if FAILED hres then (-1, s\<lparr>m_pLoc := 0\<rparr>, call com (Release (m_pLoc s)) w)
     else case com (CoSetProxyBlanket (m_pSvc s)) w of ((hres, _), w) \<Rightarrow>
     if FAILED hres then
       (-1, s\<lparr>m_pSvc := 0, m_pLoc := 0\<rparr>, call com (Release (m_pLoc s)) (call com (Release (m_pSvc s)) w))
     else (0, s, w))"

definition uninitWMI :: "'w com \<Rightarrow> wmi \<times> 'w \<Rightarrow> wmi \<times> 'w" where
  "uninitWMI com = (\<lambda>(s, w).
     let (s, w) = (if m_pSvc s \<noteq> 0 then (s\<lparr>m_pSvc := 0\<rparr>, call com (Release (m_pSvc s)) w) else (s, w));
         (s, w) = (if m_pLoc s \<noteq> 0 then (s\<lparr>m_pLoc := 0\<rparr>, call com (Release (m_pLoc s)) w) else (s, w))
     in (s, call com CoUninitialize w))"

text \<open>The first object that a query finds: the three queries of the class are processed in the same way.\<close>

definition first_row :: "'w com \<Rightarrow> obj \<Rightarrow> string \<Rightarrow> 'w \<Rightarrow> obj option \<times> 'w" where
  "first_row com svc query w =
     (case com (ExecQuery svc query) w of ((hres, _, pEnumerator), w) \<Rightarrow>
      if FAILED hres then (None, w)
      else case com (Next pEnumerator) w of ((hres, ret, pWMIAdapter), w) \<Rightarrow>
      let w = call com (Release pEnumerator) w in
      if ret = 0 \<or> FAILED hres then (None, w) else (Some pWMIAdapter, w))"

definition firewire_query :: "Netadapter \<Rightarrow> string" where
  "firewire_query adapter = ''SELECT ProductName FROM Win32_NetworkAdapter WHERE ProductName='' @
     [CHR 0x27] @ ''HBM IEEE1394 IP Adapter'' @ [CHR 0x27] @ '' AND InterfaceIndex='' @ to_string (unat (m_index adapter))"

definition configuration_query :: "Netadapter \<Rightarrow> string" where
  "configuration_query adapter =
     ''SELECT * FROM Win32_NetworkAdapterConfiguration WHERE InterfaceIndex='' @ to_string (unat (m_index adapter))"

definition wmi_isFirewireAdapter :: "'w com \<Rightarrow> Netadapter \<Rightarrow> wmi \<Rightarrow> 'w \<Rightarrow> bool \<times> 'w" where
  "wmi_isFirewireAdapter com adapter s w =
     (if m_pLoc s = 0 \<or> m_pSvc s = 0 then (False, w)
      else case first_row com (m_pSvc s) (firewire_query adapter) w of (row, w) \<Rightarrow>
      (case row of None \<Rightarrow> (False, w) | Some pWMIAdapter \<Rightarrow> (True, call com (Release pWMIAdapter) w)))"

text \<open>The path of the object, which is given back in either case\<close>

definition row_path :: "'w com \<Rightarrow> obj \<Rightarrow> 'w \<Rightarrow> obj option \<times> 'w" where
  "row_path com pWMIAdapter w =
     (case com (Get pWMIAdapter ''__PATH'') w of ((hres, _, v), w) \<Rightarrow>
      let w = call com (Release pWMIAdapter) w in
      if FAILED hres then (None, w) else (Some v, w))"

text \<open>Calling a method of the object with the path \<open>v\<close>, and giving back \<open>v\<close> and what the method returns\<close>

definition run_method :: "'w com \<Rightarrow> obj \<Rightarrow> obj \<Rightarrow> string \<Rightarrow> obj \<Rightarrow> 'w \<Rightarrow> hresult \<times> 'w" where
  "run_method com svc v name params w =
     (case com (ExecMethod svc v name params) w of ((hres, _, pOutInst), w) \<Rightarrow>
      let w = call com (VariantClear v) w
      in (hres, if pOutInst \<noteq> 0 then call com (Release pOutInst) w else w))"

definition enableDHCP :: "'w com \<Rightarrow> Netadapter \<Rightarrow> wmi \<Rightarrow> 'w \<Rightarrow> int \<times> 'w" where
  "enableDHCP com adapter s w =
     (if m_pLoc s = 0 \<or> m_pSvc s = 0 then (-1, w)
      else case first_row com (m_pSvc s) (configuration_query adapter) w of (row, w) \<Rightarrow>
      (case row of None \<Rightarrow> (-1, w) | Some pWMIAdapter \<Rightarrow>
      case row_path com pWMIAdapter w of (path, w) \<Rightarrow>
      (case path of None \<Rightarrow> (-1, w) | Some v \<Rightarrow>
      case run_method com (m_pSvc s) v ''EnableDHCP'' 0 w of (hres, w) \<Rightarrow>
      if hres \<noteq> WBEM_S_NO_ERROR then (-1, w) else (0, w))))"

section \<open>A manual address\<close>

text \<open>
  The address or netmask as wide characters, in a buffer for 16 of them. \<^term>\<open>None\<close> when the characters
  and the end do not fit: then the code reads or writes behind the buffer.
\<close>

definition wide :: "string \<Rightarrow> string option" where
  "wide s = (let t = c_str s in if length t < 16 then Some t else None)"

text \<open>An object for the parameters of the method \<open>EnableStatic\<close>\<close>

definition static_params :: "'w com \<Rightarrow> obj \<Rightarrow> 'w \<Rightarrow> obj option \<times> 'w" where
  "static_params com svc w =
     (case com (GetObject svc ''Win32_NetworkAdapterConfiguration'') w of ((hres, _, pClass), w) \<Rightarrow>
      if hres \<noteq> WBEM_S_NO_ERROR then (None, w)
      else case com (GetMethod pClass ''EnableStatic'') w of ((hres, _, pParamsIn), w) \<Rightarrow>
      let w = call com (Release pClass) w in
      if hres \<noteq> WBEM_S_NO_ERROR then (None, w)
      else case com (SpawnInstance pParamsIn) w of ((hres, _, pInInst), w) \<Rightarrow>
      let w = call com (Release pParamsIn) w in
      if hres \<noteq> WBEM_S_NO_ERROR then (None, w) else (Some pInInst, w))"

text \<open>
  A safe array with one string: the array, the string that was copied into it, and whether that worked.
  \<^term>\<open>None\<close> is the access behind the buffer.
\<close>

definition string_array :: "'w com \<Rightarrow> string \<Rightarrow> 'w \<Rightarrow> ((obj \<times> obj \<times> bool) \<times> 'w) option" where
  "string_array com s w =
     (case com SafeArrayCreateVector w of ((_, _, list), w) \<Rightarrow>
      (case wide s of None \<Rightarrow> None | Some sztmp \<Rightarrow>
      case com (SysAllocString sztmp) w of ((_, _, tmp), w) \<Rightarrow>
      case com (SafeArrayPutElement list tmp) w of ((hres, _), w) \<Rightarrow> Some ((list, tmp, \<not> FAILED hres), w)))"

text \<open>The two arrays, or no arrays after an error, with everything given back\<close>

definition address_arrays :: "'w com \<Rightarrow> obj \<Rightarrow> Ipv4Address \<Rightarrow> 'w \<Rightarrow> ((obj \<times> obj) option \<times> 'w) option" where
  "address_arrays com pInInst manualConfig w =
     (case string_array com (address manualConfig) w of None \<Rightarrow> None | Some ((ip_list, tmp, ok), w) \<Rightarrow>
      let w = call com (SysFreeString tmp) w in
      if \<not> ok then Some (None, call com (SafeArrayDestroy ip_list) (call com (Release pInInst) w))
      else (case string_array com (netmask manualConfig) w of None \<Rightarrow> None | Some ((netmask_list, tmp, ok), w) \<Rightarrow>
      let w = call com (SysFreeString tmp) w in
      if \<not> ok then Some (None, call com (SafeArrayDestroy netmask_list)
        (call com (SafeArrayDestroy ip_list) (call com (Release pInInst) w)))
      else Some (Some (ip_list, netmask_list), w)))"

text \<open>Storing them in the parameters. After an error the function goes on.\<close>

definition put_arrays :: "'w com \<Rightarrow> obj \<Rightarrow> obj \<Rightarrow> obj \<Rightarrow> 'w \<Rightarrow> 'w" where
  "put_arrays com pInInst ip_list netmask_list w =
     (case com (Put pInInst ''IPAddress'' ip_list) w of ((hres, _), w) \<Rightarrow>
      case (if hres \<noteq> WBEM_S_NO_ERROR then (True, w)
            else case com (Put pInInst ''SubNetMask'' netmask_list) w of ((hres, _), w) \<Rightarrow> (hres \<noteq> WBEM_S_NO_ERROR, w)) of (bad, w) \<Rightarrow>
      if bad then call com (SafeArrayDestroy netmask_list) (call com (SafeArrayDestroy ip_list) (call com (Release pInInst) w))
      else w)"

text \<open>The rest, from the query for the adapter on\<close>

definition enable_static :: "'w com \<Rightarrow> Netadapter \<Rightarrow> obj \<Rightarrow> obj \<Rightarrow> obj \<Rightarrow> obj \<Rightarrow> 'w \<Rightarrow> int \<times> 'w" where
  "enable_static com adapter svc pInInst ip_list netmask_list w =
     (case first_row com svc (configuration_query adapter) w of (row, w) \<Rightarrow>
      (case row of None \<Rightarrow> (-1, call com (Release pInInst) w) | Some pWMIAdapter \<Rightarrow>
      case row_path com pWMIAdapter w of (path, w) \<Rightarrow>
      (case path of None \<Rightarrow> (-1, call com (Release pInInst) w) | Some v \<Rightarrow>
      case run_method com svc v ''EnableStatic'' pInInst w of (hres, w) \<Rightarrow>
      let w = call com (SafeArrayDestroy netmask_list) (call com (SafeArrayDestroy ip_list) (call com (Release pInInst) w))
      in if hres \<noteq> WBEM_S_NO_ERROR then (-1, w) else (0, w))))"

definition setManualIpV4 :: "'w com \<Rightarrow> Netadapter \<Rightarrow> Ipv4Address \<Rightarrow> wmi \<Rightarrow> 'w \<Rightarrow> (int \<times> 'w) option" where
  "setManualIpV4 com adapter manualConfig s w =
     (if m_pLoc s = 0 \<or> m_pSvc s = 0 then Some (-1, w)
      else case static_params com (m_pSvc s) w of (inst, w) \<Rightarrow>
      (case inst of None \<Rightarrow> Some (-1, w) | Some pInInst \<Rightarrow>
      (case address_arrays com pInInst manualConfig w of None \<Rightarrow> None | Some (arrays, w) \<Rightarrow>
      (case arrays of None \<Rightarrow> Some (-1, w) | Some (ip_list, netmask_list) \<Rightarrow>
      Some (enable_static com adapter (m_pSvc s) pInInst ip_list netmask_list
        (put_arrays com pInInst ip_list netmask_list w))))))"

end
