(* ===== verification/Wmi_Objects.thy ===== *)
theory Wmi_Objects
  imports Wmi
begin

text \<open>
  The objects of COM that \<open>hbk::communication::WMI\<close> works with: what COM promises about them is a locale, in which the
  operations are shown to give back what they got, and the one path on which they do not. The
  locale is interpreted on a heap of objects that computes.
\<close>

section \<open>Objects that are to be given back\<close>

text \<open>What a call uses, what it ends, and whether it makes an object\<close>

fun uses :: "com_call \<Rightarrow> obj set" where
  "uses (ConnectServer l _) = {l}"
| "uses (CoSetProxyBlanket p) = {p}"
| "uses (ExecQuery p _) = {p}"
| "uses (Next p) = {p}"
| "uses (Get p _) = {p}"
| "uses (ExecMethod p v _ args) = {p, v} \<union> (if args = 0 then {} else {args})"
| "uses (GetObject p _) = {p}"
| "uses (GetMethod p _) = {p}"
| "uses (SpawnInstance p) = {p}"
| "uses (SafeArrayPutElement l s) = {l, s}"
| "uses (Put p _ l) = {p, l}"
| "uses (Release p) = {p}"
| "uses (VariantClear p) = {p}"
| "uses (SysFreeString p) = {p}"
| "uses (SafeArrayDestroy p) = {p}"
| "uses _ = {}"

fun frees :: "com_call \<Rightarrow> obj set" where
  "frees (Release p) = {p}"
| "frees (VariantClear p) = {p}"
| "frees (SysFreeString p) = {p}"
| "frees (SafeArrayDestroy p) = {p}"
| "frees _ = {}"

fun makes :: "com_call \<Rightarrow> hresult \<Rightarrow> nat \<Rightarrow> bool" where
  "makes CoCreateInstance hres n \<longleftrightarrow> \<not> FAILED hres"
| "makes (ConnectServer _ _) hres n \<longleftrightarrow> \<not> FAILED hres"
| "makes (ExecQuery _ _) hres n \<longleftrightarrow> \<not> FAILED hres"
| "makes (Next _) hres n \<longleftrightarrow> \<not> FAILED hres \<and> n \<noteq> 0"
| "makes (Get _ _) hres n \<longleftrightarrow> \<not> FAILED hres"
| "makes (GetObject _ _) hres n \<longleftrightarrow> hres = 0"
| "makes (GetMethod _ _) hres n \<longleftrightarrow> hres = 0"
| "makes (SpawnInstance _) hres n \<longleftrightarrow> hres = 0"
| "makes SafeArrayCreateVector hres n \<longleftrightarrow> True"
| "makes (SysAllocString _) hres n \<longleftrightarrow> True"
| "makes _ hres n \<longleftrightarrow> False"

fun executes :: "com_call \<Rightarrow> bool" where
  "executes (ExecMethod _ _ _ _) \<longleftrightarrow> True"
| "executes _ \<longleftrightarrow> False"

text \<open>
  COM as its documentation has it: a successful call that makes an object makes a new one, which
  lives until it is given back. Whether \<open>ExecMethod\<close> makes one is left open. A use of
  an object that does not live is noted for ever.
\<close>

locale com_objects =
  fixes com :: "'w com" and live :: "'w \<Rightarrow> obj set" and misused :: "'w \<Rightarrow> bool"
  assumes uses: "com c w = ((hres, n, p), w') \<Longrightarrow> misused w' \<longleftrightarrow> misused w \<or> \<not> uses c \<subseteq> live w"
    and objects: "com c w = ((hres, n, p), w') \<Longrightarrow> live w' = live w - frees c \<union> (if p = 0 then {} else {p})"
    and fresh: "com c w = ((hres, n, p), w') \<Longrightarrow> p \<noteq> 0 \<Longrightarrow> p \<notin> live w"
    and made: "com c w = ((hres, n, p), w') \<Longrightarrow> \<not> executes c \<Longrightarrow> p \<noteq> 0 \<longleftrightarrow> makes c hres n"
begin

lemma free:
  "live (call com (Release p) w) = live w - {p}" "misused (call com (Release p) w) \<longleftrightarrow> misused w \<or> p \<notin> live w"
  "live (call com (VariantClear p) w) = live w - {p}" "misused (call com (VariantClear p) w) \<longleftrightarrow> misused w \<or> p \<notin> live w"
  "live (call com (SysFreeString p) w) = live w - {p}" "misused (call com (SysFreeString p) w) \<longleftrightarrow> misused w \<or> p \<notin> live w"
  "live (call com (SafeArrayDestroy p) w) = live w - {p}" "misused (call com (SafeArrayDestroy p) w) \<longleftrightarrow> misused w \<or> p \<notin> live w"
  "live (call com CoUninitialize w) = live w" "misused (call com CoUninitialize w) \<longleftrightarrow> misused w"
proof -
  have step: "live w' = live w - frees c" "misused w' \<longleftrightarrow> misused w \<or> \<not> uses c \<subseteq> live w"
    if w': "w' = call com c w" and nx: "\<not> executes c" and no: "\<forall>h n. \<not> makes c h n" for c w'
  proof -
    obtain h n p where c: "com c w = ((h, n, p), w')" unfolding w' by (metis prod.collapse)
    then have "p = 0" using made [OF c nx] no by auto
    with objects [OF c] uses [OF c] show "live w' = live w - frees c" "misused w' \<longleftrightarrow> misused w \<or> \<not> uses c \<subseteq> live w"
      by auto
  qed
  show "live (call com (Release p) w) = live w - {p}" "misused (call com (Release p) w) \<longleftrightarrow> misused w \<or> p \<notin> live w"
    "live (call com (VariantClear p) w) = live w - {p}" "misused (call com (VariantClear p) w) \<longleftrightarrow> misused w \<or> p \<notin> live w"
    "live (call com (SysFreeString p) w) = live w - {p}" "misused (call com (SysFreeString p) w) \<longleftrightarrow> misused w \<or> p \<notin> live w"
    "live (call com (SafeArrayDestroy p) w) = live w - {p}" "misused (call com (SafeArrayDestroy p) w) \<longleftrightarrow> misused w \<or> p \<notin> live w"
    "live (call com CoUninitialize w) = live w" "misused (call com CoUninitialize w) \<longleftrightarrow> misused w"
    using step [OF refl, of "Release p"] step [OF refl, of "VariantClear p"] step [OF refl, of "SysFreeString p"]
      step [OF refl, of "SafeArrayDestroy p"] step [OF refl, of CoUninitialize] by simp_all
qed

text \<open>A call on living objects\<close>

lemma make:
  assumes "com c w = ((hres, n, p), w')" "\<not> executes c" "uses c \<subseteq> live w" "frees c = {}"
  shows "misused w' \<longleftrightarrow> misused w" and "live w' = (if makes c hres n then insert p (live w) else live w)"
    and "makes c hres n \<Longrightarrow> p \<notin> live w"
  using uses [OF assms(1)] objects [OF assms(1)] fresh [OF assms(1)] made [OF assms(1,2)] assms(3,4) by auto

lemma first_row:
  assumes "svc \<in> live w" "first_row com svc query w = (row, w')"
  shows "misused w' \<longleftrightarrow> misused w"
    and "live w' = (case row of None \<Rightarrow> live w | Some p \<Rightarrow> insert p (live w))" and "row = Some p \<Longrightarrow> p \<notin> live w"
proof -
  obtain h n e w1 where q: "com (ExecQuery svc query) w = ((h, n, e), w1)" by (metis prod.collapse)
  obtain h2 n2 p2 w2 where x: "com (Next e) w1 = ((h2, n2, p2), w2)" by (metis prod.collapse)
  note q1 = make [OF q] and x1 = make [OF x]
  show "misused w' \<longleftrightarrow> misused w" "live w' = (case row of None \<Rightarrow> live w | Some p \<Rightarrow> insert p (live w))" "row = Some p \<Longrightarrow> p \<notin> live w"
    using assms q1 x1 by (auto simp: first_row_def q x free Let_def split: if_splits)
qed

lemma row_path:
  assumes "row \<in> live w" "row_path com row w = (path, w')"
  shows "misused w' \<longleftrightarrow> misused w"
    and "live w' = (case path of None \<Rightarrow> live w - {row} | Some v \<Rightarrow> insert v (live w - {row}))"
    and "path = Some v \<Longrightarrow> v \<notin> live w"
proof -
  obtain h n v1 w1 where g: "com (Get row ''__PATH'') w = ((h, n, v1), w1)" by (metis prod.collapse)
  have u: "uses (Get row ''__PATH'') \<subseteq> live w" using assms(1) by simp
  note g1 = make [OF g _ u]
  have r: "row \<in> live w1" using g1(2) assms(1) by simp
  have s: "path = (if FAILED h then None else Some v1)" "w' = call com (Release row) w1"
    using assms(2) by (auto simp: row_path_def g Let_def split: if_splits)
  show "misused w' \<longleftrightarrow> misused w" using g1(1) r by (simp add: s free)
  show "live w' = (case path of None \<Rightarrow> live w - {row} | Some v \<Rightarrow> insert v (live w - {row}))" "path = Some v \<Longrightarrow> v \<notin> live w"
    using g1 r assms(1) by (auto simp: s free split: if_splits)
qed

lemma run_method:
  assumes "svc \<in> live w" "v \<in> live w" "params = 0 \<or> params \<in> live w" "run_method com svc v name params w = (hres, w')"
  shows "misused w' \<longleftrightarrow> misused w" and "live w' = live w - {v}"
proof -
  obtain h n p w1 where x: "com (ExecMethod svc v name params) w = ((h, n, p), w1)" by (metis prod.collapse)
  have "misused w1 \<longleftrightarrow> misused w" "live w1 = live w \<union> (if p = 0 then {} else {p})" "p \<noteq> 0 \<longrightarrow> p \<notin> live w"
    using uses [OF x] objects [OF x] fresh [OF x] assms(1-3) by auto
  moreover have "w' = (if p \<noteq> 0 then call com (Release p) (call com (VariantClear v) w1) else call com (VariantClear v) w1)"
    using assms(4) by (auto simp: run_method_def x Let_def)
  ultimately show "misused w' \<longleftrightarrow> misused w" "live w' = live w - {v}" using assms(2) by (auto simp: free split: if_splits)
qed

text \<open>The first row and its path together\<close>

lemma row_and_path:
  assumes "svc \<in> live w" "first_row com svc query w = (Some row, w1)" "row_path com row w1 = (path, w2)"
  shows "misused w2 \<longleftrightarrow> misused w" and "live w2 = (case path of None \<Rightarrow> live w | Some v \<Rightarrow> insert v (live w))"
    and "path = Some v \<Longrightarrow> v \<notin> live w"
  using first_row [OF assms(1,2)] row_path [OF _ assms(3)] by (auto split: option.splits)

lemma firewire_balanced:
  assumes "m_pSvc s \<in> live w" "wmi_isFirewireAdapter com adapter s w = (r, w')"
  shows "(misused w' \<longleftrightarrow> misused w) \<and> live w' = live w"
proof -
  obtain row w1 where q: "first_row com (m_pSvc s) (firewire_query adapter) w = (row, w1)" by fastforce
  from first_row [OF assms(1) q] assms(2) show ?thesis
    by (auto simp: wmi_isFirewireAdapter_def q free split: if_splits option.splits)
qed

lemma dhcp_balanced:
  assumes "m_pSvc s \<in> live w" "enableDHCP com adapter s w = (r, w')"
  shows "(misused w' \<longleftrightarrow> misused w) \<and> live w' = live w"
proof -
  obtain row w1 where q: "first_row com (m_pSvc s) (configuration_query adapter) w = (row, w1)" by fastforce
  show ?thesis
  proof (cases row)
    case None
    with first_row [OF assms(1) q] assms(2) show ?thesis by (auto simp: enableDHCP_def q split: if_splits)
  next
    case (Some p)
    obtain path w2 where x: "row_path com p w1 = (path, w2)" by fastforce
    note rp = row_and_path [OF assms(1) q [unfolded Some] x]
    show ?thesis
    proof (cases path)
      case None
      with rp assms(2) show ?thesis by (auto simp: enableDHCP_def q Some x split: if_splits)
    next
      case (Some v)
      obtain hres w3 where m: "run_method com (m_pSvc s) v ''EnableDHCP'' 0 w2 = (hres, w3)" by fastforce
      have "m_pSvc s \<in> live w2" "v \<in> live w2" using rp Some assms(1) by auto
      from run_method [OF this _ m] rp Some assms(2) \<open>row = _\<close> show ?thesis
        by (auto simp: enableDHCP_def q x m split: if_splits)
    qed
  qed
qed

lemma static_params:
  assumes "svc \<in> live w" "static_params com svc w = (inst, w')"
  shows "misused w' \<longleftrightarrow> misused w"
    and "live w' = (case inst of None \<Rightarrow> live w | Some p \<Rightarrow> insert p (live w))" and "inst = Some p \<Longrightarrow> p \<notin> live w"
proof -
  obtain h1 n1 c w1 where o: "com (GetObject svc ''Win32_NetworkAdapterConfiguration'') w = ((h1, n1, c), w1)"
    by (metis prod.collapse)
  obtain h2 n2 a w2 where m: "com (GetMethod c ''EnableStatic'') w1 = ((h2, n2, a), w2)" by (metis prod.collapse)
  obtain h3 n3 p3 w4 where i: "com (SpawnInstance a) (call com (Release c) w2) = ((h3, n3, p3), w4)" by (metis prod.collapse)
  have uo: "uses (GetObject svc ''Win32_NetworkAdapterConfiguration'') \<subseteq> live w" using assms(1) by simp
  note o1 = make [OF o _ uo]
  show "misused w' \<longleftrightarrow> misused w"
    "live w' = (case inst of None \<Rightarrow> live w | Some p \<Rightarrow> insert p (live w))" "inst = Some p \<Longrightarrow> p \<notin> live w"
  proof -
    consider "h1 \<noteq> 0" | "h1 = 0" "h2 \<noteq> 0" | "h1 = 0" "h2 = 0" by blast
    then have "(misused w' \<longleftrightarrow> misused w) \<and> live w' = (case inst of None \<Rightarrow> live w | Some p \<Rightarrow> insert p (live w)) \<and>
        (inst = Some p \<longrightarrow> p \<notin> live w)"
    proof cases
      case 1
      then show ?thesis using o1 assms(2) by (auto simp: static_params_def o WBEM_S_NO_ERROR_def)
    next
      case 2
      have "uses (GetMethod c ''EnableStatic'') \<subseteq> live w1" using o1 2 by simp
      from make [OF m _ this] o1 2 show ?thesis
        using assms(2) by (auto simp: static_params_def o m WBEM_S_NO_ERROR_def free Let_def)
    next
      case 3
      have "uses (GetMethod c ''EnableStatic'') \<subseteq> live w1" using o1 3 by simp
      note m1 = make [OF m _ this]
      have l3: "live (call com (Release c) w2) = insert a (live w)" "misused (call com (Release c) w2) \<longleftrightarrow> misused w"
        using m1 o1 3 by (auto simp: free)
      have "uses (SpawnInstance a) \<subseteq> live (call com (Release c) w2)" by (simp add: l3)
      note i1 = make [OF i _ this, unfolded l3]
      have "a \<notin> live w" using m1 o1 3 by auto
      then show ?thesis
        using i1 3 assms(2) by (cases "h3 = 0") (auto simp: static_params_def o m i WBEM_S_NO_ERROR_def free Let_def)
    qed
    then show "misused w' \<longleftrightarrow> misused w"
      "live w' = (case inst of None \<Rightarrow> live w | Some p \<Rightarrow> insert p (live w))" "inst = Some p \<Longrightarrow> p \<notin> live w" by simp_all
  qed
qed

lemma string_array:
  assumes "string_array com s w = Some ((l, tmp, ok), w')"
  shows "misused w' \<longleftrightarrow> misused w" and "live w' = insert l (insert tmp (live w))"
    and "l \<notin> live w" and "tmp \<notin> live w" and "l \<noteq> tmp"
proof -
  obtain h1 n1 l1 w1 where c: "com SafeArrayCreateVector w = ((h1, n1, l1), w1)" by (metis prod.collapse)
  obtain z where z: "wide s = Some z" using assms by (auto simp: string_array_def c split: option.splits)
  obtain h2 n2 t2 w2 where a: "com (SysAllocString z) w1 = ((h2, n2, t2), w2)" by (metis prod.collapse)
  obtain h3 n3 p3 w3 where e: "com (SafeArrayPutElement l1 t2) w2 = ((h3, n3, p3), w3)" by (metis prod.collapse)
  have r: "l = l1" "tmp = t2" "w' = w3" using assms by (simp_all add: string_array_def c z a e)
  have c1: "misused w1 \<longleftrightarrow> misused w" "live w1 = insert l (live w)" "l \<notin> live w" using make [OF c] r by auto
  have a1: "misused w2 \<longleftrightarrow> misused w1" "live w2 = insert tmp (live w1)" "tmp \<notin> live w1" using make [OF a] r by auto
  have "uses (SafeArrayPutElement l1 t2) \<subseteq> live w2" using a1(2) c1(2) r by simp
  from make [OF e _ this] have "misused w3 \<longleftrightarrow> misused w2" "live w3 = live w2" by simp_all
  with c1 a1 show "misused w' \<longleftrightarrow> misused w" "live w' = insert l (insert tmp (live w))" "l \<notin> live w" "tmp \<notin> live w" "l \<noteq> tmp"
    by (auto simp: r(3))
qed

lemma address_arrays:
  assumes "inst \<in> live w" "address_arrays com inst cfg w = Some (arrays, w')"
  shows "misused w' \<longleftrightarrow> misused w"
    and "live w' = (case arrays of None \<Rightarrow> live w - {inst} | Some (l, l') \<Rightarrow> insert l (insert l' (live w)))"
    and "arrays = Some (l, l') \<Longrightarrow> l \<notin> live w \<and> l' \<notin> live w \<and> l \<noteq> l'"
proof -
  obtain l1 t1 ok1 w1 where a: "string_array com (address cfg) w = Some ((l1, t1, ok1), w1)"
    using assms(2) by (auto simp: address_arrays_def split: option.splits)
  note a1 = string_array [OF a]
  define v where "v = call com (SysFreeString t1) w1"
  have v: "live v = insert l1 (live w)" "misused v \<longleftrightarrow> misused w" using a1 by (auto simp: v_def free)
  have "(misused w' \<longleftrightarrow> misused w) \<and>
    live w' = (case arrays of None \<Rightarrow> live w - {inst} | Some (l, l') \<Rightarrow> insert l (insert l' (live w))) \<and>
    (arrays = Some (l, l') \<longrightarrow> l \<notin> live w \<and> l' \<notin> live w \<and> l \<noteq> l')"
  proof (cases ok1)
    case False
    then show ?thesis using assms v a1 by (auto simp: address_arrays_def a Let_def free v_def [symmetric])
  next
    case True
    obtain l2 t2 ok2 w2 where b: "string_array com (netmask cfg) v = Some ((l2, t2, ok2), w2)"
      using assms(2) True by (auto simp: address_arrays_def a Let_def v_def [symmetric] split: option.splits)
    note b1 = string_array [OF b]
    define u where "u = call com (SysFreeString t2) w2"
    have u: "live u = insert l2 (insert l1 (live w))" "misused u \<longleftrightarrow> misused w" using b1 v by (auto simp: u_def free)
    show ?thesis
      using assms a1 b1 u v True by (cases ok2) (auto simp: address_arrays_def a b Let_def free v_def [symmetric] u_def [symmetric])
  qed
  then show "misused w' \<longleftrightarrow> misused w"
    "live w' = (case arrays of None \<Rightarrow> live w - {inst} | Some (l, l') \<Rightarrow> insert l (insert l' (live w)))"
    "arrays = Some (l, l') \<Longrightarrow> l \<notin> live w \<and> l' \<notin> live w \<and> l \<noteq> l'" by simp_all
qed

lemma put_arrays:
  assumes "{inst, l, l'} \<subseteq> live w" "distinct [inst, l, l']" "\<And>q name a w. fst (fst (com (Put q name a) w)) = 0 \<longleftrightarrow> fine"
  shows "misused (put_arrays com inst l l' w) \<longleftrightarrow> misused w"
    and "live (put_arrays com inst l l' w) = (if fine then live w else live w - {inst, l, l'})"
proof -
  obtain h1 n1 p1 w1 where a: "com (Put inst ''IPAddress'' l) w = ((h1, n1, p1), w1)" by (metis prod.collapse)
  obtain h2 n2 p2 w2 where b: "com (Put inst ''SubNetMask'' l') w1 = ((h2, n2, p2), w2)" by (metis prod.collapse)
  have f: "h1 = 0 \<longleftrightarrow> fine" "h2 = 0 \<longleftrightarrow> fine" using assms(3) [of inst "''IPAddress''" l w] assms(3) [of inst "''SubNetMask''" l' w1] a b
    by simp_all
  have "uses (Put inst ''IPAddress'' l) \<subseteq> live w" using assms(1) by simp
  from make [OF a _ this] have a1: "misused w1 \<longleftrightarrow> misused w" "live w1 = live w" by simp_all
  then have "uses (Put inst ''SubNetMask'' l') \<subseteq> live w1" using assms(1) by simp
  from make [OF b _ this] have b1: "misused w2 \<longleftrightarrow> misused w1" "live w2 = live w1" by simp_all
  show "misused (put_arrays com inst l l' w) \<longleftrightarrow> misused w"
    "live (put_arrays com inst l l' w) = (if fine then live w else live w - {inst, l, l'})"
    using f a1 b1 assms(1,2) by (auto simp: put_arrays_def a b free WBEM_S_NO_ERROR_def)
qed

lemma enable_static_balanced:
  assumes "{svc, inst, l, l'} \<subseteq> live w" "distinct [svc, inst, l, l']" "enable_static com adapter svc inst l l' w = (r, w')"
  shows "misused w' \<longleftrightarrow> misused w" and "live w' = live w - {inst} \<or> live w' = live w - {inst, l, l'}"
    and "r = 0 \<Longrightarrow> live w' = live w - {inst, l, l'}"
proof -
  have s: "svc \<in> live w" using assms(1) by simp
  obtain row w1 where q: "first_row com svc (configuration_query adapter) w = (row, w1)" by fastforce
  have "(misused w' \<longleftrightarrow> misused w) \<and> (live w' = live w - {inst} \<or> live w' = live w - {inst, l, l'}) \<and>
    (r = 0 \<longrightarrow> live w' = live w - {inst, l, l'})"
  proof (cases row)
    case None
    have "r = -1" "w' = call com (Release inst) w1" using assms(3) by (simp_all add: enable_static_def q None)
    with first_row [OF s q] assms(1) None show ?thesis by (simp add: free)
  next
    case (Some p)
    obtain path w2 where x: "row_path com p w1 = (path, w2)" by fastforce
    note rp = row_and_path [OF s q [unfolded Some] x]
    show ?thesis
    proof (cases path)
      case None
      have "r = -1" "w' = call com (Release inst) w2" using assms(3) by (simp_all add: enable_static_def q Some x None)
      with rp assms(1) None show ?thesis by (simp add: free)
    next
      case (Some v)
      obtain hres w3 where m: "run_method com svc v ''EnableStatic'' inst w2 = (hres, w3)" by fastforce
      have l2: "live w2 = insert v (live w)" "v \<notin> live w" "misused w2 \<longleftrightarrow> misused w" using rp Some by auto
      have "svc \<in> live w2" "v \<in> live w2" "inst \<in> live w2" using l2(1) assms(1) by auto
      from run_method [OF this(1,2) disjI2, OF this(3) m] l2 have w3: "misused w3 \<longleftrightarrow> misused w" "live w3 = live w" by auto
      have "w' = call com (SafeArrayDestroy l') (call com (SafeArrayDestroy l) (call com (Release inst) w3))"
        using assms(3) \<open>row = _\<close> by (auto simp: enable_static_def q x m Some Let_def split: if_splits)
      then have "live w' = live w - {inst, l, l'}" "misused w' \<longleftrightarrow> misused w" using w3 assms(1,2) by (auto simp: free)
      then show ?thesis by simp
    qed
  qed
  then show "misused w' \<longleftrightarrow> misused w" "live w' = live w - {inst} \<or> live w' = live w - {inst, l, l'}"
    "r = 0 \<Longrightarrow> live w' = live w - {inst, l, l'}" by simp_all
qed

lemma misused_mono: "misused w \<Longrightarrow> misused (call com c w)"
  using uses [of c w] by (metis prod.collapse)

text \<open>Once the parameters are given back, the rest of the function always misuses an object.\<close>

lemma enable_static_misuses:
  assumes "svc \<in> live w" "inst \<notin> live w" "enable_static com adapter svc inst l l' w = (r, w')"
  shows "misused w'"
proof -
  obtain row w1 where q: "first_row com svc (configuration_query adapter) w = (row, w1)" by fastforce
  show ?thesis
  proof (cases row)
    case None
    with first_row [OF assms(1) q] assms show ?thesis by (auto simp: enable_static_def q free)
  next
    case (Some p)
    obtain path w2 where x: "row_path com p w1 = (path, w2)" by fastforce
    note rp = row_and_path [OF assms(1) q [unfolded Some] x]
    show ?thesis
    proof (cases path)
      case None
      with rp assms show ?thesis by (auto simp: enable_static_def q Some x free)
    next
      case (Some v)
      obtain hres w3 where m: "run_method com svc v ''EnableStatic'' inst w2 = (hres, w3)" by fastforce
      have l2: "live w2 = insert v (live w)" "v \<notin> live w" using rp Some by auto
      have "misused w3 \<or> inst \<notin> live w3"
      proof (cases "inst = 0 \<or> inst = v")
        case True
        then have "inst = 0 \<or> inst \<in> live w2" using l2 by auto
        from run_method [OF _ _ this m] assms(1) l2 have "live w3 = live w" by auto
        then show ?thesis using assms(2) by simp
      next
        case False
        obtain h n p4 w4 where e: "com (ExecMethod svc v ''EnableStatic'' inst) w2 = ((h, n, p4), w4)" by (metis prod.collapse)
        from uses [OF e] False l2 assms(2) have "misused w4" by auto
        then have "misused w3" using m by (auto simp: run_method_def e Let_def misused_mono split: if_splits)
        then show ?thesis by simp
      qed
      then have "misused (call com (Release inst) w3)" by (auto simp: free)
      moreover have "w' = call com (SafeArrayDestroy l') (call com (SafeArrayDestroy l) (call com (Release inst) w3))"
        using assms(3) \<open>row = _\<close> by (auto simp: enable_static_def q x m Some Let_def split: if_splits)
      ultimately show ?thesis by (simp add: misused_mono)
    qed
  qed
qed

text \<open>The state of the class: without objects, or with the two living ones\<close>

definition holds :: "'w \<Rightarrow> wmi \<times> 'w \<Rightarrow> bool" where
  "holds w0 = (\<lambda>(s, w). (misused w \<longleftrightarrow> misused w0) \<and>
     (if m_pLoc s = 0 \<and> m_pSvc s = 0 then live w = live w0
      else m_pLoc s \<noteq> 0 \<and> m_pSvc s \<noteq> 0 \<and> m_pLoc s \<noteq> m_pSvc s \<and> m_pLoc s \<notin> live w0 \<and> m_pSvc s \<notin> live w0 \<and>
        live w = live w0 \<union> {m_pLoc s, m_pSvc s}))"

lemma init_holds:
  assumes "m_pLoc s = 0" "m_pSvc s = 0" "initWMI com (s, w) = (r, s', w')"
  shows "holds w (s', w')"
proof -
  obtain h1 n1 p1 w1 where a: "com CoInitializeEx w = ((h1, n1, p1), w1)" by (metis prod.collapse)
  obtain h2 n2 p2 w2 where b: "com CoInitializeSecurity w1 = ((h2, n2, p2), w2)" by (metis prod.collapse)
  obtain h3 n3 loc w3 where c: "com CoCreateInstance w2 = ((h3, n3, loc), w3)" by (metis prod.collapse)
  obtain h4 n4 svc w4 where d: "com (ConnectServer loc cimv2) w3 = ((h4, n4, svc), w4)"
    by (metis prod.collapse)
  obtain h5 n5 p5 w5 where e: "com (CoSetProxyBlanket svc) w4 = ((h5, n5, p5), w5)" by (metis prod.collapse)
  have a1: "misused w1 \<longleftrightarrow> misused w" "live w1 = live w" using make [OF a] by simp_all
  have b1: "misused w2 \<longleftrightarrow> misused w" "live w2 = live w" using make [OF b] a1 by simp_all
  note c1 = make [OF c] made [OF c]
  note init = initWMI_def a b c d e
  consider "FAILED h1" | "\<not> FAILED h1" "FAILED h2" | "\<not> FAILED h1" "\<not> FAILED h2" "FAILED h3"
    | "\<not> FAILED h1" "\<not> FAILED h2" "\<not> FAILED h3" by blast
  then show ?thesis
  proof cases
    case 1
    then show ?thesis using assms a1 by (simp add: init holds_def)
  next
    case 2
    then show ?thesis using assms b1 by (simp add: init holds_def)
  next
    case 3
    then have w3: "misused w3 \<longleftrightarrow> misused w" "live w3 = live w" "loc = 0" using c1 b1 by simp_all
    have "s' = s\<lparr>m_pLoc := loc\<rparr>" "w' = w3" using assms 3 by (simp_all add: init)
    then show ?thesis using assms w3 by (simp add: holds_def)
  next
    case 4
    then have l3: "misused w3 \<longleftrightarrow> misused w" "live w3 = insert loc (live w)" "loc \<noteq> 0" "loc \<notin> live w" using c1 b1 by auto
    then have "uses (ConnectServer loc cimv2) \<subseteq> live w3" by simp
    note d1 = make [OF d _ this] made [OF d]
    show ?thesis
    proof (cases "FAILED h4")
      case True
      then have l4: "misused w4 \<longleftrightarrow> misused w" "live w4 = live w3" "svc = 0" using d1 l3 by simp_all
      have "s' = s\<lparr>m_pSvc := svc, m_pLoc := 0\<rparr>" "w' = call com (Release loc) w4" using assms 4 True by (simp_all add: init)
      then show ?thesis using assms l3 l4 by (simp add: holds_def free)
    next
      case False
      from d1 False l3 have l4: "misused w4 \<longleftrightarrow> misused w" "live w4 = insert svc (live w3)" "svc \<noteq> 0" "svc \<notin> live w3" using d1 l3 by auto
      then have "uses (CoSetProxyBlanket svc) \<subseteq> live w4" by simp
      from make [OF e _ this] have l5: "misused w5 \<longleftrightarrow> misused w" "live w5 = live w4" using l4 by simp_all
      show ?thesis
      proof (cases "FAILED h5")
        case True
        then have "s' = s\<lparr>m_pSvc := 0, m_pLoc := 0\<rparr>" "w' = call com (Release loc) (call com (Release svc) w5)"
          using assms 4 False by (simp_all add: init)
        then show ?thesis using assms l3 l4 l5 by (auto simp: holds_def free)
      next
        case h5: False
        then have "s' = s\<lparr>m_pLoc := loc, m_pSvc := svc\<rparr>" "w' = w5" using assms 4 False by (simp_all add: init)
        then show ?thesis using assms l3 l4 l5 by (auto simp: holds_def)
      qed
    qed
  qed
qed

lemma uninit_holds:
  assumes "holds w0 (s, w)" "uninitWMI com (s, w) = (s', w')"
  shows "(misused w' \<longleftrightarrow> misused w0) \<and> live w' = live w0 \<and> m_pLoc s' = 0 \<and> m_pSvc s' = 0"
proof (cases "m_pLoc s = 0 \<and> m_pSvc s = 0")
  case True
  then have "s' = s" "w' = call com CoUninitialize w" using assms(2) by (simp_all add: uninitWMI_def)
  then show ?thesis using assms(1) True by (simp add: holds_def free)
next
  case False
  then have h: "m_pLoc s \<noteq> 0" "m_pSvc s \<noteq> 0" "m_pLoc s \<noteq> m_pSvc s" "m_pLoc s \<notin> live w0" "m_pSvc s \<notin> live w0"
      "live w = live w0 \<union> {m_pLoc s, m_pSvc s}" "misused w \<longleftrightarrow> misused w0"
    using assms(1) by (auto simp: holds_def)
  then have "s' = s\<lparr>m_pSvc := 0, m_pLoc := 0\<rparr>"
      "w' = call com CoUninitialize (call com (Release (m_pLoc s)) (call com (Release (m_pSvc s)) w))"
    using assms(2) by (simp_all add: uninitWMI_def)
  then show ?thesis using h by (auto simp: free)
qed

lemma firewire_holds: "holds w0 (s, w) \<Longrightarrow> holds w0 (s, snd (wmi_isFirewireAdapter com adapter s w))"
  using firewire_balanced [of s w adapter] by (cases "m_pSvc s = 0") (auto simp: holds_def wmi_isFirewireAdapter_def prod_eq_iff split: if_splits)

lemma dhcp_holds: "holds w0 (s, w) \<Longrightarrow> holds w0 (s, snd (enableDHCP com adapter s w))"
  using dhcp_balanced [of s w adapter] by (cases "m_pSvc s = 0") (auto simp: holds_def enableDHCP_def prod_eq_iff split: if_splits)

end

text \<open>A query or a change between the initialisation and the end\<close>

datatype wmi_op = Is_Firewire Netadapter | Enable_Dhcp Netadapter

fun wmi_step :: "'w com \<Rightarrow> wmi_op \<Rightarrow> wmi \<times> 'w \<Rightarrow> wmi \<times> 'w" where
  "wmi_step com (Is_Firewire ad) (s, w) = (s, snd (wmi_isFirewireAdapter com ad s w))"
| "wmi_step com (Enable_Dhcp ad) (s, w) = (s, snd (enableDHCP com ad s w))"

definition wmi_session :: "'w com \<Rightarrow> wmi_op list \<Rightarrow> wmi \<times> 'w \<Rightarrow> wmi \<times> 'w" where
  "wmi_session com ops sw = uninitWMI com (fold (wmi_step com) ops (snd (initWMI com sw)))"

context com_objects
begin

lemma steps_hold: "holds w0 sw \<Longrightarrow> holds w0 (fold (wmi_step com) ops sw)"
proof (induction ops arbitrary: sw)
  case (Cons op ops)
  obtain s w where sw: "sw = (s, w)" by fastforce
  have "holds w0 (wmi_step com op sw)"
    using Cons.prems by (cases op) (simp_all add: sw firewire_holds dhcp_holds)
  with Cons.IH show ?case by simp
qed simp

lemma session_balanced:
  assumes "m_pLoc s = 0" "m_pSvc s = 0" "wmi_session com ops (s, w) = (s', w')"
  shows "(misused w' \<longleftrightarrow> misused w) \<and> live w' = live w \<and> m_pLoc s' = 0 \<and> m_pSvc s' = 0"
proof -
  obtain r s1 w1 where i: "initWMI com (s, w) = (r, s1, w1)" by (metis prod.collapse)
  obtain s2 w2 where o: "fold (wmi_step com) ops (s1, w1) = (s2, w2)" by fastforce
  have "holds w (s2, w2)" using steps_hold [OF init_holds [OF assms(1,2) i], of ops] by (simp add: o)
  from uninit_holds [OF this] assms(3) show ?thesis by (simp add: wmi_session_def i o)
qed

text \<open>A manual address, depending on whether the parameters can be stored\<close>

lemma manual_runs:
  assumes "m_pLoc s \<noteq> 0" "m_pSvc s \<noteq> 0" "m_pSvc s \<in> live w" "wide (address cfg) \<noteq> None" "wide (netmask cfg) \<noteq> None"
  shows "\<exists>r w'. setManualIpV4 com adapter cfg s w = Some (r, w')"
proof -
  have sa: "\<exists>l tmp ok w'. string_array com x w = Some ((l, tmp, ok), w')" if x: "wide x \<noteq> None" for x w
  proof -
    obtain z where z: "wide x = Some z" using x by blast
    show ?thesis by (simp add: string_array_def z split: prod.split)
  qed
  obtain inst w1 where i: "static_params com (m_pSvc s) w = (inst, w1)" by fastforce
  show ?thesis
  proof (cases inst)
    case None
    then show ?thesis using assms(1,2) by (simp add: setManualIpV4_def i)
  next
    case (Some p)
    obtain l tmp ok w2 where a: "string_array com (address cfg) w1 = Some ((l, tmp, ok), w2)" using sa [OF assms(4)] by blast
    obtain l' tmp' ok' w3 where b: "string_array com (netmask cfg) (call com (SysFreeString tmp) w2) = Some ((l', tmp', ok'), w3)"
      using sa [OF assms(5)] by blast
    obtain arrays w4 where "address_arrays com p cfg w1 = Some (arrays, w4)"
      by (cases ok; cases ok') (simp_all add: address_arrays_def a b)
    then show ?thesis using assms(1,2) Some
      by (cases arrays) (auto simp: setManualIpV4_def i split: prod.split)
  qed
qed

lemma manual_put:
  assumes svc: "m_pSvc s \<in> live w" "m_pLoc s \<noteq> 0" "m_pSvc s \<noteq> 0"
    and put: "\<And>q name a w. fst (fst (com (Put q name a) w)) = 0 \<longleftrightarrow> fine"
    and run: "setManualIpV4 com adapter cfg s w = Some (r, w')"
  shows "fine \<Longrightarrow> (misused w' \<longleftrightarrow> misused w) \<and> live w \<subseteq> live w' \<and> (r = 0 \<longrightarrow> live w' = live w)"
    and "\<not> fine \<Longrightarrow> \<forall>c w. (\<forall>q name a. c \<noteq> Put q name a) \<longrightarrow> fst (fst (com c w)) = 0 \<Longrightarrow> misused w'"
proof -
  obtain inst w1 where i: "static_params com (m_pSvc s) w = (inst, w1)" by fastforce
  note i1 = static_params [OF svc(1) i]
  have early: "(misused w' \<longleftrightarrow> misused w) \<and> live w \<subseteq> live w' \<and> (r = 0 \<longrightarrow> live w' = live w)" if "inst = None"
    using run i1 svc that by (simp add: setManualIpV4_def i)
  have later: "(fine \<longrightarrow> (misused w' \<longleftrightarrow> misused w) \<and> live w \<subseteq> live w' \<and> (r = 0 \<longrightarrow> live w' = live w)) \<and>
      (\<not> fine \<and> arrays \<noteq> None \<longrightarrow> misused w')"
    if p: "inst = Some p" and a: "address_arrays com p cfg w1 = Some (arrays, w2)" for p arrays w2
  proof -
    have l1: "live w1 = insert p (live w)" "misused w1 \<longleftrightarrow> misused w" "p \<notin> live w" "p \<in> live w1" using i1 p by auto
    note a1 = address_arrays [OF l1(4) a]
    show ?thesis
    proof (cases arrays)
      case None
      have "w' = w2" "r = -1" using run svc by (simp_all add: setManualIpV4_def i p a None)
      then show ?thesis using a1 l1 None by auto
    next
      case (Some ll)
      obtain l l' where ll: "ll = (l, l')" by fastforce
      have l2: "live w2 = insert l (insert l' (insert p (live w)))" "l \<notin> live w1" "l' \<notin> live w1" "l \<noteq> l'" "misused w2 \<longleftrightarrow> misused w"
        using a1 l1 Some ll by auto
      define w3 where "w3 = put_arrays com p l l' w2"
      have "distinct [p, l, l']" "{p, l, l'} \<subseteq> live w2" using l1 l2 by auto
      from put_arrays [OF this(2,1) put]
      have l3: "misused w3 \<longleftrightarrow> misused w" "live w3 = (if fine then live w2 else live w)"
        using l1 l2 by (auto simp: w3_def)
      have e: "enable_static com adapter (m_pSvc s) p l l' w3 = (r, w')"
        using run svc by (simp add: setManualIpV4_def i p a Some ll w3_def)
      show ?thesis
      proof (cases fine)
        case True
        have "{m_pSvc s, p, l, l'} \<subseteq> live w3" "distinct [m_pSvc s, p, l, l']" using l3 l2 l1 svc True by auto
        note b = enable_static_balanced [OF this e]
        have "live w3 - {p, l, l'} = live w" "live w \<subseteq> live w3 - {p}" using l3 l2 l1 True by auto
        then show ?thesis using b l3 True by auto
      next
        case False
        then have "m_pSvc s \<in> live w3" "p \<notin> live w3" using l3 l1 svc by auto
        from enable_static_misuses [OF this e] show ?thesis using False by simp
      qed
    qed
  qed
  have got: "\<exists>arrays w2. address_arrays com p cfg w1 = Some (arrays, w2)" if "inst = Some p" for p
    using run svc that by (cases "address_arrays com p cfg w1") (auto simp: setManualIpV4_def i)
  show "fine \<Longrightarrow> (misused w' \<longleftrightarrow> misused w) \<and> live w \<subseteq> live w' \<and> (r = 0 \<longrightarrow> live w' = live w)"
    using early later got by (cases inst) blast+
  show "misused w'" if "\<not> fine" and ok: "\<forall>c w. (\<forall>q name a. c \<noteq> Put q name a) \<longrightarrow> fst (fst (com c w)) = 0"
  proof -
    have z: "\<exists>x w'. com c w = ((0, x), w')" if "\<forall>q name a. c \<noteq> Put q name a" for c w
      using ok that by (metis prod.collapse)
    obtain x1 v1 where o1: "com (GetObject (m_pSvc s) ''Win32_NetworkAdapterConfiguration'') w = ((0, x1), v1)" using z by blast
    obtain x2 v2 where o2: "com (GetMethod (snd x1) ''EnableStatic'') v1 = ((0, x2), v2)" using z by blast
    obtain x3 v3 where o3: "com (SpawnInstance (snd x2)) (call com (Release (snd x1)) v2) = ((0, x3), v3)" using z by blast
    have "\<exists>p. inst = Some p"
      using i by (cases x1; cases x2; cases x3) (use o1 o2 o3 in \<open>auto simp: static_params_def WBEM_S_NO_ERROR_def Let_def\<close>)
    then obtain p where p: "inst = Some p" by blast
    from got [OF p] obtain arrays w2 where a: "address_arrays com p cfg w1 = Some (arrays, w2)" by blast
    have k: "k" if sa: "string_array com x w = Some ((l, tmp, k), w')" for x w l tmp k w'
    proof -
      obtain h1 l1 w1 where c: "com SafeArrayCreateVector w = ((h1, l1), w1)" by (metis prod.collapse)
      obtain y where y: "wide x = Some y" using sa by (cases "wide x") (auto simp: string_array_def c split: prod.splits)
      obtain h2 n2 t2 w2 where e: "com (SysAllocString y) w1 = ((h2, n2, t2), w2)" by (metis prod.collapse)
      obtain x3 w3 where "com (SafeArrayPutElement (snd l1) t2) w2 = ((0, x3), w3)" using z by blast
      then show ?thesis using that by (cases l1) (auto simp: string_array_def c y e)
    qed
    have "arrays \<noteq> None"
      using a by (auto simp: address_arrays_def Let_def split: option.splits if_splits prod.splits dest: k)
    with later [OF p a] that(1) show ?thesis by simp
  qed
qed

end

section \<open>An address fits the buffer\<close>

lemma length_to_string: "n < 1000 \<Longrightarrow> length (to_string n) \<le> 3"
proof -
  assume n: "n < 1000"
  have 1: "length (to_string m) = 1" if "m < 10" for m using that by (simp add: radix.simps [of 10 m])
  have 2: "length (to_string m) \<le> 2" if "m < 100" for m
    using that 1 [of "m div 10"] 1 [of m] by (cases "m < 10") (simp_all add: radix.simps [of 10 m])
  show ?thesis using n 2 [of "n div 10"] 1 [of n] by (cases "n < 10") (simp_all add: radix.simps [of 10 n])
qed

lemma wide_dotted: "wide (dotted a) = Some (dotted a)"
proof -
  have l: "length (to_string (unat (octet i a))) \<le> 3" for i
    using octet_less [of i a] by (intro length_to_string) simp
  have z: "CHR 0x00 \<notin> set (to_string n)" for n
    using radix_digits [of 10 "CHR 0x00" n] by (auto simp: is_digit_def digit_val_def)
  have "c_str (dotted a) = dotted a" using z by (intro c_str_id) (simp add: dotted_unfold)
  moreover have "length (dotted a) < 16" using l [of 3] l [of 2] l [of 1] l [of 0] by (simp add: dotted_unfold)
  ultimately show ?thesis by (simp only: wide_def Let_def if_True)
qed

section \<open>COM that computes\<close>

record com_heap =
  h_live :: "obj list"
  h_misused :: bool

text \<open>The calls that fail are a parameter.\<close>

definition heap_com :: "(com_call \<Rightarrow> bool) \<Rightarrow> com_heap com" where
  "heap_com fails c w =
     (let hres = (if fails c then -1 else 0); n = (if fails c then 0 else 1);
          p = (if makes c hres n then fold max (h_live w) 0 + 1 else 0)
      in ((hres, n, p), \<lparr>h_live = (if p = 0 then [] else [p]) @ filter (\<lambda>q. q \<notin> frees c) (h_live w),
            h_misused = (h_misused w \<or> \<not> uses c \<subseteq> set (h_live w))\<rparr>))"

lemma fold_max_nat: "m \<le> fold max xs (m :: nat) \<and> (\<forall>x\<in>set xs. x \<le> fold max xs m)"
proof (induction xs arbitrary: m)
  case (Cons x xs)
  from Cons [of "max x m"] show ?case by auto
qed simp

lemma frees_makes: "makes c h n \<Longrightarrow> frees c = {}"
  by (cases c) auto

interpretation heap: com_objects "heap_com fails" "\<lambda>w. set (h_live w)" h_misused for fails
proof
  fix c w hres n p w'
  assume c: "heap_com fails c w = ((hres, n, p), w')"
  define q where "q = fold max (h_live w) 0 + 1"
  have q: "q \<notin> set (h_live w)" "q \<noteq> 0" using fold_max_nat [of 0 "h_live w"] by (auto simp: q_def)
  from c have p: "p = (if makes c hres n then q else 0)" by (auto simp: heap_com_def Let_def q_def)
  then show "p \<noteq> 0 \<Longrightarrow> p \<notin> set (h_live w)" and "p \<noteq> 0 \<longleftrightarrow> makes c hres n" using q by auto
  show "h_misused w' \<longleftrightarrow> h_misused w \<or> \<not> uses c \<subseteq> set (h_live w)" using c by (auto simp: heap_com_def Let_def)
  show "set (h_live w') = set (h_live w) - frees c \<union> (if p = 0 then {} else {p})"
    using c frees_makes [of c hres n] by (auto simp: heap_com_def Let_def)
qed

section \<open>Properties\<close>


text \<open>
  Setting a manual address in the dotted form, as long as the parameters can be stored: the address and
  the netmask fit the buffer, no object is used after it was given back, and after a success
  nothing is left over.
\<close>

theorem manual_address_safe:
  assumes "com_objects com live misused" and "m_pLoc s \<noteq> 0" and "m_pSvc s \<noteq> 0" and "m_pSvc s \<in> live w"
    and "\<And>q name a w. fst (fst (com (Put q name a) w)) = 0"
  shows "\<exists>r w'. setManualIpV4 com adapter \<lparr>address = dotted a, netmask = dotted n\<rparr> s w = Some (r, w') \<and>
    (misused w' \<longleftrightarrow> misused w) \<and> live w \<subseteq> live w' \<and> (r = 0 \<longrightarrow> live w' = live w)"
proof -
  let ?cfg = "\<lparr>address = dotted a, netmask = dotted n\<rparr>"
  have "wide (address ?cfg) \<noteq> None" "wide (netmask ?cfg) \<noteq> None" by (simp_all add: wide_dotted)
  from com_objects.manual_runs [OF assms(1-4) this] obtain r w' where r: "setManualIpV4 com adapter ?cfg s w = Some (r, w')"
    by blast
  moreover have "fst (fst (com (Put q name a) w)) = 0 \<longleftrightarrow> True" for q name a w using assms(5) by simp
  ultimately show ?thesis using com_objects.manual_put(1) [OF assms(1,4,2,3) _ r, of True] by blast
qed

text \<open>
  When it is just the parameters that cannot be stored, the function gives them back and goes on with
  them: an object is used that does not live any more.
\<close>

theorem manual_address_misuses:
  assumes "com_objects com live misused" and "m_pLoc s \<noteq> 0" and "m_pSvc s \<noteq> 0" and "m_pSvc s \<in> live w"
    and "\<And>c w. fst (fst (com c w)) = 0 \<longleftrightarrow> (\<forall>q name a. c \<noteq> Put q name a)"
  shows "\<exists>r w'. setManualIpV4 com adapter \<lparr>address = dotted a, netmask = dotted n\<rparr> s w = Some (r, w') \<and> misused w'"
proof -
  let ?cfg = "\<lparr>address = dotted a, netmask = dotted n\<rparr>"
  have "wide (address ?cfg) \<noteq> None" "wide (netmask ?cfg) \<noteq> None" by (simp_all add: wide_dotted)
  from com_objects.manual_runs [OF assms(1-4) this] obtain r w' where r: "setManualIpV4 com adapter ?cfg s w = Some (r, w')"
    by blast
  moreover have "fst (fst (com (Put q name a) w)) = 0 \<longleftrightarrow> False" for q name a w using assms(5) [of "Put q name a"] by simp
  ultimately show ?thesis using com_objects.manual_put(2) [OF assms(1,4,2,3) _ r, of False] assms(5) by blast
qed

section \<open>Witnesses\<close>

definition idle_wmi :: wmi where "idle_wmi = \<lparr>m_pLoc = 0, m_pSvc = 0\<rparr>"

definition open_wmi :: wmi where "open_wmi = \<lparr>m_pLoc = 3, m_pSvc = 4\<rparr>"


theorem manual_address_safe_witness:
  "\<exists>r w'. setManualIpV4 (heap_com (\<lambda>_. False)) Netadapter_init \<lparr>address = dotted 0xC0A80002, netmask = dotted 0xFFFF0000\<rparr>
      open_wmi \<lparr>h_live = [3, 4], h_misused = False\<rparr> = Some (r, w') \<and> \<not> h_misused w' \<and> {3, 4} \<subseteq> set (h_live w')"
  using manual_address_safe [OF heap.com_objects_axioms, where fails1 = "\<lambda>_. False" and s = open_wmi and
      w = "\<lparr>h_live = [3, 4], h_misused = False\<rparr>" and adapter = Netadapter_init and a = "0xC0A80002" and n = "0xFFFF0000"]
  by (force simp: open_wmi_def heap_com_def Let_def)

definition put_fails :: "com_call \<Rightarrow> bool" where
  "put_fails c = (case c of Put _ _ _ \<Rightarrow> True | _ \<Rightarrow> False)"

theorem manual_address_misuses_witness:
  "\<exists>r w'. setManualIpV4 (heap_com put_fails) Netadapter_init \<lparr>address = dotted 0xC0A80002, netmask = dotted 0xFFFF0000\<rparr>
      open_wmi \<lparr>h_live = [3, 4], h_misused = False\<rparr> = Some (r, w') \<and> h_misused w'"
proof (rule manual_address_misuses [OF heap.com_objects_axioms])
  show "fst (fst (heap_com put_fails c w)) = 0 \<longleftrightarrow> (\<forall>q name a. c \<noteq> Put q name a)" for c w
    by (cases c) (auto simp: heap_com_def put_fails_def Let_def)
qed (simp_all add: open_wmi_def)

end
