(* ===== verification/Win_Netadapter.thy ===== *)
theory Win_Netadapter
  imports Wmi
begin

text \<open>
  The list of network adapters under Windows (\<^verbatim>\<open>lib/communication/windows/netadapterlist.cpp\<close>,
  \<^verbatim>\<open>windows/netadapter.cpp\<close>): what \<open>update\<close> makes of the table that \<open>GetAdaptersInfo\<close> gives, and the queries.
  The laws that both lists of adapters keep, this one and that of Linux, are a locale; from them follows
  how the queries belong together.
\<close>

section \<open>State\<close>

text \<open>
  An entry of the table: the bytes of the hardware address, the current address with its netmask, if there
  is one, the first address of the list of addresses, and the rest of it, which the code does not look at.
\<close>

record adapter_info =
  ai_index :: u32
  ai_address :: bytes
  ai_current :: "(string \<times> string) option"
  ai_first :: "string \<times> string"
  ai_others :: "(string \<times> string) list"
  ai_gateways :: "string list"
  ai_description :: string

text \<open>
  \<open>GetAdaptersInfo\<close>: called without a buffer it tells that the buffer is too small, or gives another result.
  Called again with a buffer it gives the table or fails, for instance with \<open>ERROR_NO_DATA\<close> when
  there is no adapter.
\<close>

datatype adapters_result = ERROR_SUCCESS "adapter_info list" | ERROR_BUFFER_OVERFLOW | ERROR_NO_DATA | ERROR_ADAPTERS nat

record adapter_table =
  without_buffer :: adapters_result
  with_buffer :: adapters_result

section \<open>The code\<close>

definition win_Netadapter_init :: Netadapter where
  "win_Netadapter_init = \<lparr>m_name = [], m_ipv4Addresses = [], m_ipv6Addresses = [], m_macAddress = [],
     m_fwGuid = 0, m_index = 0, m_masterIndex = -1\<rparr>"

definition win_getIpv4DefaultGateway :: string where
  "win_getIpv4DefaultGateway = []"

definition win_isFirewireAdapter :: "'w com \<Rightarrow> wmi \<Rightarrow> Netadapter \<Rightarrow> 'w \<Rightarrow> bool \<times> 'w" where
  "win_isFirewireAdapter com s adapter w = wmi_isFirewireAdapter com adapter s w"

text \<open>\<open>std::hex\<close>, \<open>setw(2)\<close> and \<open>setfill('0')\<close> on a byte, and the loop over the bytes of the address\<close>

definition stream_hex2 :: "u8 \<Rightarrow> string" where
  "stream_hex2 b = (let h = to_hex (unat b) in replicate (2 - length h) (CHR ''0'') @ h)"

fun macStream :: "nat \<Rightarrow> bytes \<Rightarrow> string" where
  "macStream i [] = []"
| "macStream i (b # bs) = (if 0 < i then '':'' else []) @ stream_hex2 b @ macStream (Suc i) bs"

definition win_address :: "adapter_info \<Rightarrow> Ipv4Address" where
  "win_address e =
     (case ai_current e of
        Some (a, m) \<Rightarrow> \<lparr>address = a, netmask = m\<rparr>
      | None \<Rightarrow> \<lparr>address = fst (ai_first e), netmask = snd (ai_first e)\<rparr>)"

definition win_adapter :: "adapter_info \<Rightarrow> Netadapter" where
  "win_adapter e =
     (let Adapt = win_Netadapter_init\<lparr>m_index := ai_index e, m_macAddress := macStream 0 (ai_address e)\<rparr>;
          addressWithNetmask = win_address e;
          Adapt = (if address addressWithNetmask \<noteq> ''0.0.0.0''
                   then Adapt\<lparr>m_ipv4Addresses := m_ipv4Addresses Adapt @ [addressWithNetmask]\<rparr> else Adapt)
      in Adapt\<lparr>m_name := ai_description e\<rparr>)"

definition win_add_adapter :: "adapter_info \<Rightarrow> Adapters \<Rightarrow> Adapters" where
  "win_add_adapter e adapters =
     (let Adapt = win_adapter e in
      if m_ipv4Addresses Adapt \<noteq> [] \<or> m_ipv6Addresses Adapt \<noteq> [] then map_put (ai_index e) Adapt adapters else adapters)"

text \<open>A success without a buffer leaves the pointer to the table at \<open>nullptr\<close>.\<close>

definition win_update :: "adapter_table \<Rightarrow> Adapters \<Rightarrow> Adapters" where
  "win_update t adapters =
     (case without_buffer t of
        ERROR_BUFFER_OVERFLOW \<Rightarrow>
          (case with_buffer t of ERROR_SUCCESS es \<Rightarrow> fold win_add_adapter es [] | _ \<Rightarrow> adapters)
      | ERROR_SUCCESS _ \<Rightarrow> []
      | _ \<Rightarrow> adapters)"

definition win_NetadapterList_init :: "adapter_table \<Rightarrow> Adapters" where
  "win_NetadapterList_init t = win_update t []"

definition win_get :: "Adapters \<Rightarrow> Adapters" where
  "win_get adapters = adapters"

fun win_getArray :: "Adapters \<Rightarrow> Netadapter list" where
  "win_getArray [] = []"
| "win_getArray ((_, a) # adapters) = a # win_getArray adapters"

fun win_getAdapterByName :: "Adapters \<Rightarrow> string \<Rightarrow> string + Netadapter" where
  "win_getAdapterByName [] adapterName = Inl ''invalid interface''"
| "win_getAdapterByName ((_, a) # adapters) adapterName =
     (if m_name a = adapterName then Inr a else win_getAdapterByName adapters adapterName)"

definition win_getAdapterByInterfaceIndex :: "Adapters \<Rightarrow> u32 \<Rightarrow> string + Netadapter" where
  "win_getAdapterByInterfaceIndex adapters interfaceIndex =
     (case map_of adapters interfaceIndex of None \<Rightarrow> Inl ''invalid interface'' | Some a \<Rightarrow> Inr a)"

text \<open>The inner loop of \<open>checkSubnet\<close> over the addresses of an adapter, and the outer one\<close>

fun win_subnet_taken :: "string \<Rightarrow> Ipv4Address list \<Rightarrow> std_exn + bool" where
  "win_subnet_taken requestedSubnet [] = Inr False"
| "win_subnet_taken requestedSubnet (a # addresses) =
     (case getSubnet a of Inl e \<Rightarrow> Inl e | Inr subnet \<Rightarrow>
      if requestedSubnet = subnet then Inr True else win_subnet_taken requestedSubnet addresses)"

fun win_subnet_search :: "string \<Rightarrow> string \<Rightarrow> Adapters \<Rightarrow> std_exn + string" where
  "win_subnet_search excludeAdapterName requestedSubnet [] = Inr []"
| "win_subnet_search excludeAdapterName requestedSubnet ((_, adapter) # adapters) =
     (if excludeAdapterName = m_name adapter then win_subnet_search excludeAdapterName requestedSubnet adapters
      else case win_subnet_taken requestedSubnet (m_ipv4Addresses adapter) of Inl e \<Rightarrow> Inl e | Inr taken \<Rightarrow>
        if taken then Inr (m_name adapter) else win_subnet_search excludeAdapterName requestedSubnet adapters)"

definition win_checkSubnet :: "Adapters \<Rightarrow> string \<Rightarrow> Ipv4Address \<Rightarrow> std_exn + string" where
  "win_checkSubnet adapters excludeAdapterName requestedAddress =
     (case getSubnet requestedAddress of Inl e \<Rightarrow> Inl e | Inr requestedSubnet \<Rightarrow>
      win_subnet_search excludeAdapterName requestedSubnet adapters)"

section \<open>The queries are those of Linux\<close>

lemma win_getArray_eq: "win_getArray = getArray"
proof
  show "win_getArray adapters = getArray adapters" for adapters
    by (induction adapters rule: win_getArray.induct) (auto simp: getArray_def)
qed

lemma win_getAdapterByName_eq: "win_getAdapterByName adapters n = getAdapterByName adapters n"
  by (induction adapters n rule: win_getAdapterByName.induct) auto

lemma win_getAdapterByInterfaceIndex_eq: "win_getAdapterByInterfaceIndex adapters i = getAdapterByInterfaceIndex adapters i"
  by (simp add: win_getAdapterByInterfaceIndex_def getAdapterByInterfaceIndex_def)

lemma win_subnet_taken_eq: "win_subnet_taken s as = occupied s as"
  by (induction s as rule: win_subnet_taken.induct) (auto split: sum.splits)

lemma win_checkSubnet_eq: "win_checkSubnet adapters n a = checkSubnet adapters n a"
proof -
  have "win_subnet_search n s adapters = checkSubnet_loop n s adapters" for s
    by (induction n s adapters rule: win_subnet_search.induct) (auto simp: win_subnet_taken_eq split: sum.splits)
  then show ?thesis by (simp add: win_checkSubnet_def checkSubnet_def split: sum.split)
qed

section \<open>What both lists keep\<close>

definition indexed :: "Adapters \<Rightarrow> bool" where
  "indexed m \<longleftrightarrow> sorted_keys m \<and> (\<forall>(k, a)\<in>set m. m_index a = k)"

text \<open>A list of adapters that is brought up to date again and again\<close>

locale adapter_list =
  fixes refresh :: "'t \<Rightarrow> Adapters \<Rightarrow> Adapters"
  assumes keeps_indexed: "indexed m \<Longrightarrow> indexed (refresh t m)"
begin

lemma history_indexed: "indexed m \<Longrightarrow> indexed (fold refresh ts m)"
  by (induction ts arbitrary: m) (auto intro: keeps_indexed)

end

lemma indexed_Nil [simp]: "indexed []"
  by (simp add: indexed_def)

lemma indexed_Cons: "indexed ((k, a) # m) \<longleftrightarrow> indexed m \<and> m_index a = k \<and> (\<forall>b\<in>set (getArray m). k < m_index b)"
  by (auto simp: indexed_def getArray_def split: prod.splits)

lemma indexed_put: "indexed m \<Longrightarrow> m_index a = k \<Longrightarrow> indexed (map_put k a m)"
  by (auto simp: indexed_def map_put_sorted map_put_set)

lemma indexed_byIndex:
  "indexed m \<Longrightarrow> getAdapterByInterfaceIndex m i = Inr a \<longleftrightarrow> a \<in> set (getArray m) \<and> m_index a = i"
proof (induction m)
  case (Cons p m)
  obtain k b where "p = (k, b)" by fastforce
  with Cons show ?case
    by (auto simp: indexed_Cons getAdapterByInterfaceIndex_def getArray_def split: option.splits)
qed (simp add: getAdapterByInterfaceIndex_def getArray_def)

lemma indexed_byName:
  assumes "indexed m"
  shows "case getAdapterByName m n of
      Inl e \<Rightarrow> \<forall>b\<in>set (getArray m). m_name b \<noteq> n
    | Inr a \<Rightarrow> a \<in> set (getArray m) \<and> m_name a = n \<and> (\<forall>b\<in>set (getArray m). m_name b = n \<longrightarrow> m_index a \<le> m_index b)"
  using assms
proof (induction m n rule: getAdapterByName.induct)
  case (2 k a m n)
  have m: "indexed m" "m_index a = k" "\<forall>b\<in>set (getArray m). k < m_index b" using 2(2) by (simp_all add: indexed_Cons)
  show ?case
  proof (cases "m_name a = n")
    case True
    then show ?thesis using m by (auto simp: getArray_def less_imp_le)
  next
    case False
    then show ?thesis using 2(1) [OF False m(1)] by (auto simp: getArray_def split: sum.splits)
  qed
qed (simp add: getArray_def)

lemma indexed_sorted: "indexed m \<Longrightarrow> sorted_wrt (<) (map m_index (getArray m))"
proof -
  assume i: "indexed m"
  then have "map m_index (getArray m) = map fst m" by (auto simp: indexed_def getArray_def)
  with i show ?thesis by (simp add: indexed_def)
qed

context adapter_list
begin

text \<open>The array is in the order of the indexes, and an index finds the one adapter that has it.\<close>

lemma history_queries:
  assumes "m = fold refresh ts []"
  shows "sorted_wrt (<) (map m_index (getArray m)) \<and>
    (getAdapterByInterfaceIndex m i = Inr a \<longleftrightarrow> a \<in> set (getArray m) \<and> m_index a = i) \<and>
    (case getAdapterByName m n of
       Inl e \<Rightarrow> \<forall>b\<in>set (getArray m). m_name b \<noteq> n
     | Inr a \<Rightarrow> a \<in> set (getArray m) \<and> m_name a = n \<and> (\<forall>b\<in>set (getArray m). m_name b = n \<longrightarrow> m_index a \<le> m_index b))"
proof -
  have "indexed m" using history_indexed [of "[]" ts] assms by simp
  then show ?thesis by (intro conjI indexed_sorted indexed_byIndex indexed_byName)
qed

end

lemma win_adapter_index [simp]: "m_index (win_adapter e) = ai_index e"
  by (simp add: win_adapter_def Let_def)

lemma win_add_adapter_indexed: "indexed m \<Longrightarrow> indexed (win_add_adapter e m)"
  by (simp add: win_add_adapter_def Let_def indexed_put)

interpretation win_list: adapter_list win_update
proof
  fix t m
  assume "indexed m"
  moreover have "indexed (fold win_add_adapter es m)" if "indexed m" for es m
    using that by (induction es arbitrary: m) (auto intro: win_add_adapter_indexed)
  ultimately show "indexed (win_update t m)" by (auto simp: win_update_def split: adapters_result.split)
qed

lemma add_interface_indexed:
  assumes "indexed m"
  shows "indexed (add_interface env e m)"
proof -
  define k where "k = if_index env (ifa_name e)"
  have "m_index (add_address env e (read_master env (identify env e hw k (case map_of m k of None \<Rightarrow> Netadapter_init | Some a \<Rightarrow> a)))) = k"
    for hw
  proof -
    have keep: "m_index (add_address env e (read_master env a)) = m_index a" for a
      by (auto simp: add_address_def read_master_def Let_def split: option.split if_addr.split)
    have "m_index a = k" if "map_of m k = Some a" for a
      using assms map_of_SomeD [OF that] by (auto simp: indexed_def)
    then show ?thesis by (auto simp: keep identify_def Netadapter_init_def split: option.split)
  qed
  then show ?thesis using assms by (auto simp: add_interface_def Let_def k_def intro!: indexed_put)
qed

interpretation linux_list: adapter_list "\<lambda>(env, interfaces). update env interfaces"
proof
  fix t :: "if_env \<times> ifaddr list option" and m
  assume m: "indexed m"
  have "indexed (fold (add_interface env) es m)" if "indexed m" for env es m
    using that by (induction es arbitrary: m) (auto intro: add_interface_indexed)
  with m show "indexed ((case t of (env, interfaces) \<Rightarrow> update env interfaces) m)"
    by (auto simp: update_def split: prod.split option.split)
qed

section \<open>The table and the list\<close>

definition has_address :: "adapter_info \<Rightarrow> bool" where
  "has_address e \<longleftrightarrow> address (win_address e) \<noteq> ''0.0.0.0''"

lemma win_adapter_addresses: "m_ipv4Addresses (win_adapter e) = (if has_address e then [win_address e] else [])"
  "m_ipv6Addresses (win_adapter e) = []"
  by (simp_all add: win_adapter_def has_address_def win_Netadapter_init_def Let_def)

lemma win_add_adapter_eq: "win_add_adapter e m = (if has_address e then map_put (ai_index e) (win_adapter e) m else m)"
  by (simp add: win_add_adapter_def Let_def win_adapter_addresses)

lemma win_fold_lookup:
  "sorted_keys m \<Longrightarrow> map_of (fold win_add_adapter es m) k =
    (case find (\<lambda>e. ai_index e = k \<and> has_address e) (rev es) of None \<Rightarrow> map_of m k | Some e \<Rightarrow> Some (win_adapter e))"
proof (induction es rule: rev_induct)
  case (snoc e es)
  have "sorted_keys (fold win_add_adapter es m)"
    using snoc.prems by (induction es arbitrary: m) (auto simp: win_add_adapter_eq map_put_sorted)
  then have "map_of (map_put (ai_index e) (win_adapter e) (fold win_add_adapter es m)) =
      (map_of (fold win_add_adapter es m))(ai_index e \<mapsto> win_adapter e)" by (rule map_put_lookup)
  from fun_cong [OF this, of k] snoc show ?case
    by (cases "has_address e"; cases "ai_index e = k") (simp_all add: win_add_adapter_eq [of e])
qed simp

text \<open>Lower case\<close>

definition lower :: "char \<Rightarrow> char" where
  "lower c = (let n = of_char c in if 65 \<le> n \<and> n \<le> (90 :: nat) then char_of (n + 32) else c)"

lemma stream_hex2_lower: "stream_hex2 b = map lower (hex2 b)"
proof -
  have d: "digit_char n = lower (upper_hex n)" if "n < 16" for n
    using that by (auto simp: digit_char_def upper_hex_def lower_def Let_def)
  have b: "unat b < 256" using unsigned_less [of b] by simp
  then have h: "unat b div 16 < 16" by simp
  have r: "to_hex n = [digit_char n]" if "n < 16" for n using that by (simp add: radix.simps [of 16 n])
  have z: "digit_char 0 = CHR ''0''" by code_simp
  show ?thesis
  proof (cases "unat b < 16")
    case True
    then show ?thesis using d [of 0] z by (simp add: stream_hex2_def r hex2_def d)
  next
    case False
    then have "to_hex (unat b) = [digit_char (unat b div 16), digit_char (unat b mod 16)]"
      using h by (simp add: radix.simps [of 16 "unat b"] r)
    then show ?thesis using h by (simp add: stream_hex2_def hex2_def d)
  qed
qed

lemma macStream_hw_address: "macStream i bs = (if 0 < i \<and> bs \<noteq> [] then '':'' else []) @ map lower (hw_address bs)"
proof (induction bs arbitrary: i)
  case (Cons b bs)
  have "lower (CHR '':'') = CHR '':''" by (simp add: lower_def)
  moreover have "hw_address (b # bs) = hex2 b @ (if bs = [] then [] else '':'' @ hw_address bs)" by (cases bs) simp_all
  ultimately show ?case using Cons [of "Suc i"] by (simp add: stream_hex2_lower)
qed simp

lemma win_fold_entries:
  "(k, a) \<in> set (fold win_add_adapter es m) \<Longrightarrow> sorted_keys m \<Longrightarrow>
    (k, a) \<in> set m \<or> (\<exists>e\<in>set es. has_address e \<and> a = win_adapter e \<and> k = ai_index e)"
proof (induction es arbitrary: m)
  case (Cons e es)
  have "sorted_keys (win_add_adapter e m)" using Cons.prems(2) by (simp add: win_add_adapter_eq map_put_sorted)
  with Cons.IH [of "win_add_adapter e m"] Cons.prems show ?case
    by (auto simp: win_add_adapter_eq map_put_set split: if_splits)
qed simp

lemma win_history_entries:
  "(k, a) \<in> set (fold win_update ts m) \<Longrightarrow> (k, a) \<in> set m \<or> (\<exists>e. has_address e \<and> a = win_adapter e \<and> k = ai_index e)"
proof (induction ts arbitrary: m)
  case (Cons t ts)
  have "(k, a) \<in> set m \<or> (\<exists>e. has_address e \<and> a = win_adapter e \<and> k = ai_index e)" if "(k, a) \<in> set (win_update t m)"
    using that win_fold_entries [of k a _ "[]"] by (auto simp: win_update_def split: adapters_result.splits)
  with Cons show ?case by auto
qed simp

section \<open>Properties\<close>

text \<open>
  C32: What the list holds after any number of updates, successful or not: every adapter is stored under its index,
  has exactly one IPv4 address, which is not 0.0.0.0, no IPv6 address, no master, and no FireWire identifier.
\<close>

theorem win_adapters_typed:
  assumes "(k, a) \<in> set (fold win_update ts [])"
  shows "m_index a = k \<and> length (m_ipv4Addresses a) = 1 \<and> address (hd (m_ipv4Addresses a)) \<noteq> ''0.0.0.0'' \<and>
    m_ipv6Addresses a = [] \<and> m_masterIndex a = -1 \<and> m_fwGuid a = 0"
  using win_history_entries [OF assms]
  by (auto simp: win_adapter_addresses) (auto simp: win_adapter_def has_address_def win_Netadapter_init_def Let_def)

text \<open>
  C33: After a successful update the list has, for each index, the last entry of the table that has this index and an
  address, and nothing else.
\<close>

theorem win_update_table:
  "map_of (win_update \<lparr>without_buffer = ERROR_BUFFER_OVERFLOW, with_buffer = ERROR_SUCCESS es\<rparr> m) k =
    map_option win_adapter (find (\<lambda>e. ai_index e = k \<and> has_address e) (rev es))"
  using win_fold_lookup [of "[]" es k] by (simp add: win_update_def split: option.split)

text \<open>
  The hardware address is the one that Linux gives for the same bytes, but with lower case letters.
\<close>

theorem win_mac_lower_case:
  "m_macAddress (win_adapter e) = map lower (hw_address (ai_address e))"
  by (simp add: win_adapter_def Let_def macStream_hw_address)

text \<open>
  On both systems, after any number of updates: the array is in the order of the indexes, an
  index finds just the adapter that has it, and a name finds the adapter with the least index of those that have it.
\<close>

theorem adapter_queries:
  assumes "m = fold win_update ts []"
  shows "sorted_wrt (<) (map m_index (win_getArray m)) \<and>
    (win_getAdapterByInterfaceIndex m i = Inr a \<longleftrightarrow> a \<in> set (win_getArray m) \<and> m_index a = i) \<and>
    (case win_getAdapterByName m n of
       Inl e \<Rightarrow> \<forall>b\<in>set (win_getArray m). m_name b \<noteq> n
     | Inr a \<Rightarrow> a \<in> set (win_getArray m) \<and> m_name a = n \<and> (\<forall>b\<in>set (win_getArray m). m_name b = n \<longrightarrow> m_index a \<le> m_index b))"
  unfolding win_getArray_eq win_getAdapterByName_eq win_getAdapterByInterfaceIndex_eq
  by (rule win_list.history_queries [OF assms])

section \<open>Witnesses\<close>

text \<open>An office machine: the second entry is not connected.\<close>

definition office :: "adapter_info list" where
  "office =
     (let e = \<lparr>ai_index = 12, ai_address = [0x00, 0x1B, 0x21, 0xA0, 0xB1, 0xC2], ai_current = None,
          ai_first = (''10.1.2.3'', ''255.255.255.0''), ai_others = [], ai_gateways = [''10.1.2.1''], ai_description = ''LAN''\<rparr>
      in [e, e\<lparr>ai_index := 7, ai_first := (''0.0.0.0'', ''0.0.0.0''), ai_description := ''WLAN''\<rparr>,
          e\<lparr>ai_index := 3, ai_current := Some (''192.168.0.9'', ''255.255.0.0''), ai_description := ''LAN 2''\<rparr>])"

definition office_table :: adapter_table where
  "office_table = \<lparr>without_buffer = ERROR_BUFFER_OVERFLOW, with_buffer = ERROR_SUCCESS office\<rparr>"

theorem win_adapters_typed_witness:
  "(3, win_adapter (office ! 2)) \<in> set (fold win_update [office_table] []) \<and> m_index (win_adapter (office ! 2)) = 3 \<and>
    length (m_ipv4Addresses (win_adapter (office ! 2))) = 1"
proof -
  have "map_of (fold win_update [office_table] []) 3 = Some (win_adapter (office ! 2))"
    using win_fold_lookup [of "[]" office 3]
    by (simp add: office_table_def win_update_def) (simp add: office_def has_address_def win_address_def Let_def)
  note m = map_of_SomeD [OF this]
  from m win_adapters_typed [OF m] show ?thesis by simp
qed

end
