(* ===== verification/Win_Netlink.thy ===== *)
theory Win_Netlink
  imports Netlink Win_Event_Loop Win_Netadapter
begin

text \<open>
  \<open>hbk::communication::Netlink\<close> under Windows (\<^verbatim>\<open>lib/communication/windows/netlink.cpp\<close>): an order for a notification
  when the table of addresses changes. The completion of the order comes through the event loop; then the list of adapters is
  brought up to date, the callback is called, and the next notification is ordered.
\<close>

section \<open>State\<close>

record 'c win_netlink =
  wl_event :: win_event
  wl_handler :: "'c option"

type_synonym ('c, 'h, 'w) wl_state = "'c win_netlink \<times> ('h, 'w) win_loop"

text \<open>
  The system calls: whether the order of an event is pending; \<open>NotifyAddrChange\<close>, with whether the
  order is accepted and the file handle it stores; and \<open>CloseHandle\<close>. The callback gives \<^term>\<open>False\<close> when it throws.
\<close>

record ('c, 'h, 'w) wl_env =
  wl_loop :: "('h, 'w) win_env"
  wl_process :: 'h
  k_create_event :: "'w \<Rightarrow> handle \<times> 'w"
  k_pending :: "handle \<Rightarrow> 'w \<Rightarrow> bool"
  k_notify_addr :: "handle \<Rightarrow> 'w \<Rightarrow> (bool \<times> handle) \<times> 'w"
  k_close_event :: "handle \<Rightarrow> 'w \<Rightarrow> bool \<times> 'w"
  wl_table :: "'w \<Rightarrow> adapter_table"
  wl_adapters :: "'w \<Rightarrow> Adapters"
  set_wl_adapters :: "Adapters \<Rightarrow> 'w \<Rightarrow> 'w"
  run_wl :: "'c \<Rightarrow> event_t \<Rightarrow> u32 \<Rightarrow> string \<Rightarrow> ('c, 'h, 'w) wl_state \<Rightarrow> bool \<times> ('c, 'h, 'w) wl_state"

section \<open>The code\<close>

definition win_Netlink_init :: "('c, 'h, 'w) wl_env \<Rightarrow> ('h, 'w) win_loop \<Rightarrow> ('c, 'h, 'w) wl_state" where
  "win_Netlink_init env l =
     (case k_create_event env (w_world l) of (h, w) \<Rightarrow>
      (\<lparr>wl_event = win_event_init\<lparr>hEvent := h\<rparr>, wl_handler = None\<rparr>, l\<lparr>w_world := w\<rparr>))"

definition orderNextEvent :: "('c, 'h, 'w) wl_env \<Rightarrow> ('c, 'h, 'w) wl_state \<Rightarrow> int \<times> ('c, 'h, 'w) wl_state" where
  "orderNextEvent env = (\<lambda>(s, l).
     if k_pending env (hEvent (wl_event s)) (w_world l) then (0, s, l)
     else case k_notify_addr env (hEvent (wl_event s)) (w_world l) of ((accepted, fh), w) \<Rightarrow>
       (if accepted then 0 else -1, s\<lparr>wl_event := (wl_event s)\<lparr>fileHandle := fh\<rparr>\<rparr>, l\<lparr>w_world := w\<rparr>))"

definition win_tell :: "('c, 'h, 'w) wl_env \<Rightarrow> ('c, 'h, 'w) wl_state \<Rightarrow> bool \<times> ('c, 'h, 'w) wl_state" where
  "win_tell env st = (case wl_handler (fst st) of None \<Rightarrow> (True, st) | Some c \<Rightarrow> run_wl env c COMPLETE 0 [] st)"

definition win_Netlink_process :: "('c, 'h, 'w) wl_env \<Rightarrow> ('c, 'h, 'w) wl_state \<Rightarrow> outcome \<times> ('c, 'h, 'w) wl_state" where
  "win_Netlink_process env = (\<lambda>(s, l).
     let w = w_world l;
         l = l\<lparr>w_world := set_wl_adapters env (win_update (wl_table env w) (wl_adapters env w)) w\<rparr>
     in case win_tell env (s, l) of (ok, st) \<Rightarrow>
       if \<not> ok then (Throws, st) else case orderNextEvent env st of (r, st) \<Rightarrow> (Returns r, st))"

definition win_Netlink_start ::
  "('c, 'h, 'w) wl_env \<Rightarrow> 'c option \<Rightarrow> ('c, 'h, 'w) wl_state \<Rightarrow> outcome \<times> ('c, 'h, 'w) wl_state" where
  "win_Netlink_start env interfaceAddressEventHandler = (\<lambda>(s, l).
     case win_tell env (s\<lparr>wl_handler := interfaceAddressEventHandler\<rparr>, l) of (ok, st) \<Rightarrow>
     if \<not> ok then (Throws, st)
     else case snd (orderNextEvent env st) of (s, l) \<Rightarrow>
       (Returns 0, s, snd (win_addEvent (wl_loop env) (wl_event s) (Some (wl_process env)) l)))"

definition win_Netlink_stop :: "('c, 'h, 'w) wl_env \<Rightarrow> ('c, 'h, 'w) wl_state \<Rightarrow> int \<times> ('c, 'h, 'w) wl_state" where
  "win_Netlink_stop env = (\<lambda>(s, l).
     let l = snd (win_eraseEvent (wl_event s) l)
     in case k_close_event env (hEvent (wl_event s)) (w_world l) of (ok, w) \<Rightarrow> (if ok then 1 else 0, s, l\<lparr>w_world := w\<rparr>))"

definition win_Netlink_destroy :: "('c, 'h, 'w) wl_env \<Rightarrow> ('c, 'h, 'w) wl_state \<Rightarrow> ('h, 'w) win_loop" where
  "win_Netlink_destroy env st = snd (snd (win_Netlink_stop env st))"

section \<open>Orders\<close>

text \<open>
  A number of changes, each the completion of the order and the processing of it. \<^term>\<open>None\<close> when one of them is not
  followed by an order, or throws.
\<close>

fun changes :: "('c, 'h, 'w) wl_env \<Rightarrow> (handle \<Rightarrow> 'w \<Rightarrow> 'w) \<Rightarrow> nat \<Rightarrow> ('c, 'h, 'w) wl_state \<Rightarrow> ('c, 'h, 'w) wl_state option" where
  "changes env finish 0 st = Some st"
| "changes env finish (Suc n) (s, l) =
     (case win_Netlink_process env (s, l\<lparr>w_world := finish (hEvent (wl_event s)) (w_world l)\<rparr>) of (r, st) \<Rightarrow>
      if r = Returns 0 then changes env finish n st else None)"

text \<open>
  The orders that the system holds: one is pending exactly when the system holds one for the event, an accepted one is
  one more, and a completion takes one. The callback, the list, and the completion port do not touch them.
\<close>

locale addr_orders =
  fixes env :: "('c, 'h, 'w) wl_env" and orders :: "handle \<Rightarrow> 'w \<Rightarrow> nat" and finish :: "handle \<Rightarrow> 'w \<Rightarrow> 'w"
  assumes pending: "k_pending env h w \<longleftrightarrow> 0 < orders h w"
    and notify: "k_notify_addr env h w = ((accepted, fh), w') \<Longrightarrow>
      orders h w' = (if accepted then orders h w + 1 else orders h w)"
    and completes: "orders h (finish h w) = orders h w - 1"
    and list: "orders h (set_wl_adapters env m w) = orders h w"
    and port: "k_associate (wl_loop env) f p k w = (e, w') \<Longrightarrow> orders h w' = orders h w"
    and callback: "run_wl env c ev i a (s, l) = (ok, s', l') \<Longrightarrow>
      wl_event s' = wl_event s \<and> orders h (w_world l') = orders h (w_world l)"
begin

lemma order: "orderNextEvent env (s, l) = (r, s', l') \<Longrightarrow> hEvent (wl_event s') = hEvent (wl_event s) \<and>
    (r = 0 \<or> r = -1) \<and>
    (r = 0 \<and> orders (hEvent (wl_event s)) (w_world l) \<le> 1 \<longrightarrow> orders (hEvent (wl_event s)) (w_world l') = 1) \<and>
    (r = -1 \<longrightarrow> orders (hEvent (wl_event s)) (w_world l') = 0)"
  by (auto simp: orderNextEvent_def pending dest: notify split: if_splits prod.splits)

lemma tell:
  "win_tell env (s, l) = (ok, s', l') \<Longrightarrow> wl_event s' = wl_event s \<and> orders h (w_world l') = orders h (w_world l)"
  by (auto simp: win_tell_def dest: callback split: option.splits)

lemma process:
  assumes "win_Netlink_process env (s, l) = (Returns r, s', l')"
  shows "hEvent (wl_event s') = hEvent (wl_event s) \<and> (r = 0 \<or> r = -1) \<and>
    (r = 0 \<and> orders (hEvent (wl_event s)) (w_world l) \<le> 1 \<longrightarrow> orders (hEvent (wl_event s)) (w_world l') = 1) \<and>
    (r = -1 \<longrightarrow> orders (hEvent (wl_event s)) (w_world l') = 0)"
proof -
  let ?h = "hEvent (wl_event s)"
  define w where "w = set_wl_adapters env (win_update (wl_table env (w_world l)) (wl_adapters env (w_world l))) (w_world l)"
  obtain ok s1 l1 where t: "win_tell env (s, l\<lparr>w_world := w\<rparr>) = (ok, s1, l1)" by (metis prod.collapse)
  have o: "orderNextEvent env (s1, l1) = (r, s', l')"
    using assms by (auto simp: win_Netlink_process_def Let_def w_def [symmetric] t split: if_splits prod.splits)
  from tell [OF t, of ?h] have "wl_event s1 = wl_event s" "orders ?h (w_world l1) = orders ?h (w_world l)"
    by (simp_all add: w_def list)
  with order [OF o] show ?thesis by simp
qed

lemma start:
  assumes "win_Netlink_start env cb (s, l) = (Returns r, s', l')" "orders (hEvent (wl_event s)) (w_world l) \<le> 1"
  shows "r = 0 \<and> hEvent (wl_event s') = hEvent (wl_event s) \<and> orders (hEvent (wl_event s)) (w_world l') \<le> 1"
proof -
  let ?h = "hEvent (wl_event s)"
  obtain ok s1 l1 where t: "win_tell env (s\<lparr>wl_handler := cb\<rparr>, l) = (ok, s1, l1)" by (metis prod.collapse)
  obtain q s2 l2 where o: "orderNextEvent env (s1, l1) = (q, s2, l2)" by (metis prod.collapse)
  have r: "r = 0" "s' = s2" "l' = snd (win_addEvent (wl_loop env) (wl_event s2) (Some (wl_process env)) l2)"
    using assms(1) by (auto simp: win_Netlink_start_def t o split: if_splits)
  have "orders ?h (w_world l') = orders ?h (w_world l2)"
    unfolding r(3) by (auto simp: win_addEvent_def Let_def dest: port split: prod.splits option.splits if_splits)
  moreover have "wl_event s1 = wl_event s" "orders ?h (w_world l1) = orders ?h (w_world l)" using tell [OF t, of ?h] by simp_all
  ultimately show ?thesis using order [OF o] assms(2) r(1,2) by auto
qed

text \<open>A number of changes: the completion of the order, and the processing of it\<close>

lemma changes_ordered:
  assumes "changes env finish n (s, l) = Some (s', l')" "orders (hEvent (wl_event s)) (w_world l) \<le> 1" "0 < n"
  shows "orders (hEvent (wl_event s)) (w_world l') = 1"
  using assms
proof (induction n arbitrary: s l)
  case (Suc n)
  let ?l = "l\<lparr>w_world := finish (hEvent (wl_event s)) (w_world l)\<rparr>"
  obtain r s1 l1 where p: "win_Netlink_process env (s, ?l) = (r, s1, l1)" by (metis prod.collapse)
  then have r: "r = Returns 0" "changes env finish n (s1, l1) = Some (s', l')" using Suc.prems(1) by (auto split: if_splits)
  from process [OF p [unfolded r(1)]] Suc.prems(2)
  have "hEvent (wl_event s1) = hEvent (wl_event s)" "orders (hEvent (wl_event s)) (w_world l1) = 1"
    by (auto simp: completes)
  with Suc.IH [of s1 l1] r(2) show ?case by (cases n) auto
qed simp

end

section \<open>A system that computes\<close>

record notify_world =
  n_orders :: nat
  n_told :: nat
  n_adapters :: Adapters

definition notify_env :: "bool \<Rightarrow> (unit, unit, notify_world) wl_env" where
  "notify_env accepts =
     \<lparr>wl_loop = \<lparr>k_create_port = (\<lambda>w. (1, w)), k_get = (\<lambda>_ w. (Nothing, w)), k_post = (\<lambda>_ _ w. (True, w)),
        k_associate = (\<lambda>_ _ _ w. (None, w)), k_close_handle = (\<lambda>_ w. w), win_run = (\<lambda>_ l. (Returns 0, l))\<rparr>,
      wl_process = (), k_create_event = (\<lambda>w. (4, w)), k_pending = (\<lambda>_ w. 0 < n_orders w),
      k_notify_addr = (\<lambda>_ w. ((accepts, 5), if accepts then w\<lparr>n_orders := n_orders w + 1\<rparr> else w)),
      k_close_event = (\<lambda>_ w. (True, w)), wl_table = (\<lambda>_. office_table), wl_adapters = n_adapters,
      set_wl_adapters = (\<lambda>m w. w\<lparr>n_adapters := m\<rparr>),
      run_wl = (\<lambda>_ _ _ _ (s, l). (True, s, l\<lparr>w_world := (w_world l)\<lparr>n_told := n_told (w_world l) + 1\<rparr>\<rparr>))\<rparr>"

interpretation notify: addr_orders "notify_env accepts" "\<lambda>_. n_orders" "\<lambda>_ w. w\<lparr>n_orders := n_orders w - 1\<rparr>" for accepts
  by unfold_locales (auto simp: notify_env_def split: if_splits)

definition notify_loop :: "(unit, notify_world) win_loop" where
  "notify_loop = \<lparr>m_completionPort = 1, w_infos = Map.empty, w_world = \<lparr>n_orders = 0, n_told = 0, n_adapters = []\<rparr>\<rparr>"

section \<open>Properties\<close>



end
