(* ===== verification/Exceptions.thy ===== *)
theory Exceptions
  imports Std_String
begin

text \<open>
  The exceptions of the library (\<^verbatim>\<open>lib/exception/exception.cpp\<close>, \<^verbatim>\<open>errno_exception.cpp\<close>, \<^verbatim>\<open>jsonrpc_exception.cpp\<close>)
  and the trace of the stack that they carry (\<^verbatim>\<open>lib/include/hbk/debug/stack_trace.hpp\<close>).
  A class that extends another is a record that extends the record of the other.
\<close>

section \<open>State\<close>

record exception =
  description :: string
  e_output :: string

record errno_exception = exception +
  errorno :: int

record jsonrpcException = exception +
  m_code :: int
  m_message :: string
  m_what :: string

section \<open>The code\<close>

abbreviation nl :: string where "nl \<equiv> [CHR 0x0A]"

text \<open>
  The trace: for a compiler that is not GNU, and with it for the names that \<open>backtrace_symbols\<close> gives, at most 100.
\<close>

definition backtrace_size :: nat where "backtrace_size = 100"

datatype tracer = Not_Gnu | Gnu "string list option"

definition fill_stack_trace :: "tracer \<Rightarrow> string" where
  "fill_stack_trace t =
     (case t of
        Gnu (Some function_strings) \<Rightarrow>
          nl @ ''----------- stacktrace begin'' @ nl @ nl @
          concat (map (\<lambda>f. f @ nl) (take backtrace_size function_strings)) @ ''----------- stacktrace end'' @ nl
      | Gnu None \<Rightarrow> ''No backtrace!'' @ nl
      | Not_Gnu \<Rightarrow> ''No backtrace!'' @ nl)"

text \<open>The constructor reads the description back as a C string, and \<open>what\<close> gives one.\<close>

definition exception_init :: "tracer \<Rightarrow> string \<Rightarrow> exception" where
  "exception_init t d = \<lparr>description = d, e_output = c_str d @ nl @ fill_stack_trace t\<rparr>"

definition exception_what :: "('a) exception_scheme \<Rightarrow> string" where
  "exception_what e = c_str (e_output e)"

text \<open>
  \<open>errno\<close> is read once before and once after the constructor of the base class, which walks the stack and
  allocates memory.
\<close>

definition errno_exception_init :: "(int \<Rightarrow> string) \<Rightarrow> tracer \<Rightarrow> int \<Rightarrow> int \<Rightarrow> errno_exception" where
  "errno_exception_init strerror t errno_before errno_after =
     exception.extend (exception_init t (strerror errno_before)) (errno_exception.fields errno_after)"

text \<open>\<open>std::to_string\<close> of an \<open>int\<close>\<close>

definition int_to_string :: "int \<Rightarrow> string" where
  "int_to_string i = (if i < 0 then ''-'' @ to_string (nat (- i)) else to_string (nat i))"

definition jsonrpcException_init :: "tracer \<Rightarrow> int \<Rightarrow> string \<Rightarrow> jsonrpcException" where
  "jsonrpcException_init t excCode excMessage =
     exception.extend (exception_init t [])
       (jsonrpcException.fields excCode excMessage
         (''code: '' @ int_to_string excCode @ (if excMessage \<noteq> [] then '', message: '' @ excMessage else [])))"

definition json_code :: "jsonrpcException \<Rightarrow> int" where "json_code e = m_code e"

definition json_message :: "jsonrpcException \<Rightarrow> string" where "json_message e = m_message e"

definition json_what :: "jsonrpcException \<Rightarrow> string" where "json_what e = c_str (m_what e)"

section \<open>Properties\<close>

lemma to_string_inject: "to_string a = to_string b \<Longrightarrow> a = b"
proof -
  have v: "digits_value 10 (to_string n) = n" for n by (simp add: std_string_simps)
  assume "to_string a = to_string b"
  then have "digits_value 10 (to_string a) = digits_value 10 (to_string b)" by (rule arg_cong)
  then show "a = b" unfolding v .
qed

lemma to_string_digits: "c \<in> set (to_string n) \<Longrightarrow> is_digit 10 c"
  by (rule radix_digits) simp_all

text \<open>A number ends before the first character that is no digit.\<close>

lemma to_string_append_inject:
  assumes "to_string a @ s = to_string b @ t" "s = [] \<or> \<not> is_digit 10 (hd s)" "t = [] \<or> \<not> is_digit 10 (hd t)"
  shows "a = b \<and> s = t"
proof -
  have tw: "takeWhile (is_digit 10) (to_string n @ r) = to_string n" if "r = [] \<or> \<not> is_digit 10 (hd r)" for n r
    using to_string_digits [of _ n] that by (cases r) (auto simp: takeWhile_append)
  from tw [OF assms(2), of a] tw [OF assms(3), of b] assms(1) have "to_string a = to_string b" by simp
  with assms(1) to_string_inject show ?thesis by auto
qed

lemma int_to_string_append_inject:
  assumes "int_to_string i @ s = int_to_string j @ t" "s = [] \<or> \<not> is_digit 10 (hd s)" "t = [] \<or> \<not> is_digit 10 (hd t)"
  shows "i = j \<and> s = t"
proof -
  have h: "to_string n \<noteq> CHR ''-'' # r" for n r
    using to_string_digits [of "CHR ''-''" n] is_digit_not_special by fastforce
  show ?thesis
  proof (cases "i < 0")
    case True
    then have "j < 0"
      using assms(1) h by (cases "to_string (nat j)") (auto simp: int_to_string_def split: if_splits)
    with True assms(1) to_string_append_inject [OF _ assms(2,3), of "nat (- i)" "nat (- j)"]
    show ?thesis by (auto simp: int_to_string_def)
  next
    case False
    then have "\<not> j < 0"
      using assms(1) h by (cases "to_string (nat i)") (auto simp: int_to_string_def split: if_splits)
    with False assms(1) to_string_append_inject [OF _ assms(2,3), of "nat i" "nat j"]
    show ?thesis by (auto simp: int_to_string_def)
  qed
qed


text \<open>What \<open>what\<close> tells begins with the description, and when the description has no zero the trace follows.\<close>

theorem exception_what_description:
  "prefix (c_str d @ nl) (exception_what (exception_init t d))"
proof -
  have "c_str (c_str d @ nl @ r) = c_str d @ nl @ c_str r" for r
    by (induction d) (auto simp: c_str_def)
  then show ?thesis by (simp add: exception_what_def exception_init_def)
qed


end
