(* ===== verification/Pid_File.thy ===== *)
theory Pid_File
  imports Exceptions
begin

text \<open>
  \<open>hbk::sys::PidFile\<close> (\<^verbatim>\<open>lib/sys/pidfile.cpp\<close>): a file with the number of the process, which exists as long as the
  object. The file system is a map from paths to contents; what may be created in it, and what an
  error says, are parameters.
\<close>

section \<open>State\<close>

type_synonym file_system = "string \<rightharpoonup> string"

record pid_env =
  BasePath :: string
  may_create :: "string \<Rightarrow> file_system \<Rightarrow> bool"
  create_error :: "string \<Rightarrow> file_system \<Rightarrow> string"
  base_of :: "string \<Rightarrow> string"

text \<open>The member \<open>m_pidFileName\<close> is the object.\<close>

record PidFile =
  m_pidFileName :: string

text \<open>
  \<open>basename\<close> of \<^verbatim>\<open>libgen.h\<close>: the last component of a path, without slashes behind it. Under Windows it
  is a macro that gives the path itself. \<open>BasePath\<close> depends on how the library is built.
\<close>

definition slash :: char where "slash = CHR ''/''"

definition posix_basename :: "string \<Rightarrow> string" where
  "posix_basename p =
     (if p = [] then ''.''
      else let q = rev (dropWhile (\<lambda>c. c = slash) (rev p))
           in if q = [] then ''/'' else rev (takeWhile (\<lambda>c. c \<noteq> slash) (rev q)))"

definition BasePath_standard :: string where "BasePath_standard = []"

definition BasePath_target :: string where "BasePath_target = ''/var/run/''"

section \<open>The code\<close>

definition pid_file_name :: "pid_env \<Rightarrow> string \<Rightarrow> string" where
  "pid_file_name env name = BasePath env @ base_of env (c_str name) @ ''.pid''"

definition PidFile_init :: "pid_env \<Rightarrow> int \<Rightarrow> string \<Rightarrow> file_system \<Rightarrow> (std_exn + PidFile) \<times> file_system" where
  "PidFile_init env getpid name fs =
     (let n = pid_file_name env name in
      if \<not> may_create env n fs
      then (Inl (runtime_error (''could not create pid file '' @ n @ '' '' @ [CHR 0x27] @ create_error env n fs @ [CHR 0x27])), fs)
      else (Inr \<lparr>m_pidFileName = n\<rparr>, fs(n \<mapsto> int_to_string getpid @ nl)))"

definition PidFile_path :: "PidFile \<Rightarrow> string" where
  "PidFile_path p = m_pidFileName p"

definition PidFile_destroy :: "PidFile \<Rightarrow> file_system \<Rightarrow> file_system" where
  "PidFile_destroy p fs = fs(m_pidFileName p := None)"

section \<open>Properties\<close>

lemma posix_basename_component:
  assumes "c \<noteq> []" "slash \<notin> set c"
  shows "posix_basename (d @ slash # c @ replicate n slash) = c" and "posix_basename (c @ replicate n slash) = c"
proof -
  have q: "rev (dropWhile (\<lambda>c. c = slash) (rev (e @ c @ replicate n slash))) = e @ c" for e
  proof -
    have "dropWhile (\<lambda>c. c = slash) (replicate n slash @ rev c @ rev e) = rev c @ rev e"
      using assms by (induction n) (cases "rev c"; auto)+
    then show ?thesis by simp
  qed
  have t: "takeWhile (\<lambda>c. c \<noteq> slash) (rev c @ r) = rev c @ takeWhile (\<lambda>c. c \<noteq> slash) r" for r
    using assms(2) by (intro takeWhile_append2) auto
  show "posix_basename (d @ slash # c @ replicate n slash) = c"
    using q [of "d @ [slash]"] assms(1) t by (simp add: posix_basename_def Let_def)
  show "posix_basename (c @ replicate n slash) = c"
  proof -
    have "rev (takeWhile (\<lambda>c. c \<noteq> slash) (rev c)) = c"
      using t [of "[]"] by (simp only: append_Nil2 takeWhile.simps rev_rev_ident)
    then show ?thesis using q [of "[]"] assms(1) by (simp add: posix_basename_def Let_def)
  qed
qed

text \<open>
  The path that the object tells has the number of the process while the object lives and is gone
  afterwards; every other file is as it was.
\<close>

theorem pid_file_lives:
  assumes "PidFile_init env getpid name fs = (Inr p, fs1)"
  shows "fs1 (PidFile_path p) = Some (int_to_string getpid @ nl) \<and> PidFile_destroy p fs1 (PidFile_path p) = None \<and>
    (\<forall>f. f \<noteq> PidFile_path p \<longrightarrow> fs1 f = fs f \<and> PidFile_destroy p fs1 f = fs f)"
  using assms by (auto simp: PidFile_init_def PidFile_path_def PidFile_destroy_def Let_def split: if_splits)

text \<open>
  Two objects with the same name, in two processes, share one file: it has the number of the second, and
  when the first one ends the file of the second is gone.
\<close>

theorem pid_file_shared:
  assumes "PidFile_init env a name fs = (Inr p, fs1)" and "PidFile_init env b name fs1 = (Inr q, fs2)"
  shows "fs2 (PidFile_path q) = Some (int_to_string b @ nl) \<and> PidFile_destroy p fs2 (PidFile_path q) = None"
  using assms by (auto simp: PidFile_init_def PidFile_path_def PidFile_destroy_def Let_def split: if_splits)

definition free_env :: pid_env where
  "free_env = \<lparr>BasePath = BasePath_target, may_create = (\<lambda>_ _. True), create_error = (\<lambda>_ _. []), base_of = posix_basename\<rparr>"

theorem pid_file_shared_witness:
  "\<exists>p fs1 q fs2. PidFile_init free_env 41 ''/usr/bin/fritz'' Map.empty = (Inr p, fs1) \<and>
    PidFile_init free_env 42 ''/usr/bin/fritz'' fs1 = (Inr q, fs2) \<and> PidFile_path q = ''/var/run/fritz.pid'' \<and>
    PidFile_destroy p fs2 (PidFile_path q) = None"
proof -
  have n: "pid_file_name free_env ''/usr/bin/fritz'' = ''/var/run/fritz.pid''" by code_simp
  have run: "PidFile_init free_env i m fs = (Inr \<lparr>m_pidFileName = pid_file_name free_env m\<rparr>,
      fs(pid_file_name free_env m \<mapsto> int_to_string i @ nl))" for i m fs
    by (simp add: PidFile_init_def free_env_def Let_def)
  from pid_file_shared [OF run [of 41 "''/usr/bin/fritz''" Map.empty] run [of 42]] show ?thesis
    unfolding run by (auto simp: PidFile_path_def n)
qed

end
