(* ===== verification/Execute_Command.thy ===== *)
theory Execute_Command
  imports Exceptions
begin

text \<open>
  \<open>hbk::sys::executeCommand\<close> in its two forms, under Linux (\<^verbatim>\<open>lib/sys/linux/executecommand.cpp\<close>) and under Windows
  (\<^verbatim>\<open>lib/sys/windows/executecommand.cpp\<close>). The one form reads what a command of the shell prints, the other one runs a program
  with parameters and a text for its input. The system calls are parameters; a signal that ends the process, as
  \<open>SIGPIPE\<close> does unless it is ignored, is not modelled.
\<close>

section \<open>Reading what a command prints\<close>

record 'w popen_env =
  k_popen :: "string \<Rightarrow> 'w \<Rightarrow> bool \<times> 'w"
  k_fread :: "nat \<Rightarrow> 'w \<Rightarrow> string \<times> 'w"
  k_pclose :: "'w \<Rightarrow> 'w"

definition closePipe :: "'w popen_env \<Rightarrow> 'w \<Rightarrow> 'w" where
  "closePipe env w = k_pclose env w"

partial_function (option) read_pipe :: "'w popen_env \<Rightarrow> string \<Rightarrow> 'w \<Rightarrow> (string \<times> 'w) option" where
  "read_pipe env retVal w =
     (case k_fread env 1024 w of (d, w) \<Rightarrow>
      if d = [] then Some (retVal, w) else read_pipe env (retVal @ d) w)"

definition executeCommand :: "'w popen_env \<Rightarrow> string \<Rightarrow> 'w \<Rightarrow> ((std_exn + string) \<times> 'w) option" where
  "executeCommand env command w =
     (case k_popen env (c_str command) w of (pipe, w) \<Rightarrow>
      if \<not> pipe then Some (Inl (runtime_error (''executeCommand'' @ ''popen failed (cmd='' @ command @ '')!'')), w)
      else map_option (\<lambda>(retVal, w). (Inr retVal, closePipe env w)) (read_pipe env [] w))"

section \<open>Running a program\<close>

datatype wait_status = Exited nat | Not_Exited nat

definition EXIT_SUCCESS :: nat where "EXIT_SUCCESS = 0"

text \<open>
  How the call ends, in the process that makes it and in its child: it returns, the program is replaced
  by another one, or the process exits. \<open>execve\<close> returns only when it fails.
\<close>

datatype process_end = Returned int | Executes string "string list" | Exits

record 'w process_env =
  k_pipe :: "'w \<Rightarrow> (fd \<times> fd) option \<times> 'w"
  k_fork :: "'w \<Rightarrow> int \<times> 'w"
  k_close_fd :: "fd \<Rightarrow> 'w \<Rightarrow> 'w"
  k_dup2 :: "fd \<Rightarrow> fd \<Rightarrow> 'w \<Rightarrow> bool \<times> 'w"
  k_execve :: "string \<Rightarrow> string list \<Rightarrow> 'w \<Rightarrow> bool"
  k_write_fd :: "fd \<Rightarrow> string \<Rightarrow> 'w \<Rightarrow> nat option \<times> 'w"
  k_waitpid :: "int \<Rightarrow> 'w \<Rightarrow> wait_status option \<times> 'w"
  old_status :: "'w \<Rightarrow> wait_status"

partial_function (option) write_stdin :: "'w process_env \<Rightarrow> fd \<Rightarrow> string \<Rightarrow> 'w \<Rightarrow> 'w option" where
  "write_stdin env fd stdinData w =
     (if stdinData = [] then Some w
      else case k_write_fd env fd stdinData w of (ret, w) \<Rightarrow>
        (case ret of None \<Rightarrow> Some w | Some n \<Rightarrow> write_stdin env fd (drop n stdinData) w))"

definition child_process ::
  "'w process_env \<Rightarrow> fd \<times> fd \<Rightarrow> string \<Rightarrow> string list \<Rightarrow> 'w \<Rightarrow> process_end \<times> 'w" where
  "child_process env = (\<lambda>(pipe_read, pipe_write) command params w.
     let w = k_close_fd env pipe_write w in
     case (if pipe_read \<noteq> 0 then k_dup2 env pipe_read 0 w else (True, w)) of (ok, w) \<Rightarrow>
     if \<not> ok then (Returned (-1), w)
     else
       (let argv = map c_str (command # params)
        in if k_execve env (c_str command) argv w then (Executes (c_str command) argv, w) else (Exits, w)))"

text \<open>What the status holds when \<open>waitpid\<close> fails is what was on the stack before.\<close>

definition parent_process ::
  "'w process_env \<Rightarrow> fd \<times> fd \<Rightarrow> int \<Rightarrow> string \<Rightarrow> 'w \<Rightarrow> (process_end \<times> 'w) option" where
  "parent_process env = (\<lambda>(pipe_read, pipe_write) cpid stdinString w.
     let w = k_close_fd env pipe_read w in
     case write_stdin env pipe_write stdinString w of None \<Rightarrow> None | Some w \<Rightarrow>
     let w = k_close_fd env pipe_write w in
     case k_waitpid env cpid w of (status, w) \<Rightarrow>
     let waitStatus = (case status of None \<Rightarrow> old_status env w | Some s \<Rightarrow> s) in
     Some (Returned (case waitStatus of
         Not_Exited _ \<Rightarrow> -1
       | Exited n \<Rightarrow> if n \<noteq> EXIT_SUCCESS then -1 else 0), w))"

definition executeCommand_params ::
  "'w process_env \<Rightarrow> string \<Rightarrow> string list \<Rightarrow> string \<Rightarrow> 'w \<Rightarrow> (process_end \<times> 'w) option" where
  "executeCommand_params env command params stdinString w =
     (case k_pipe env w of (pfd, w) \<Rightarrow>
      (case pfd of None \<Rightarrow> Some (Returned (-1), w) | Some (pipe_read, pipe_write) \<Rightarrow>
       case k_fork env w of (cpid, w) \<Rightarrow>
       if cpid = -1 then Some (Returned (-1), w)
       else if cpid = 0 then Some (child_process env (pipe_read, pipe_write) command params w)
       else if 0 < cpid then parent_process env (pipe_read, pipe_write) cpid stdinString w
       else Some (Returned (-1), k_close_fd env pipe_write (k_close_fd env pipe_read w))))"

section \<open>Windows\<close>

text \<open>Both forms: the result, and what is printed when the library is built for standard hardware\<close>

definition win_executeCommand :: "bool \<Rightarrow> string \<Rightarrow> string \<times> string" where
  "win_executeCommand standard_hardware command = ([], if standard_hardware then command @ nl else [])"

definition win_executeCommand_params :: "bool \<Rightarrow> string \<Rightarrow> string list \<Rightarrow> string \<Rightarrow> int \<times> string" where
  "win_executeCommand_params standard_hardware command params stdinString =
     (0, if standard_hardware
         then command @ '' '' @ concat (map (\<lambda>iter. iter @ '' '') params) @ '' < '' @ stdinString @ nl else [])"

section \<open>A command that prints\<close>

text \<open>
  The pipes that are open, and what is still to be read from the last one. \<open>fread\<close> gives less than what it is asked for
  only at the end, but no more than a beginning of it is needed here.
\<close>

locale printing_command =
  fixes env :: "'w popen_env" and pipes :: "'w \<Rightarrow> nat" and printed :: "'w \<Rightarrow> string"
  assumes popen: "k_popen env c w = (ok, w') \<Longrightarrow> pipes w' = pipes w + (if ok then 1 else 0)"
    and fread: "k_fread env n w = (d, w') \<Longrightarrow> 0 < n \<Longrightarrow>
      printed w = d @ printed w' \<and> (d = [] \<longleftrightarrow> printed w = []) \<and> pipes w' = pipes w"
    and pclose: "pipes (k_pclose env w) = pipes w - 1"
begin

lemma read_pipe_all: "\<exists>w'. read_pipe env r w = Some (r @ printed w, w') \<and> pipes w' = pipes w"
proof (induction "length (printed w)" arbitrary: r w rule: less_induct)
  case less
  obtain d w' where f: "k_fread env 1024 w = (d, w')" by fastforce
  have q: "printed w = d @ printed w' \<and> (d = [] \<longleftrightarrow> printed w = []) \<and> pipes w' = pipes w"
    by (rule fread [OF f zero_less_numeral])
  have p: "printed w = d @ printed w'" "d = [] \<longleftrightarrow> printed w = []" "pipes w' = pipes w" using q by blast+
  show ?case
  proof (cases "d = []")
    case True
    then have "printed w = []" using p(2) by simp
    then show ?thesis using p(3) True by (subst read_pipe.simps) (simp add: f)
  next
    case False
    then have "length (printed w') < length (printed w)" unfolding p(1) by simp
    from less [OF this, of "r @ d"] False p(3) show ?thesis
      unfolding p(1) by (subst read_pipe.simps) (simp add: f)
  qed
qed

lemma executeCommand_all:
  assumes "k_popen env (c_str command) w = (True, w1)"
  shows "\<exists>w2. executeCommand env command w = Some (Inr (printed w1), w2) \<and> pipes w2 = pipes w"
  using read_pipe_all [of "[]" w1] popen [OF assms]
  by (auto simp: executeCommand_def assms closePipe_def pclose)

end

section \<open>A process and its child\<close>

text \<open>The open file descriptors of the process, and what was written into the pipe\<close>

locale process_pipe =
  fixes env :: "'w process_env" and fds :: "'w \<Rightarrow> fd set" and piped :: "'w \<Rightarrow> string"
  assumes pipe: "k_pipe env w = (Some (r, s), w') \<Longrightarrow> fds w' = fds w \<union> {r, s} \<and> r \<notin> fds w \<and> s \<notin> fds w \<and> piped w' = []"
    and fork: "k_fork env w = (p, w') \<Longrightarrow> fds w' = fds w \<and> piped w' = piped w"
    and close: "fds (k_close_fd env f w) = fds w - {f}" "piped (k_close_fd env f w) = piped w"
    and writes: "k_write_fd env f d w = (Some n, w') \<Longrightarrow> d \<noteq> [] \<Longrightarrow>
      0 < n \<and> n \<le> length d \<and> piped w' = piped w @ take n d \<and> fds w' = fds w"
    and write_error: "k_write_fd env f d w = (None, w') \<Longrightarrow> piped w' = piped w \<and> fds w' = fds w"
    and waitpid: "k_waitpid env p w = (st, w') \<Longrightarrow> fds w' = fds w \<and> piped w' = piped w"
begin

lemma write_stdin_ends:
  "\<exists>w' k. write_stdin env f d w = Some w' \<and> fds w' = fds w \<and> piped w' = piped w @ take k d \<and>
    ((\<forall>d w. fst (k_write_fd env f d w) \<noteq> None) \<longrightarrow> piped w' = piped w @ d)"
proof (induction "length d" arbitrary: d w rule: less_induct)
  case less
  show ?case
  proof (cases "d = []")
    case True
    then show ?thesis by (subst write_stdin.simps) simp
  next
    case False
    obtain ret w1 where k: "k_write_fd env f d w = (ret, w1)" by fastforce
    show ?thesis
    proof (cases ret)
      case None
      then have n: "fst (k_write_fd env f d w) = None" by (simp add: k)
      have "write_stdin env f d w = Some w1" using False k None by (subst write_stdin.simps) simp
      moreover have "piped w1 = piped w @ take 0 d" "fds w1 = fds w" using write_error [OF k [unfolded None]] by simp_all
      ultimately show ?thesis using n by blast
    next
      case (Some n)
      note o = writes [OF k [unfolded Some] False]
      then have "length (drop n d) < length d" by auto
      from less [OF this, of w1] obtain w' k' where w': "write_stdin env f (drop n d) w1 = Some w'" "fds w' = fds w1"
          "piped w' = piped w1 @ take k' (drop n d)"
          "(\<forall>d w. fst (k_write_fd env f d w) \<noteq> None) \<longrightarrow> piped w' = piped w1 @ drop n d" by blast
      have "write_stdin env f d w = Some w'" using False k Some w'(1) by (subst write_stdin.simps) simp
      moreover have "piped w' = piped w @ take (n + k') d" using o w'(3) by (simp add: take_add)
      moreover have "(\<forall>d w. fst (k_write_fd env f d w) \<noteq> None) \<longrightarrow> piped w' = piped w @ d"
        using o w'(4) by auto
      ultimately show ?thesis using w'(2) o by blast
    qed
  qed
qed

lemma parent_runs:
  assumes "fds w = A \<union> {r, s}" "r \<notin> A" "s \<notin> A" "piped w = []"
  shows "\<exists>ret w'. parent_process env (r, s) p d w = Some (Returned ret, w') \<and> fds w' = A \<and> prefix (piped w') d \<and>
    ((\<forall>f d w. fst (k_write_fd env f d w) \<noteq> None) \<longrightarrow> piped w' = d) \<and>
    (\<forall>st. (\<forall>p w. fst (k_waitpid env p w) = Some st) \<longrightarrow> (ret = 0 \<longleftrightarrow> st = Exited 0))"
proof -
  from write_stdin_ends [of s d "k_close_fd env r w", unfolded close assms(4) append_Nil]
  obtain w1 k where w1: "write_stdin env s d (k_close_fd env r w) = Some w1" "fds w1 = fds w - {r}"
      "piped w1 = take k d" "(\<forall>d w. fst (k_write_fd env s d w) \<noteq> None) \<longrightarrow> piped w1 = d" by blast
  obtain st w2 where wt: "k_waitpid env p (k_close_fd env s w1) = (st, w2)" by fastforce
  let ?st = "case st of None \<Rightarrow> old_status env w2 | Some s \<Rightarrow> s"
  let ?ret = "(case ?st of Not_Exited _ \<Rightarrow> -1 | Exited n \<Rightarrow> if n \<noteq> EXIT_SUCCESS then -1 else 0) :: int"
  have "parent_process env (r, s) p d w = Some (Returned ?ret, w2)"
    by (simp add: parent_process_def w1(1) wt Let_def)
  moreover have "fds w2 = A" "piped w2 = piped w1" using waitpid [OF wt] w1(2) assms(1-3) by (auto simp: close)
  moreover have "?ret = 0 \<longleftrightarrow> c = Exited 0" if "\<forall>p w. fst (k_waitpid env p w) = Some c" for c
  proof -
    have "st = Some c" using that wt by (metis fst_conv)
    then show ?thesis by (cases c) (auto simp: EXIT_SUCCESS_def)
  qed
  ultimately show ?thesis using w1(3,4) by (auto simp: take_is_prefix intro!: exI [of _ ?ret])
qed

end

section \<open>A machine that computes\<close>

record small_world =
  o_fds :: "fd list"
  o_piped :: string
  o_printing :: string

definition small_popen :: "small_world popen_env" where
  "small_popen = \<lparr>k_popen = (\<lambda>c w. (True, w\<lparr>o_fds := -1 # o_fds w, o_printing := c\<rparr>)),
     k_fread = (\<lambda>n w. (take (min n 2) (o_printing w), w\<lparr>o_printing := drop (min n 2) (o_printing w)\<rparr>)),
     k_pclose = (\<lambda>w. w\<lparr>o_fds := tl (o_fds w)\<rparr>)\<rparr>"

interpretation small_popen: printing_command small_popen "length \<circ> o_fds" o_printing
  by unfold_locales (auto simp: small_popen_def min_def)

definition new_fd :: "small_world \<Rightarrow> fd" where
  "new_fd w = fold max (o_fds w) 0 + 1"

definition small_process :: "int \<Rightarrow> small_world process_env" where
  "small_process pid =
     \<lparr>k_pipe = (\<lambda>w. (Some (new_fd w, new_fd w + 1), w\<lparr>o_fds := [new_fd w, new_fd w + 1] @ o_fds w, o_piped := []\<rparr>)),
      k_fork = (\<lambda>w. (pid, w)), k_close_fd = (\<lambda>f w. w\<lparr>o_fds := removeAll f (o_fds w)\<rparr>),
      k_dup2 = (\<lambda>_ _ w. (False, w)), k_execve = (\<lambda>_ _ _. True),
      k_write_fd = (\<lambda>_ d w. (Some (min 3 (length d)), w\<lparr>o_piped := o_piped w @ take 3 d\<rparr>)),
      k_waitpid = (\<lambda>_ w. (Some (Exited 0), w)), old_status = (\<lambda>_. Not_Exited 0)\<rparr>"

lemma new_fd_fresh: "new_fd w \<notin> set (o_fds w)" "new_fd w + 1 \<notin> set (o_fds w)"
proof -
  have "m \<le> fold max xs m \<and> (\<forall>x\<in>set xs. x \<le> fold max xs m)" for xs :: "int list" and m
  proof (induction xs arbitrary: m)
    case (Cons x xs)
    from Cons [of "max x m"] show ?case by auto
  qed simp
  then have "\<forall>x\<in>set (o_fds w). x < new_fd w" unfolding new_fd_def by force
  then show "new_fd w \<notin> set (o_fds w)" "new_fd w + 1 \<notin> set (o_fds w)" by force+
qed

interpretation small: process_pipe "small_process pid" "\<lambda>w. set (o_fds w)" o_piped for pid
  by unfold_locales (use new_fd_fresh in \<open>auto simp: small_process_def min_def\<close>)

section \<open>Properties\<close>

text \<open>
  The result is everything that the command prints, however little each read gives, and afterwards no pipe is open
  that was not open before.
\<close>

theorem command_prints_all:
  assumes "printing_command env pipes printed" and "k_popen env (c_str command) w = (True, w1)"
  shows "\<exists>w2. executeCommand env command w = Some (Inr (printed w1), w2) \<and> pipes w2 = pipes w"
  by (rule printing_command.executeCommand_all [OF assms])


text \<open>
  When the process cannot be forked, both ends of the pipe stay open. When it is forked but the input cannot be
  redirected, it is the child that returns from the function, as a second process in the code of the caller.
\<close>

theorem failed_fork_leaks:
  assumes "process_pipe env fds piped" and "k_pipe env w = (Some (r, s), w1)" and "k_fork env w1 = (pid, w2)"
  shows "(pid = -1 \<longrightarrow> (\<exists>w'. executeCommand_params env command params d w = Some (Returned (-1), w') \<and> fds w' = fds w \<union> {r, s})) \<and>
    (pid = 0 \<and> r \<noteq> 0 \<and> (\<forall>f g w. \<not> fst (k_dup2 env f g w)) \<longrightarrow>
      (\<exists>w'. executeCommand_params env command params d w = Some (Returned (-1), w')))"
proof (intro conjI impI)
  assume "pid = -1"
  then show "\<exists>w'. executeCommand_params env command params d w = Some (Returned (-1), w') \<and> fds w' = fds w \<union> {r, s}"
    using process_pipe.pipe [OF assms(1,2)] process_pipe.fork [OF assms(1,3)]
    by (simp add: executeCommand_params_def assms(2,3))
next
  assume c: "pid = 0 \<and> r \<noteq> 0 \<and> (\<forall>f g w. \<not> fst (k_dup2 env f g w))"
  obtain ok w3 where k: "k_dup2 env r 0 (k_close_fd env s w2) = (ok, w3)" by fastforce
  then have "\<not> ok" using c by (metis fst_conv)
  then show "\<exists>w'. executeCommand_params env command params d w = Some (Returned (-1), w')"
    using c by (simp add: executeCommand_params_def assms(2,3) child_process_def k)
qed

definition small_start :: small_world where
  "small_start = \<lparr>o_fds = [0, 1, 2], o_piped = [], o_printing = []\<rparr>"

theorem command_prints_all_witness:
  "\<exists>w2. executeCommand small_popen ''hallo'' small_start = Some (Inr ''hallo'', w2) \<and> length (o_fds w2) = 3"
proof -
  have c: "c_str ''hallo'' = ''hallo''" by (rule c_str_id) simp
  have "k_popen small_popen (c_str ''hallo'') small_start = (True, small_start\<lparr>o_fds := [-1, 0, 1, 2], o_printing := ''hallo''\<rparr>)"
    by (simp add: small_popen_def small_start_def c)
  from command_prints_all [OF small_popen.printing_command_axioms this] show ?thesis
    by (simp add: small_start_def numeral_3_eq_3)
qed


theorem failed_fork_leaks_witness:
  "(\<exists>w'. executeCommand_params (small_process (-1)) ''/usr/bin/wc'' [] [] small_start = Some (Returned (-1), w') \<and>
      set (o_fds w') = {0, 1, 2} \<union> {3, 4})"
proof -
  have p: "k_pipe (small_process (-1)) small_start = (Some (3, 4), small_start\<lparr>o_fds := [3, 4, 0, 1, 2]\<rparr>)"
    by (simp add: small_process_def small_start_def new_fd_def)
  have f: "k_fork (small_process (-1)) w = (-1, w)" for w by (simp add: small_process_def)
  from failed_fork_leaks [OF small.process_pipe_axioms p f, of "''/usr/bin/wc''" "[]" "[]"] show ?thesis
    by (simp add: small_start_def)
qed

end
