(* ===== verification/Echo_Tools.thy ===== *)
theory Echo_Tools
  imports Tcp_Server
begin

text \<open>
  The two tools that talk to each other: the echo server (\<^verbatim>\<open>tool/communication/Server.cpp\<close>) and
  the client that measures it (\<^verbatim>\<open>tool/communication/Client.cpp\<close>), with the Linux sources of the
  library below them. What they print is left out, apart from the client's complaints.

  The locale \<open>peer\<close> states what a healthy connection promises beyond \<open>wire\<close>: sending succeeds in
  the end, the other side answers what it is sent with \<open>reply\<close>, and reading gives nothing only at the
  end. The lemmas show what the transfers return then, that the server gives back what it was sent,
  and that the client is content with a peer that echoes.
\<close>

section \<open>The server\<close>

text \<open>
  The callback for an accepted connection; \<open>buffer\<close> is its only byte, not initialised at first. The
  loop goes on after an error, with what the buffer held before.
\<close>

partial_function (option) echo_cb ::
  "'w sock_io \<Rightarrow> fd \<Rightarrow> u8 \<Rightarrow> BufferedReader \<Rightarrow> 'w \<Rightarrow> (BufferedReader \<times> 'w) option" where
  "echo_cb io fd buffer r w =
     Option.bind (receiveComplete io fd r w [buffer] 1 (-1)) (\<lambda>(result, block, r, w).
       if result = 0 then Some (r, w)
       else Option.bind (sendBlock io fd block False w) (\<lambda>(_, w). echo_cb io fd (hd block) r w))"

text \<open>How a program ends: by a return from \<open>main\<close>, or by an exception nobody catches.\<close>

datatype main_end = Exits int | Terminates

text \<open>
  A parameter that \<open>std::stoul\<close> takes is a port; whatever is thrown, also by the start of the TCP
  server, makes it the path of a unix domain socket. The result of either start is not looked at.
\<close>

definition server_start ::
  "('cb, 'd, 'h, 'w) server_env \<Rightarrow> 'cb \<Rightarrow> string \<Rightarrow> ('cb, 'h, 'w) server_state
    \<Rightarrow> (outcome \<times> ('cb, 'h, 'w) server_state) option" where
  "server_start env cb arg st =
     (case stoul 10 arg of
        Inl e \<Rightarrow> start_unix env arg False 1 (Some cb) st
      | Inr port \<Rightarrow> Option.bind (start_tcp env (ucast port) 1 (Some cb) st) (\<lambda>(r, st).
          case r of Throws \<Rightarrow> start_unix env arg False 1 (Some cb) st | Returns n \<Rightarrow> Some (Returns n, st)))"

text \<open>\<open>argv\<close> holds the name of the program first. The inner \<^term>\<open>None\<close> is a crash of the event loop.\<close>

definition server_main ::
  "('cb, 'd, 'h, 'w) server_env \<Rightarrow> 'cb \<Rightarrow> string list \<Rightarrow> ('h, 'w) loop \<Rightarrow> (main_end option \<times> ('h, 'w) loop) option" where
  "server_main env cb argv l =
     (if length argv \<noteq> 2 then Some (Some (Exits 0), l)
      else Option.bind (server_start env cb (argv ! 1) (TcpServer_init, l)) (\<lambda>(r, s, l).
        case r of
          Throws \<Rightarrow> Some (Some Terminates, l)
        | Returns _ \<Rightarrow> Option.bind (execute (v_loop env) l) (\<lambda>(r, l).
            case r of None \<Rightarrow> Some (None, l) | Some _ \<Rightarrow> Some (Some (Exits 0), TcpServer_destroy env (s, l)))))"

section \<open>The client\<close>

text \<open>\<open>strncmp\<close> finds no difference\<close>

fun strncmp_equal :: "nat \<Rightarrow> bytes \<Rightarrow> bytes \<Rightarrow> bool" where
  "strncmp_equal (Suc n) (a # as) (b # bs) \<longleftrightarrow> a = b \<and> (a = 0 \<or> strncmp_equal n as bs)"
| "strncmp_equal n as bs \<longleftrightarrow> True"

datatype complaint = Not_sent int | Unexpected_amount int | Unexpected_data

text \<open>The cycles still to do; \<^term>\<open>False\<close> is the return of \<open>EXIT_FAILURE\<close>.\<close>

primrec client_cycles ::
  "'w sock_io \<Rightarrow> fd \<Rightarrow> bytes \<Rightarrow> nat \<Rightarrow> bytes \<Rightarrow> BufferedReader \<Rightarrow> 'w
    \<Rightarrow> (bool \<times> complaint list \<times> BufferedReader \<times> 'w) option" where
  "client_cycles io fd sndBuffer 0 recvBuffer r w = Some (True, [], r, w)"
| "client_cycles io fd sndBuffer (Suc cycles) recvBuffer r w =
     Option.bind (sendBlock io fd sndBuffer False w) (\<lambda>(result, w).
       if result \<noteq> int (length sndBuffer) then Some (False, [Not_sent result], r, w)
       else Option.bind (receiveComplete io fd r w recvBuffer (length sndBuffer) (-1)) (\<lambda>(result, recvBuffer, r, w).
         if result \<noteq> int (length sndBuffer) then Some (False, [Unexpected_amount result], r, w)
         else map_option (\<lambda>(ok, complaints, rw).
             (ok, (if strncmp_equal (length sndBuffer) recvBuffer sndBuffer then [] else [Unexpected_data]) @ complaints, rw))
           (client_cycles io fd sndBuffer cycles recvBuffer r w)))"

definition cycleCount :: nat where "cycleCount = 10000"

text \<open>What \<open>snprintf\<close> leaves in the buffer, which is not initialised behind the text\<close>

definition hallo :: "u32 \<Rightarrow> bytes \<Rightarrow> bytes" where
  "hallo processId sndBuffer =
     copy_to 0 (map of_char (''hallo ('' @ to_string (unat processId) @ '')'') @ [0]) sndBuffer"

text \<open>
  The arrays are what they hold at first. The event loop of the client is never executed; it ends
  after the socket.
\<close>

definition client_main ::
  "('cb, 'h, 'w) socket_env \<Rightarrow> string list \<Rightarrow> u32 \<Rightarrow> bytes \<Rightarrow> bytes \<Rightarrow> bytes \<Rightarrow> epoll_event list \<Rightarrow> 'w
    \<Rightarrow> (main_end \<times> complaint list \<times> 'w) option" where
  "client_main env argv processId sndBuffer recvBuffer readerBuffer loopEvents w =
     (if length argv < 2 then Some (Exits 0, [], w)
      else case EventLoop_init (e_loop env) loopEvents w of
        (Inl e, w) \<Rightarrow> Some (Terminates, [], w)
      | (Inr l, w) \<Rightarrow>
          Option.bind
            (if 3 \<le> length argv then connect_tcp env (argv ! 1) (argv ! 2) (Socket_init, l)
             else connect_unix env (argv ! 1) False (Socket_init, l)) (\<lambda>(r, s, l).
            case r of
              Throws \<Rightarrow> Some (Terminates, [], world l)
            | Returns retval \<Rightarrow>
                if retval \<noteq> 0 then
                  Some (Exits 1, [], EventLoop_destroy (e_loop env) (Socket_destroy env (s, l)))
                else map_option (\<lambda>(ok, complaints, r, w).
                    (Exits (if ok then 0 else 1), complaints,
                     EventLoop_destroy (e_loop env) (Socket_destroy env (s, l\<lparr>world := w\<rparr>))))
                  (client_cycles (k_io (e_net env)) (m_event s) (hallo processId sndBuffer) cycleCount recvBuffer
                     (BufferedReader_init readerBuffer) (world l))))"

section \<open>A healthy connection\<close>

text \<open>Reads fail only because there is nothing to read yet.\<close>

definition steady_reads :: "'w sock_io \<Rightarrow> fd \<Rightarrow> bool" where
  "steady_reads io fd \<longleftrightarrow> (\<forall>ls w e w'. s_readv io fd ls w = (Inl e, w') \<longrightarrow> e = EAGAIN)"

locale peer = wire +
  fixes reply :: "bytes \<Rightarrow> bytes"
  assumes reply_append: "reply (a @ b) = reply a @ reply b"
    and send_replies: "s_send io fd d fl w = (Inr k, w') \<Longrightarrow> upcoming w' = upcoming w @ reply (take k d) \<and> (d \<noteq> [] \<longrightarrow> 0 < k)"
    and send_refused: "s_send io fd d fl w = (Inl e, w') \<Longrightarrow> upcoming w' = upcoming w \<and> transient e"
    and readv_keeps: "s_readv io fd ls w = (got, w') \<Longrightarrow> sent w' = sent w"
    and readv_end: "s_readv io fd ls w = (Inr [], w') \<Longrightarrow> sum_list ls = 0 \<or> upcoming w = []"
    and readv_fails: "s_readv io fd ls w = (Inl e, w') \<Longrightarrow> patience w' < patience w"
    and poll_ready: "s_poll io fd ev t w = (n, w') \<Longrightarrow> n = Inr 1 \<or> n = Inl EINTR"
begin

lemma reply_Nil: "reply [] = []"
  using reply_append [of "[]" "[]"] by simp

lemma poll_retry_ready: "\<exists>w'. poll_retry (s_poll io fd ev t) w = Some (Inr 1, w') \<and> sent w' = sent w \<and>
   upcoming w' = upcoming w \<and> patience w' \<le> patience w"
proof (induction "patience w" arbitrary: w rule: less_induct)
  case less
  obtain r w1 where p: "s_poll io fd ev t w = (r, w1)" by fastforce
  show ?case
  proof (cases "r = Inl EINTR")
    case True
    with poll_frame [OF p] less [of w1] p show ?thesis
      by (subst poll_retry.simps) (auto intro: le_trans)
  next
    case False
    with poll_ready [OF p] poll_frame [OF p] p show ?thesis by (subst poll_retry.simps) auto
  qed
qed

lemma sendBlock_loop_replied:
  "\<exists>w'. sendBlock_loop io fd fl len d w = Some (int len, w') \<and> sent w' = sent w @ d \<and>
     upcoming w' = upcoming w @ reply d \<and> patience w' \<le> patience w"
proof (induction "(length d, patience w)" arbitrary: d w rule: wf_induct_rule [OF wf_lex_prod [OF wf_less wf_less]])
  case (1 d w)
  note IH = "1" [unfolded in_lex_prod]
  show ?case
  proof (cases "d = []")
    case True
    then show ?thesis by (subst sendBlock_loop.simps) (simp add: reply_Nil)
  next
    case False
    then have pos_len: "0 < length d" by simp
    obtain res w1 where s: "s_send io fd d fl w = (res, w1)" by fastforce
    show ?thesis
    proof (cases res)
      case (Inr n)
      note ok = send_ok [OF s [unfolded Inr]] send_replies [OF s [unfolded Inr]]
      with False have n: "0 < n" by simp
      have "sendBlock_loop io fd fl len d w = sendBlock_loop io fd fl len (drop n d) w1"
        by (subst sendBlock_loop.simps) (use s Inr False n in simp)
      moreover obtain w' where "sendBlock_loop io fd fl len (drop n d) w1 = Some (int len, w')"
        "sent w' = sent w1 @ drop n d" "upcoming w' = upcoming w1 @ reply (drop n d)" "patience w' \<le> patience w1"
        using IH [of "drop n d" w1] n pos_len by auto
      moreover have "reply d = reply (take n d) @ reply (drop n d)" by (simp flip: reply_append)
      ultimately show ?thesis using ok by simp
    next
      case (Inl e)
      note er = send_error [OF s [unfolded Inl]] send_refused [OF s [unfolded Inl]]
      obtain w2 where p: "waitForWritable io fd (-1) w1 = Some (Inr 1, w2)" "sent w2 = sent w1" "upcoming w2 = upcoming w1"
        "patience w2 \<le> patience w1"
        using poll_retry_ready [of POLLOUT "-1" w1] by (auto simp: waitForWritable_def)
      define w3 where "w3 = (if e = EAGAIN then w2 else w1)"
      have "sendBlock_loop io fd fl len d w = sendBlock_loop io fd fl len d w3"
        by (subst sendBlock_loop.simps) (use s Inl False er p in \<open>auto simp: w3_def transient_def\<close>)
      moreover have "patience w3 < patience w" "sent w3 = sent w" "upcoming w3 = upcoming w"
        using er p by (auto simp: w3_def)
      ultimately show ?thesis using IH [of d w3] by auto
    qed
  qed
qed

lemma sendBlock_replied:
  "\<exists>w'. sendBlock io fd d m w = Some (int (length d), w') \<and> sent w' = sent w @ d \<and>
     upcoming w' = upcoming w @ reply d \<and> patience w' \<le> patience w"
  unfolding sendBlock_def Let_def by (rule sendBlock_loop_replied)

lemma recv_progress:
  assumes "reader_ok r" "left r = [] \<or> n \<le> length (left r)" "n \<le> length buf" "0 < n"
    and rc: "recv (s_readv io fd) r w buf n = (res, buf', r', w')"
  shows "sent w' = sent w \<and> patience w' \<le> patience w \<and>
    (case res of Inl e \<Rightarrow> patience w' < patience w \<and> (steady_reads io fd \<longrightarrow> e = EAGAIN)
     | Inr k \<Rightarrow> k = 0 \<longrightarrow> left r @ upcoming w = [])"
proof (cases "left r = []")
  case True
  obtain rd w1 where rd: "s_readv io fd [n, buffer_size] w = (rd, w1)" by fastforce
  note keeps = readv_keeps [OF rd]
  note fresh = source.recv_nothing_left [OF assms(1) True assms(4,3), of w]
  show ?thesis
  proof (cases rd)
    case (Inl e)
    with fresh rc rd have "res = Inl e" "w' = w1" by auto
    with keeps readv_fails [OF rd [unfolded Inl]] rd Inl show ?thesis
      by (auto simp: steady_reads_def)
  next
    case (Inr bs)
    with fresh rc rd have "w' = w1" "res = Inr (length (take n bs))" by auto
    with keeps readv_ok [OF rd [unfolded Inr]] readv_end [of "[n, buffer_size]" w w1] rd Inr True assms(4)
    show ?thesis by (auto simp: min_def split: if_splits)
  qed
next
  case False
  with assms(2) have "n \<le> length (left r)" by simp
  from recv_from_left [OF assms(1) this, of "s_readv io fd" w buf] rc assms(4)
  show ?thesis by auto
qed

abbreviation "take_bytes t \<equiv> receive_loop (recv (s_readv io fd)) (\<lambda>e. e = EWOULDBLOCK \<or> e = EAGAIN) (waitForReadable io fd t)"

lemma receive_loop_progress:
  "take_bytes t len n block r w = Some (ret, block', r', w') \<Longrightarrow> reader_ok r \<Longrightarrow>
   left r = [] \<or> n \<le> length (left r) \<Longrightarrow> n \<le> len \<Longrightarrow> len \<le> length block \<Longrightarrow>
   sent w' = sent w \<and> patience w' \<le> patience w \<and>
   (ret = -1 \<longrightarrow> patience w' < patience w \<and> \<not> steady_reads io fd) \<and>
   (0 \<le> ret \<and> ret < int len \<longrightarrow> left r' @ upcoming w' = [])"
proof (induction "(n, patience w)" arbitrary: n block r w
    rule: wf_induct_rule [OF wf_lex_prod [OF wf_less wf_less]])
  case (1 n w)
  note IH = "1"(1) [unfolded in_lex_prod]
  show ?case
  proof (cases "n = 0")
    case True
    then show ?thesis using "1"(2) by (subst (asm) receive_loop.simps) auto
  next
    case False
    let ?part = "drop (len - n) block"
    have le: "n \<le> length ?part" using "1.prems" by simp
    obtain res part r1 w1 where rc: "recv (s_readv io fd) r w ?part n = (res, part, r1, w1)"
      by (metis prod_cases4)
    note prog = recv_progress [OF "1.prems"(2,3) le _ rc]
    show ?thesis
    proof (cases res)
      case (Inr k)
      from source.linux_reader.recv_bytes [OF "1.prems"(2,3) le rc [unfolded Inr]]
      obtain bs where bs: "k \<le> n" "reader_ok r1" "left r1 = [] \<or> n - k \<le> length (left r1)" "length bs = k"
        "part = copy_to 0 bs ?part" "left r @ upcoming w = bs @ left r1 @ upcoming w1" by blast
      show ?thesis
      proof (cases "k = 0")
        case True
        with "1.prems"(1) rc Inr False have "ret = int (len - n)" "r' = r1" "w' = w1"
          by (subst (asm) receive_loop.simps, simp)+
        with prog Inr True False bs show ?thesis by auto
      next
        case pos: False
        have "take_bytes t len (n - k) (take (len - n) block @ part) r1 w1 = Some (ret, block', r', w')"
          using "1.prems"(1) rc Inr False pos by (subst (asm) receive_loop.simps) (simp add: Let_def)
        moreover have "length (take (len - n) block @ part) = length block"
          using "1.prems"(4,5) bs(1,4,5) by (simp add: copy_to_0)
        moreover have "n - k < n" "n - k \<le> len" using False pos "1.prems"(4) by simp_all
        ultimately have "sent w' = sent w1 \<and> patience w' \<le> patience w1 \<and>
            (ret = -1 \<longrightarrow> patience w' < patience w1 \<and> \<not> steady_reads io fd) \<and>
            (0 \<le> ret \<and> ret < int len \<longrightarrow> left r' @ upcoming w' = [])"
          using IH [of "n - k" w1 "take (len - n) block @ part" r1] bs(2,3) "1.prems"(5) by simp
        with prog False Inr show ?thesis by auto
      qed
    next
      case (Inl e)
      note er = source.linux_reader.recv_error [OF "1.prems"(2,3) le rc [unfolded Inl]]
      obtain w2 where p: "waitForReadable io fd t w1 = Some (True, w2)" "sent w2 = sent w1" "upcoming w2 = upcoming w1"
        "patience w2 \<le> patience w1"
        using poll_retry_ready [of POLLIN t w1] by (auto simp: waitForReadable_def)
      show ?thesis
      proof (cases "e = EAGAIN")
        case True
        have "take_bytes t len n (take (len - n) block @ part) r1 w2 = Some (ret, block', r', w')"
          using "1.prems"(1) rc Inl False True p by (subst (asm) receive_loop.simps) (simp add: Let_def)
        then show ?thesis
          using IH [of n w2 "take (len - n) block @ part" r1] er "1.prems"(4,5) prog False Inl p by auto
      next
        case no: False
        with "1.prems"(1) rc Inl False have "ret = -1" "w' = w1"
          by (subst (asm) receive_loop.simps, simp)+
        with prog Inl False no show ?thesis by auto
      qed
    qed
  qed
qed

lemma receiveComplete_replied:
  assumes "reader_ok r" "left r = [] \<or> n \<le> length (left r)" "n \<le> length buf"
  shows "\<exists>ret r' w' bs. receiveComplete io fd r w buf n t = Some (ret, bs @ drop (length bs) buf, r', w') \<and>
    reader_ok r' \<and> sent w' = sent w \<and> patience w' \<le> patience w \<and>
    left r @ upcoming w = bs @ left r' @ upcoming w' \<and> length bs \<le> n \<and>
    (ret = int (length bs) \<and> (length bs = n \<or> left r' @ upcoming w' = []) \<or>
     ret = -1 \<and> length bs < n \<and> patience w' < patience w \<and> \<not> steady_reads io fd)"
proof -
  from blocking_recv.receive_loop_bytes [OF receive_contract, of r n n buf t w] assms
  obtain ret r' w' bs where rc: "receiveComplete io fd r w buf n t = Some (ret, bs @ drop (length bs) buf, r', w')"
    "reader_ok r'" "left r @ upcoming w = bs @ left r' @ upcoming w'" "length bs \<le> n"
    "ret = int (length bs) \<or> ret = -1 \<and> length bs < n"
    unfolding receiveComplete_def by (auto simp: copy_to_0)
  from receive_loop_progress [OF rc(1) [unfolded receiveComplete_def] assms(1,2) order_refl assms(3)] rc
  show ?thesis by fastforce
qed

end

text \<open>The other side sends what it sends, whatever it is answered.\<close>

locale quiet_peer = peer io fd sent upcoming patience "\<lambda>_. []"
  for io :: "'w sock_io" and fd :: fd and sent upcoming :: "'w \<Rightarrow> bytes" and patience :: "'w \<Rightarrow> nat"

text \<open>What the server makes of what it is sent: after an error, the byte before comes once more.\<close>

inductive echoed :: "u8 \<Rightarrow> bytes \<Rightarrow> bytes \<Rightarrow> bool" where
  closed: "echoed c [] []"
| byte: "echoed b bs out \<Longrightarrow> echoed c (b # bs) (b # out)"
| again: "echoed c bs out \<Longrightarrow> echoed c bs (c # out)"

lemma echoed_subseq: "echoed c bs out \<Longrightarrow> subseq bs out \<and> set out \<subseteq> insert c (set bs)"
  by (induction rule: echoed.induct) auto

context quiet_peer
begin

lemma echo_cb_echoes:
  "reader_ok r \<Longrightarrow> \<exists>r' w' out. echo_cb io fd c r w = Some (r', w') \<and> sent w' = sent w @ out \<and>
     echoed c (left r @ upcoming w) out \<and> (steady_reads io fd \<longrightarrow> out = left r @ upcoming w) \<and>
     left r' @ upcoming w' = []"
proof (induction "(length (left r @ upcoming w), patience w)" arbitrary: c r w
    rule: wf_induct_rule [OF wf_lex_prod [OF wf_less wf_less]])
  case (1 r w c)
  have one: "left r = [] \<or> 1 \<le> length (left r)" "1 \<le> length [c]" by (cases "left r") simp_all
  obtain ret r1 w1 bs where
    rc: "receiveComplete io fd r w [c] 1 (-1) = Some (ret, bs @ drop (length bs) [c], r1, w1)"
    and ok: "reader_ok r1" "sent w1 = sent w" "patience w1 \<le> patience w"
    and l: "left r @ upcoming w = bs @ left r1 @ upcoming w1" "length bs \<le> 1"
    and ret: "ret = int (length bs) \<and> (length bs = 1 \<or> left r1 @ upcoming w1 = []) \<or>
     ret = -1 \<and> length bs < 1 \<and> patience w1 < patience w \<and> \<not> steady_reads io fd"
    using receiveComplete_replied [OF 1(2), of 1 "[c]" w "-1", OF one] by blast
  define b where "b = (if bs = [] then c else hd bs)"
  have block: "bs @ drop (length bs) [c] = [b]" using l(2) by (cases bs) (simp_all add: b_def)
  have got: "ret = 0 \<and> left r @ upcoming w = [] \<and> left r1 @ upcoming w1 = [] \<or>
     ret = -1 \<and> b = c \<and> left r1 @ upcoming w1 = left r @ upcoming w \<and> patience w1 < patience w \<and>
       \<not> steady_reads io fd \<or>
     ret = 1 \<and> left r @ upcoming w = b # left r1 @ upcoming w1"
  proof (cases bs)
    case Nil
    with l ret show ?thesis by (auto simp: b_def)
  next
    case (Cons a as)
    with l ret show ?thesis by (simp add: b_def)
  qed
  obtain w2 where sb: "sendBlock io fd [b] False w1 = Some (1, w2)" "sent w2 = sent w1 @ [b]"
    "upcoming w2 = upcoming w1" "patience w2 \<le> patience w1"
    using sendBlock_replied [of "[b]"] by auto
  show ?case
  proof (cases "ret = 0")
    case True
    with rc ok got show ?thesis by (subst echo_cb.simps) (simp add: block echoed.closed)
  next
    case False
    have "length (left r1 @ upcoming w2) < length (left r @ upcoming w) \<or>
       left r1 @ upcoming w2 = left r @ upcoming w \<and> patience w2 < patience w"
      using False got sb(3,4) by (auto simp del: length_append)
    then have "(length (left r1 @ upcoming w2), length (left r @ upcoming w)) \<in> {(x, y). x < y} \<or>
       length (left r1 @ upcoming w2) = length (left r @ upcoming w) \<and> (patience w2, patience w) \<in> {(x, y). x < y}"
      by (elim disjE) (simp_all del: length_append)
    from 1(1) [unfolded in_lex_prod, OF this ok(1), of b] obtain r' w' out where ih: "echo_cb io fd b r1 w2 = Some (r', w')" "sent w' = sent w2 @ out"
      "echoed b (left r1 @ upcoming w2) out" "steady_reads io fd \<longrightarrow> out = left r1 @ upcoming w2"
      "left r' @ upcoming w' = []"
      by blast
    have "echo_cb io fd c r w = Some (r', w')"
      by (subst echo_cb.simps) (use rc False sb ih in \<open>simp add: block\<close>)
    moreover have "echoed c (left r @ upcoming w) (b # out)"
      using False got ih(3) sb(3) by (auto intro: echoed.intros)
    moreover have "steady_reads io fd \<longrightarrow> b # out = left r @ upcoming w"
      using False got ih(4) sb(3) by auto
    moreover have "sent w' = sent w @ b # out" using ih(2) sb(2) ok(2) by simp
    ultimately show ?thesis using ih(5) by blast
  qed
qed

end

text \<open>The other side gives back what it is sent.\<close>

locale echo_peer = peer io fd sent upcoming patience "\<lambda>d. d"
  for io :: "'w sock_io" and fd :: fd and sent upcoming :: "'w \<Rightarrow> bytes" and patience :: "'w \<Rightarrow> nat"

lemma strncmp_equal_same: "strncmp_equal n (bs @ cs) bs"
proof (induction bs arbitrary: n)
  case (Cons b bs)
  then show ?case by (cases n) simp_all
qed (simp add: strncmp_equal.simps)

context echo_peer
begin

lemma client_cycles_content:
  assumes "steady_reads io fd" "length sndBuffer \<le> length recvBuffer" "reader_ok r" "left r @ upcoming w = []"
  shows "\<exists>r' w'. client_cycles io fd sndBuffer cycles recvBuffer r w = Some (True, [], r', w') \<and>
     sent w' = sent w @ concat (replicate cycles sndBuffer) \<and> left r' @ upcoming w' = []"
  using assms
proof (induction cycles arbitrary: recvBuffer r w)
  case (Suc cycles)
  obtain w1 where s: "sendBlock io fd sndBuffer False w = Some (int (length sndBuffer), w1)"
    "sent w1 = sent w @ sndBuffer" "upcoming w1 = sndBuffer"
    using sendBlock_replied [of sndBuffer False w] Suc.prems(4) by auto
  let ?recvBuffer = "sndBuffer @ drop (length sndBuffer) recvBuffer"
  have "left r = []" using Suc.prems(4) by simp
  then obtain ret bs r2 w2 where rc: "receiveComplete io fd r w1 recvBuffer (length sndBuffer) (-1) =
      Some (ret, bs @ drop (length bs) recvBuffer, r2, w2)" "reader_ok r2" "sent w2 = sent w1"
      "left r @ upcoming w1 = bs @ left r2 @ upcoming w2"
      "ret = int (length bs) \<and> (length bs = length sndBuffer \<or> left r2 @ upcoming w2 = []) \<or>
       ret = -1 \<and> length bs < length sndBuffer \<and> patience w2 < patience w1 \<and> \<not> steady_reads io fd"
    using receiveComplete_replied [OF Suc.prems(3) _ Suc.prems(2), of w1 "-1"] by blast
  have rc4: "sndBuffer = bs @ left r2 @ upcoming w2" using rc(4) s(3) \<open>left r = []\<close> by simp
  from rc4 have "length sndBuffer = length bs + length (left r2 @ upcoming w2)" by simp
  with rc(5) Suc.prems(1) have e: "left r2 @ upcoming w2 = []" by auto
  with rc4 have same: "bs = sndBuffer" by simp
  with rc(5) Suc.prems(1) have all: "left r2 @ upcoming w2 = []" "ret = int (length sndBuffer)" using e by simp_all
  note rc = rc(1) [unfolded same all(2)] rc(2,3)
  from Suc.IH [OF Suc.prems(1) _ rc(2) all(1), of ?recvBuffer] obtain r' w' where
    "client_cycles io fd sndBuffer cycles ?recvBuffer r2 w2 = Some (True, [], r', w')"
    "sent w' = sent w2 @ concat (replicate cycles sndBuffer)" "left r' @ upcoming w' = []" by auto
  with s rc all show ?case by (simp add: strncmp_equal_same)
qed simp

end

text \<open>A port number is cut to 16 bits.\<close>

lemma server_start_port:
  "n < 2 ^ 64 \<Longrightarrow> server_start env cb (to_string n) st =
     Option.bind (start_tcp env (of_nat (n mod 65536)) 1 (Some cb) st) (\<lambda>(r, st).
       case r of Throws \<Rightarrow> start_unix env (to_string n) False 1 (Some cb) st | Returns n \<Rightarrow> Some (Returns n, st))"
proof -
  have "(ucast (of_nat n :: u64) :: u16) = of_nat (n mod 65536)"
    by (simp add: unsigned_of_nat word_of_nat_eq_iff take_bit_eq_mod mod_mod_cancel)
  moreover assume "n < 2 ^ 64"
  ultimately show ?thesis by (simp add: server_start_def stoul_to_string)
qed

section \<open>A connection that computes\<close>

text \<open>
  The calls follow the script of a \<open>wire_world\<close>, but take or give one byte at least; errors that
  last are those of reading, where \<open>hard\<close> allows them.
\<close>

definition peer_step :: "nat \<Rightarrow> wire_world \<Rightarrow> (errno + nat) \<times> wire_world" where
  "peer_step n w = (case wire_step w n of (res, w) \<Rightarrow> (map_sum id (\<lambda>k. min n (max 1 k)) res, w))"

definition peer_send :: "(bytes \<Rightarrow> bytes) \<Rightarrow> bytes \<Rightarrow> wire_world \<Rightarrow> nat sysres \<times> wire_world" where
  "peer_send reply d w = (case peer_step (length d) w of
     (Inl e, w) \<Rightarrow> (Inl (if transient e then e else EAGAIN), w)
   | (Inr n, w) \<Rightarrow> (Inr n, w\<lparr>t_sent := t_sent w @ take n d, t_upcoming := t_upcoming w @ reply (take n d)\<rparr>))"

definition peer_get :: "bool \<Rightarrow> nat list \<Rightarrow> wire_world \<Rightarrow> bytes sysres \<times> wire_world" where
  "peer_get hard ls w = (case peer_step (sum_list ls) w of
     (Inl e, w) \<Rightarrow> (Inl (if hard then e else EAGAIN), w)
   | (Inr n, w) \<Rightarrow> (Inr (take n (t_upcoming w)), w\<lparr>t_upcoming := drop n (t_upcoming w)\<rparr>))"

definition peer_io :: "bool \<Rightarrow> (bytes \<Rightarrow> bytes) \<Rightarrow> wire_world sock_io" where
  "peer_io hard reply = \<lparr>s_send = (\<lambda>fd d fl. peer_send reply d), s_sendmsg = (\<lambda>fd bs fl. peer_send reply (concat bs)),
     s_readv = (\<lambda>fd. peer_get hard), s_poll = (\<lambda>fd ev t w. (Inr 1, w))\<rparr>"

lemma peer_step_cases:
  assumes "peer_step n w = (res, w')"
  shows "t_sent w' = t_sent w \<and> t_upcoming w' = t_upcoming w \<and> length (t_script w') \<le> length (t_script w) \<and>
     (case res of Inr k \<Rightarrow> k \<le> n \<and> (0 < n \<longrightarrow> 0 < k) | Inl e \<Rightarrow> length (t_script w') < length (t_script w))"
proof -
  obtain r w1 where st: "wire_step w n = (r, w1)" by fastforce
  from assms wire_step_cases [OF st] show ?thesis by (cases r) (auto simp: peer_step_def st)
qed

lemma peer_send_cases:
  assumes "peer_send reply d w = (res, w')"
  shows "length (t_script w') \<le> length (t_script w) \<and>
    (case res of
       Inr k \<Rightarrow> k \<le> length d \<and> (d \<noteq> [] \<longrightarrow> 0 < k) \<and> t_sent w' = t_sent w @ take k d \<and>
         t_upcoming w' = t_upcoming w @ reply (take k d)
     | Inl e \<Rightarrow> transient e \<and> length (t_script w') < length (t_script w) \<and> t_sent w' = t_sent w \<and>
         t_upcoming w' = t_upcoming w)"
proof -
  obtain r w1 where st: "peer_step (length d) w = (r, w1)" by fastforce
  from assms peer_step_cases [OF st] show ?thesis
    by (cases r) (auto simp: peer_send_def st transient_def)
qed

lemma peer_get_cases:
  assumes "peer_get hard ls w = (res, w')"
  shows "length (t_script w') \<le> length (t_script w) \<and> t_sent w' = t_sent w \<and>
    (case res of
       Inr bs \<Rightarrow> t_upcoming w = bs @ t_upcoming w' \<and> length bs \<le> sum_list ls \<and>
         (bs = [] \<longrightarrow> sum_list ls = 0 \<or> t_upcoming w = [])
     | Inl e \<Rightarrow> length (t_script w') < length (t_script w) \<and> t_upcoming w' = t_upcoming w \<and> (hard \<or> e = EAGAIN))"
proof -
  obtain r w1 where st: "peer_step (sum_list ls) w = (r, w1)" by fastforce
  from assms peer_step_cases [OF st] show ?thesis
    by (cases r) (auto simp: peer_get_def st)
qed

lemma peer_io_calls [kernel_calls]:
  "s_send (peer_io hard reply) fd d fl = peer_send reply d"
  "s_sendmsg (peer_io hard reply) fd bs fl = peer_send reply (concat bs)"
  "s_readv (peer_io hard reply) fd = peer_get hard"
  "s_poll (peer_io hard reply) fd ev t w = (Inr 1, w)"
  by (simp_all add: peer_io_def)

lemma peer_io_peer:
  assumes "\<And>a b. reply (a @ b) = reply a @ reply b"
  shows "peer (peer_io hard reply) fd t_sent t_upcoming (\<lambda>w. length (t_script w)) reply"
  by (unfold_locales; (simp only: kernel_calls)?;
      (drule peer_send_cases peer_get_cases)?) (auto simp: assms)

interpretation scripted_quiet: quiet_peer "peer_io hard (\<lambda>_. [])" fd t_sent t_upcoming "\<lambda>w. length (t_script w)"
  by (intro quiet_peer.intro peer_io_peer) simp

interpretation scripted_echo: echo_peer "peer_io hard (\<lambda>d. d)" fd t_sent t_upcoming "\<lambda>w. length (t_script w)"
  by (intro echo_peer.intro peer_io_peer) simp

lemma peer_io_steady: "steady_reads (peer_io False reply) fd"
  using peer_get_cases by (fastforce simp: steady_reads_def kernel_calls)

section \<open>Properties\<close>

text \<open>
  C37: With a client that sends what it sends, the echo server's callback comes to an end. It has
  sent back every byte it received, in order, and after an error of reading the byte before once
  more; without such errors it has sent back exactly what it received.
\<close>

theorem echo_server_echoes:
  assumes "quiet_peer io fd sent upcoming patience" "reader_ok r"
  shows "\<exists>r' w' out. echo_cb io fd buffer r w = Some (r', w') \<and> sent w' = sent w @ out \<and>
     echoed buffer (left r @ upcoming w) out \<and> (steady_reads io fd \<longrightarrow> out = left r @ upcoming w) \<and>
     left r' @ upcoming w' = []"
  by (rule quiet_peer.echo_cb_echoes [OF assms])

theorem echo_server_echoes_witness:
  "\<exists>r' w'. echo_cb (peer_io False (\<lambda>_. [])) 7 0 (BufferedReader_init (replicate buffer_size 0))
       \<lparr>t_sent = [], t_upcoming = [1, 2, 3], t_script = [Inr 2, Inl EAGAIN]\<rparr> = Some (r', w') \<and> t_sent w' = [1, 2, 3]"
proof -
  let ?r = "BufferedReader_init (replicate buffer_size 0)"
  have r: "reader_ok ?r" "left ?r = []" by (simp_all add: BufferedReader_init_def reader_ok_def left_def)
  from echo_server_echoes [OF scripted_quiet.quiet_peer_axioms r(1), of False 7 0
      "\<lparr>t_sent = [], t_upcoming = [1, 2, 3], t_script = [Inr 2, Inl EAGAIN]\<rparr>"] peer_io_steady [of "\<lambda>_. []" 7] r(2)
  show ?thesis by fastforce
qed

text \<open>
  C38: When the other side gives back what it is sent and reading fails only for the time being, the
  client runs all its cycles, finds no difference, and has sent its block once in each of them.
\<close>

theorem client_content:
  assumes "echo_peer io fd sent upcoming patience" "steady_reads io fd"
    and "length sndBuffer \<le> length recvBuffer" "reader_ok r" "left r @ upcoming w = []"
  shows "\<exists>r' w'. client_cycles io fd sndBuffer cycles recvBuffer r w = Some (True, [], r', w') \<and>
     sent w' = sent w @ concat (replicate cycles sndBuffer) \<and> left r' @ upcoming w' = []"
  by (rule echo_peer.client_cycles_content [OF assms])

theorem client_content_witness:
  "\<exists>r' w'. client_cycles (peer_io False (\<lambda>d. d)) 7 [104, 97, 0] 2 [0, 0, 0, 0] (BufferedReader_init (replicate buffer_size 0))
       \<lparr>t_sent = [], t_upcoming = [], t_script = [Inr 2, Inl EINTR, Inr 1]\<rparr> = Some (True, [], r', w') \<and>
     t_sent w' = [104, 97, 0, 104, 97, 0]"
proof -
  let ?r = "BufferedReader_init (replicate buffer_size 0)"
  have r: "reader_ok ?r" "left ?r = []" by (simp_all add: BufferedReader_init_def reader_ok_def left_def)
  from client_content [OF scripted_echo.echo_peer_axioms peer_io_steady _ r(1),
      of "[104, 97, 0]" "[0, 0, 0, 0]" "\<lparr>t_sent = [], t_upcoming = [], t_script = [Inr 2, Inl EINTR, Inr 1]\<rparr>" 7 2] r(2)
  show ?thesis by (auto simp: numeral_2_eq_2 simp del: client_cycles.simps)
qed

end
