(* ===== verification/Net_Tools.thy ===== *)
theory Net_Tools
  imports Netadapter_List Netlink
begin

text \<open>
  The tools that show the network adapters (\<^verbatim>\<open>tool/communication/netadapterview.cpp\<close>) and what
  happens to them (\<^verbatim>\<open>tool/communication/netlinkview.cpp\<close>), with the lines they print.

  The loop of the first goes over a \<open>std::map\<close> while \<open>operator[]\<close> may insert into it, so it is a
  function of the key it has reached; the keys have 32 bits, therefore it ends. The lemmas show that
  it prints every adapter once, in order, when the masters are in the list.
\<close>

section \<open>Showing the adapters\<close>

text \<open>\<open>adapters[k]\<close>\<close>

definition at_index :: "u32 \<Rightarrow> Adapters \<Rightarrow> Netadapter \<times> Adapters" where
  "at_index k adapters =
     (case map_of adapters k of
        Some a \<Rightarrow> (a, adapters) | None \<Rightarrow> (Netadapter_init, map_put k Netadapter_init adapters))"

definition adapter_lines :: "Netadapter \<Rightarrow> string list" where
  "adapter_lines adapter =
     [m_name adapter] @
     map (\<lambda>a. [CHR 0x09] @ address a @ '' '' @ netmask a) (m_ipv4Addresses adapter) @
     map (\<lambda>a. [CHR 0x09] @ ip6_address a @ ''/'' @ to_string (unat (ip6_prefix a))) (m_ipv6Addresses adapter)"

definition master_line :: "Netadapter \<Rightarrow> string" where
  "master_line master = [CHR 0x09] @ m_name master @ '' is master interface''"

definition show_adapter :: "Netadapter \<Rightarrow> Adapters \<Rightarrow> string list \<times> Adapters" where
  "show_adapter adapter adapters =
     (if m_masterIndex adapter \<noteq> -1 then
        (case at_index (word_of_int (m_masterIndex adapter)) adapters of (master, adapters) \<Rightarrow>
           (adapter_lines adapter @ [master_line master], adapters))
      else (adapter_lines adapter, adapters))"

text \<open>The entry an iterator that stood at \<open>pos\<close> comes to; \<^term>\<open>None\<close> is before the first.\<close>

definition next_entry :: "u32 option \<Rightarrow> Adapters \<Rightarrow> (u32 \<times> Netadapter) option" where
  "next_entry pos adapters = find (\<lambda>(k, _). case pos of None \<Rightarrow> True | Some l \<Rightarrow> l < k) adapters"

definition keys_left :: "u32 option \<Rightarrow> nat" where
  "keys_left pos = (case pos of None \<Rightarrow> 2 ^ 32 | Some k \<Rightarrow> 2 ^ 32 - 1 - unat k)"

lemma next_entry_less:
  assumes "next_entry pos adapters = Some (k, a)"
  shows "keys_left (Some k) < keys_left pos"
proof -
  have k: "unat k \<le> 4294967295" using unat_u32 [of k] by linarith
  show ?thesis
  proof (cases pos)
    case (Some l)
    with assms have "unat l < unat k" by (auto simp: next_entry_def find_Some_iff word_less_nat_alt)
    with k Some show ?thesis by (simp add: keys_left_def)
  qed (simp add: keys_left_def)
qed

function show_adapters :: "u32 option \<Rightarrow> Adapters \<Rightarrow> string list \<times> Adapters" where
  "show_adapters pos adapters =
     (case next_entry pos adapters of
        None \<Rightarrow> ([], adapters)
      | Some (k, adapter) \<Rightarrow>
          (case show_adapter adapter adapters of (lines, adapters) \<Rightarrow>
           case show_adapters (Some k) adapters of (rest, adapters) \<Rightarrow> (lines @ rest, adapters)))"
  by pat_completeness auto
termination
  by (relation "measure (keys_left \<circ> fst)") (auto intro: next_entry_less)

declare show_adapters.simps [simp del]

definition netadapterview :: "if_env \<Rightarrow> ifaddr list option \<Rightarrow> string list" where
  "netadapterview env interfaces =
     ''netadapterview'' # fst (show_adapters None (NetadapterList_init env interfaces))"

section \<open>Following the changes\<close>

fun event_text :: "event_t \<Rightarrow> string \<Rightarrow> string \<Rightarrow> string \<Rightarrow> string" where
  "event_text ADDRESS_ADDED index name ipv4Address =
     ''new interface address appeared (adapter '' @ index @ '' ('' @ name @ ''), ipv4 address='' @ ipv4Address @ '')''"
| "event_text ADDRESS_REMOVED index name ipv4Address =
     ''interface address disappeared (adapter '' @ index @ '' ('' @ name @ ''), ipv4 address='' @ ipv4Address @ '')''"
| "event_text COMPLETE index name ipv4Address = ''complete reconfiguration''"
| "event_text LINK_ADDED index name ipv4Address = ''interface '' @ index @ '' ('' @ name @ '') got up''"
| "event_text LINK_REMOVED index name ipv4Address = ''interface '' @ index @ '' ('' @ name @ '') went down''"

text \<open>The line printed, and the counter, which is static\<close>

definition netlinkCb :: "Adapters \<Rightarrow> event_t \<Rightarrow> u32 \<Rightarrow> string \<Rightarrow> u32 \<Rightarrow> string \<times> u32" where
  "netlinkCb adapters event adapterIndex ipv4Address eventCount =
     (let adapterName = (case getAdapterByInterfaceIndex adapters adapterIndex of Inl e \<Rightarrow> [] | Inr a \<Rightarrow> m_name a);
          eventCount = eventCount + 1
      in (to_string (unat eventCount) @ '': '' @ event_text event (to_string (unat adapterIndex)) adapterName ipv4Address,
          eventCount))"

text \<open>
  \<open>main\<close>: \<^term>\<open>Inl\<close> is the text of an exception that ends the program, where there is one. The
  inner \<^term>\<open>None\<close> is a crash of the event loop.
\<close>

definition netlinkview ::
  "('c, 'h, 'w) nl_env \<Rightarrow> 'c \<Rightarrow> epoll_event list \<Rightarrow> 'w \<Rightarrow> ((string + int option) \<times> 'w) option" where
  "netlinkview env cb loopEvents w =
     (case EventLoop_init (nl_loop env) loopEvents w of
        (Inl e, w) \<Rightarrow> Some (Inl e, w)
      | (Inr l, w) \<Rightarrow>
          (case sys (Netlink_init env) l of
             (Inl e, l) \<Rightarrow> Some (Inl e, world l)
           | (Inr netlink, l) \<Rightarrow>
               Option.bind (Netlink_start env (Some cb) (netlink, l)) (\<lambda>(r, netlink, l).
                 case r of
                   Throws \<Rightarrow> Some (Inl [], world l)
                 | Returns _ \<Rightarrow> map_option (\<lambda>(r, l). case r of
                       None \<Rightarrow> (Inr None, world l)
                     | Some _ \<Rightarrow> (Inr (Some 0), EventLoop_destroy (nl_loop env) (Netlink_destroy env (netlink, l))))
                     (execute (nl_loop env) l))))"

section \<open>The order of the lines\<close>

text \<open>Every master that is named is in the list.\<close>

definition masters_known :: "Adapters \<Rightarrow> bool" where
  "masters_known adapters \<longleftrightarrow>
     list_all (\<lambda>(_, a). m_masterIndex a \<noteq> -1 \<longrightarrow> word_of_int (m_masterIndex a) \<in> fst ` set adapters) adapters"

text \<open>What is printed for an adapter of the list\<close>

definition entry_lines :: "Adapters \<Rightarrow> Netadapter \<Rightarrow> string list" where
  "entry_lines adapters a =
     adapter_lines a @
     (if m_masterIndex a = -1 then []
      else [master_line (the (map_of adapters (word_of_int (m_masterIndex a))))])"

lemma show_adapter_known:
  assumes "masters_known m" "(k, a) \<in> set m"
  shows "show_adapter a m = (entry_lines m a, m)"
proof (cases "m_masterIndex a = -1")
  case False
  then have "word_of_int (m_masterIndex a) \<in> fst ` set m"
    using assms by (auto simp: masters_known_def list_all_iff)
  then obtain b where "map_of m (word_of_int (m_masterIndex a)) = Some b"
    by (metis domD dom_map_of_conv_image_fst)
  with False show ?thesis by (simp add: show_adapter_def entry_lines_def at_index_def)
qed (simp add: show_adapter_def entry_lines_def)

lemma next_entry_end: "sorted_keys (pre @ [(l, a)]) \<Longrightarrow> next_entry (Some l) (pre @ [(l, a)]) = None"
  by (auto simp: next_entry_def find_None_iff sorted_wrt_append)

lemma next_entry_next:
  assumes "sorted_keys (pre @ (k, b) # suf)" "pos = (if pre = [] then None else Some (fst (last pre)))"
  shows "next_entry pos (pre @ (k, b) # suf) = Some (k, b)"
proof (cases pre rule: rev_cases)
  case Nil
  with assms(2) show ?thesis by (simp add: next_entry_def)
next
  case (snoc pre' p)
  obtain l a where p: "p = (l, a)" by fastforce
  have "\<forall>q\<in>set pre. \<not> l < fst q" "l < k" using assms(1) by (auto simp: snoc p sorted_wrt_append)
  then have "find (\<lambda>(k, _). l < k) (pre @ (k, b) # suf) = Some (k, b)"
    by (induction pre) auto
  then show ?thesis using assms(2) snoc p by (simp add: next_entry_def)
qed

lemma show_adapters_known:
  assumes "masters_known m" "sorted_keys m" "m = pre @ suf"
    and "pos = (if pre = [] then None else Some (fst (last pre)))"
  shows "show_adapters pos m = (concat (map (entry_lines m \<circ> snd) suf), m)"
  using assms(3,4)
proof (induction suf arbitrary: pre pos)
  case Nil
  have "next_entry pos m = None"
  proof (cases pre rule: rev_cases)
    case Nil
    with Nil.prems \<open>m = pre @ []\<close> show ?thesis by (simp add: next_entry_def)
  next
    case (snoc pre' p)
    with next_entry_end [of pre' "fst p" "snd p"] assms(2) Nil.prems show ?thesis by simp
  qed
  then show ?case by (simp add: show_adapters.simps)
next
  case (Cons p suf)
  obtain k a where p: "p = (k, a)" by fastforce
  have "next_entry pos m = Some (k, a)"
    using next_entry_next [of pre k a suf pos] assms(2) Cons.prems p by simp
  moreover have "show_adapter a m = (entry_lines m a, m)"
    by (rule show_adapter_known [OF assms(1), of k]) (simp add: Cons.prems(1) p)
  moreover have "show_adapters (Some k) m = (concat (map (entry_lines m \<circ> snd) suf), m)"
    by (rule Cons.IH [of "pre @ [p]"]) (simp_all add: Cons.prems(1) p)
  ultimately show ?case by (subst show_adapters.simps) (simp add: p)
qed

text \<open>With a master that is not in the list, the loop comes by the adapter it has inserted.\<close>

lemma unknown_master_shown:
  assumes "m_name a = ''eth0''" "m_masterIndex a = 7" "m_ipv4Addresses a = []" "m_ipv6Addresses a = []"
  shows "fst (show_adapters None [(2, a)]) = [''eth0'', [CHR 0x09] @ '' is master interface'', '''']"
proof -
  have show1: "show_adapter a [(2, a)] =
      ([''eth0'', [CHR 0x09] @ '' is master interface''], [(2, a), (7, Netadapter_init)])"
    using assms by (simp add: show_adapter_def at_index_def adapter_lines_def master_line_def Netadapter_init_def)
  have show2: "show_adapter Netadapter_init m = ([''''], m)" for m
    by (simp add: show_adapter_def adapter_lines_def Netadapter_init_def)
  have "show_adapters (Some 7) [(2, a), (7, Netadapter_init)] = ([], [(2, a), (7, Netadapter_init)])"
    by (simp add: show_adapters.simps next_entry_def)
  then have "show_adapters (Some 2) [(2, a), (7, Netadapter_init)] = ([''''], [(2, a), (7, Netadapter_init)])"
    by (subst show_adapters.simps) (simp add: next_entry_def show2)
  then show ?thesis by (subst show_adapters.simps) (simp add: next_entry_def show1)
qed

section \<open>Properties\<close>

text \<open>
  C39: when every master interface is in the list, \<open>netadapterview\<close> prints its name and then, for
  the adapters in the order of their indexes, the lines of each of them once.
\<close>

theorem netadapterview_prints:
  assumes "hw_data env" and "masters_known (NetadapterList_init env interfaces)"
  shows "netadapterview env interfaces = ''netadapterview'' #
     concat (map (entry_lines (NetadapterList_init env interfaces)) (getArray (NetadapterList_init env interfaces)))"
proof -
  have "adapters_ok (if_pton env) []" by (simp add: adapters_ok_def)
  from update_ok [OF assms(1) this] have "sorted_keys (NetadapterList_init env interfaces)"
    by (simp add: adapters_ok_def NetadapterList_init_def)
  from show_adapters_known [OF assms(2) this, of "[]"] show ?thesis
    by (simp add: netadapterview_def getArray_def comp_def)
qed

text \<open>The machine with three interfaces, whose \<open>eth1\<close> belongs to \<open>eth0\<close>\<close>

definition bonded :: if_env where
  "bonded = desk\<lparr>master_file := (\<lambda>p. if p = ''/sys/class/net/eth1/master/ifindex'' then Some 2 else None)\<rparr>"

theorem netadapterview_prints_witness:
  "netadapterview bonded (Some desk_ifs) = [''netadapterview'', ''eth0'', CHR 0x09 # ''10.1.2.3 255.255.255.0'',
     ''eth1'', CHR 0x09 # ''192.168.0.5 255.255.0.0'', CHR 0x09 # ''169.254.1.2 255.255.0.0'',
     CHR 0x09 # ''eth0 is master interface'']"
proof -
  have hw: "hw_data bonded" using desk_hw_data by (simp add: hw_data_def bonded_def)
  have known: "masters_known (NetadapterList_init bonded (Some desk_ifs))" by code_simp
  have "concat (map (entry_lines (NetadapterList_init bonded (Some desk_ifs))) (getArray (NetadapterList_init bonded (Some desk_ifs)))) =
    [''eth0'', CHR 0x09 # ''10.1.2.3 255.255.255.0'',
     ''eth1'', CHR 0x09 # ''192.168.0.5 255.255.0.0'', CHR 0x09 # ''169.254.1.2 255.255.0.0'',
     CHR 0x09 # ''eth0 is master interface'']" by code_simp
  then show ?thesis unfolding netadapterview_prints [OF hw known] by simp
qed

end
