(* ===== verification/Perf_Tool.thy ===== *)
theory Perf_Tool
  imports Timer_Notifier Event_Loop_Script
begin

text \<open>
  The tool that measures the event loop (\<^verbatim>\<open>tool/sys/eventloopperformance.cpp\<close>), with the event loop
  and the notifier of the Linux sources below it: a notifier whose callback notifies again until a
  limit is reached, and notifiers made and destroyed one after the other. Time is left out.

  The world holds the variable the callback captures, the notifier object, and the kernel. The
  locale \<open>event_kernel\<close> states what the kernel promises of its counters and of watching them; the
  lemmas show that the loop calls the callback exactly as often as the limit says and then ends, and
  that neither part leaves a descriptor open, so that the second one needs no more of them for many
  notifiers than for one.
\<close>

section \<open>The kernel below\<close>

record 'k event_calls =
  p_epoll_create :: "'k \<Rightarrow> fd sysres \<times> 'k"
  p_eventfd :: "'k \<Rightarrow> fd sysres \<times> 'k"
  p_ctl :: "fd \<Rightarrow> ctl_op \<Rightarrow> fd \<Rightarrow> epoll_event \<Rightarrow> 'k \<Rightarrow> bool \<times> 'k"
  p_wait :: "fd \<Rightarrow> nat \<Rightarrow> 'k \<Rightarrow> epoll_event list sysres \<times> 'k"
  p_write :: "fd \<Rightarrow> u64 \<Rightarrow> 'k \<Rightarrow> int \<times> 'k"
  p_read :: "fd \<Rightarrow> 'k \<Rightarrow> u64 sysres \<times> 'k"
  p_close :: "fd \<Rightarrow> 'k \<Rightarrow> 'k"

record 'k perf =
  eventCount :: nat
  notifier :: "unit Notifier"
  kernel :: 'k

definition on_kernel :: "('k \<Rightarrow> 'a \<times> 'k) \<Rightarrow> 'k perf \<Rightarrow> 'a \<times> 'k perf" where
  "on_kernel f w = (case f (kernel w) of (r, k) \<Rightarrow> (r, w\<lparr>kernel := k\<rparr>))"

text \<open>The calls of the event loop and of the notifier, without their callbacks\<close>

definition loop_calls :: "'k event_calls \<Rightarrow> (unit, 'k perf) loop_env" where
  "loop_calls K = \<lparr>
     k_epoll_create = on_kernel (p_epoll_create K),
     k_eventfd = (\<lambda>w. case on_kernel (p_eventfd K) w of (r, w) \<Rightarrow> (case r of Inl e \<Rightarrow> -1 | Inr fd \<Rightarrow> fd, w)),
     k_epoll_ctl = (\<lambda>ep op fd ev. on_kernel (p_ctl K ep op fd ev)),
     k_epoll_wait = (\<lambda>ep n. on_kernel (p_wait K ep n)),
     k_write = (\<lambda>fd v w. snd (on_kernel (p_write K fd v) w)),
     k_close = (\<lambda>fd w. w\<lparr>kernel := p_close K fd (kernel w)\<rparr>),
     run = (\<lambda>_ l. (Throws, l)), alloc = first_free\<rparr>"

definition notifier_calls :: "'k event_calls \<Rightarrow> (unit, 'k perf) notifier_env" where
  "notifier_calls K = \<lparr>k_write8 = (\<lambda>fd v. on_kernel (p_write K fd v)), k_count = (\<lambda>fd. on_kernel (p_read K fd)),
     run_notified = (\<lambda>_ t. (False, t))\<rparr>"

section \<open>The tool\<close>

definition EVENTLIMIT :: nat where "EVENTLIMIT = 100000"

text \<open>The callback; \<open>l\<close> is the event loop it holds a reference to.\<close>

definition notifierCb ::
  "'k event_calls \<Rightarrow> (unit, 'k perf) loop \<Rightarrow> (unit, 'k perf) notifier_state \<Rightarrow> (unit, 'k perf) notifier_state" where
  "notifierCb K l t =
     (let w = (n_world t)\<lparr>eventCount := eventCount (n_world t) + 1\<rparr>; t = t\<lparr>n_world := w\<rparr> in
      if EVENTLIMIT \<le> eventCount w then t\<lparr>n_world := world (stop (loop_calls K) (l\<lparr>world := w\<rparr>))\<rparr>
      else snd (notify (notifier_calls K) t))"

text \<open>The notifier of the world, and what \<open>process\<close> does with it in the event loop\<close>

definition notifier_in :: "'k perf \<Rightarrow> (unit, 'k perf) notifier_state" where
  "notifier_in w = \<lparr>n_fd = n_fd (notifier w), n_handler = n_handler (notifier w), n_world = w\<rparr>"

definition run_process ::
  "'k event_calls \<Rightarrow> unit \<Rightarrow> (unit, 'k perf) loop \<Rightarrow> outcome \<times> (unit, 'k perf) loop" where
  "run_process K process l =
     (case Notifier_process ((notifier_calls K)\<lparr>run_notified := (\<lambda>_ t. (True, notifierCb K l t))\<rparr>) (notifier_in (world l))
      of (r, t) \<Rightarrow> (r, l\<lparr>world := n_world t\<rparr>))"

definition perf_env :: "'k event_calls \<Rightarrow> (unit, 'k perf) loop_env" where
  "perf_env K = (loop_calls K)\<lparr>run := run_process K\<rparr>"

text \<open>The descriptor is a member of the notifier as soon as it is made.\<close>

definition make_eventfd :: "'k event_calls \<Rightarrow> 'k perf \<Rightarrow> fd sysres \<times> 'k perf" where
  "make_eventfd K w =
     (case on_kernel (p_eventfd K) w of (r, w) \<Rightarrow>
      case r of Inl e \<Rightarrow> (Inl e, w) | Inr fd \<Rightarrow> (Inr fd, w\<lparr>notifier := \<lparr>n_fd = fd, n_handler = Some nop\<rparr>\<rparr>))"

text \<open>
  The first part. The result is the count, unless an exception leaves the function or the event loop
  crashes.
\<close>

definition set_and_notify :: "'k event_calls \<Rightarrow> 'k perf \<Rightarrow> 'k perf" where
  "set_and_notify K w =
     (let t = snd (Notifier_set (Some (User ())) (notifier_in w));
          w = (n_world t)\<lparr>notifier := \<lparr>n_fd = n_fd t, n_handler = n_handler t\<rparr>\<rparr>
      in n_world (snd (notify (notifier_calls K) (notifier_in w))))"

definition perf_notify ::
  "'k event_calls \<Rightarrow> epoll_event list \<Rightarrow> 'k perf \<Rightarrow> (nat option \<times> 'k perf) option" where
  "perf_notify K loopEvents w =
     (case EventLoop_init (perf_env K) loopEvents w of
        (Inl e, w) \<Rightarrow> Some (None, w)
      | (Inr l, w) \<Rightarrow>
          Option.bind (Notifier_init (make_eventfd K) (perf_env K) () l) (\<lambda>(r, l).
            case r of
              Inl e \<Rightarrow> Some (None, world l)
            | Inr (n :: unit Notifier) \<Rightarrow>
                (let l = l\<lparr>world := set_and_notify K ((world l)\<lparr>eventCount := 0\<rparr>)\<rparr> in
                 map_option (\<lambda>(r, l).
                     (case r of None \<Rightarrow> None | Some _ \<Rightarrow> Some (eventCount (world l)),
                      EventLoop_destroy (perf_env K) (Notifier_destroy (perf_env K) n l)))
                   (execute (perf_env K) l))))"

text \<open>The second part, with the turns still to do; \<^term>\<open>False\<close> is an exception.\<close>

primrec add_remove ::
  "'k event_calls \<Rightarrow> nat \<Rightarrow> (unit, 'k perf) loop \<Rightarrow> (bool \<times> (unit, 'k perf) loop) option" where
  "add_remove K 0 l = Some (True, l)"
| "add_remove K (Suc turns) l =
     Option.bind (Notifier_init (make_eventfd K) (perf_env K) () l) (\<lambda>(r, l).
       case r of Inl e \<Rightarrow> Some (False, l)
       | Inr (n :: unit Notifier) \<Rightarrow> add_remove K turns (Notifier_destroy (perf_env K) n l))"

definition addRemove :: "'k event_calls \<Rightarrow> epoll_event list \<Rightarrow> 'k perf \<Rightarrow> (bool \<times> 'k perf) option" where
  "addRemove K loopEvents w =
     (case EventLoop_init (perf_env K) loopEvents w of
        (Inl e, w) \<Rightarrow> Some (False, w)
      | (Inr l, w) \<Rightarrow>
          map_option (\<lambda>(ok, l). (ok, EventLoop_destroy (perf_env K) l)) (add_remove K EVENTLIMIT l))"

text \<open>The count, and whether both parts came to their end\<close>

definition perf_main ::
  "'k event_calls \<Rightarrow> epoll_event list \<Rightarrow> epoll_event list \<Rightarrow> 'k perf \<Rightarrow> (nat option \<times> bool \<times> 'k perf) option" where
  "perf_main K loopEvents loopEvents2 w =
     Option.bind (perf_notify K loopEvents w) (\<lambda>(r, w).
       case r of None \<Rightarrow> Some (None, False, w)
       | Some n \<Rightarrow> map_option (\<lambda>(ok, w). (Some n, ok, w)) (addRemove K loopEvents2 w))"

section \<open>What the kernel promises\<close>

text \<open>
  The open descriptors, the counters, what the epoll instance watches, and what it has to report:
  with \<open>EPOLLET\<close>, a counter that was written to.
\<close>

record kernel_view =
  v_opened :: "fd list"
  v_count :: "fd \<Rightarrow> nat"
  v_watched :: "fd \<rightharpoonup> epoll_event"
  v_woken :: "fd list"

locale event_kernel =
  fixes K :: "'k event_calls" and view :: "'k \<Rightarrow> kernel_view" and fd_limit :: nat
  assumes epoll_create: "length (v_opened (view k)) < fd_limit \<Longrightarrow>
      \<exists>fd k'. p_epoll_create K k = (Inr fd, k') \<and> fd \<notin> set (v_opened (view k)) \<and> 0 \<le> fd \<and>
        view k' = (view k)\<lparr>v_opened := fd # v_opened (view k), v_watched := Map.empty, v_woken := []\<rparr>"
    and eventfd: "length (v_opened (view k)) < fd_limit \<Longrightarrow>
      \<exists>fd k'. p_eventfd K k = (Inr fd, k') \<and> fd \<notin> set (v_opened (view k)) \<and> 0 \<le> fd \<and>
        view k' = (view k)\<lparr>v_opened := fd # v_opened (view k), v_count := (v_count (view k))(fd := 0)\<rparr>"
    and ctl_add: "fd \<in> set (v_opened (view k)) \<Longrightarrow> v_watched (view k) fd = None \<Longrightarrow> v_count (view k) fd = 0 \<Longrightarrow>
      \<exists>k'. p_ctl K ep CTL_ADD fd ev k = (True, k') \<and>
        view k' = (view k)\<lparr>v_watched := (v_watched (view k))(fd \<mapsto> ev)\<rparr>"
    and ctl_del: "v_watched (view k) fd \<noteq> None \<Longrightarrow>
      \<exists>k'. p_ctl K ep CTL_DEL fd ev k = (True, k') \<and>
        view k' = (view k)\<lparr>v_watched := (v_watched (view k))(fd := None), v_woken := removeAll fd (v_woken (view k))\<rparr>"
    and wait: "v_woken (view k) = [fd] \<Longrightarrow> v_watched (view k) fd = Some ev \<Longrightarrow>
      0 < v_count (view k) fd \<Longrightarrow> 0 < n \<Longrightarrow>
      \<exists>k'. p_wait K ep n k = (Inr [\<lparr>events = EPOLLIN, data_ptr = data_ptr ev\<rparr>], k') \<and> view k' = (view k)\<lparr>v_woken := []\<rparr>"
    and writes: "fd \<in> set (v_opened (view k)) \<Longrightarrow> v_count (view k) fd + unat v < 2 ^ 64 - 1 \<Longrightarrow>
      \<exists>k'. p_write K fd v k = (8, k') \<and>
        view k' = (view k)\<lparr>v_count := (v_count (view k))(fd := v_count (view k) fd + unat v),
          v_woken := (if v_watched (view k) fd = None then v_woken (view k) else List.insert fd (v_woken (view k)))\<rparr>"
    and reads: "fd \<in> set (v_opened (view k)) \<Longrightarrow> v_count (view k) fd < 2 ^ 64 \<Longrightarrow>
      \<exists>r k'. p_read K fd k = (r, k') \<and> view k' = (view k)\<lparr>v_count := (v_count (view k))(fd := 0)\<rparr> \<and>
        (case r of Inl e \<Rightarrow> v_count (view k) fd = 0 | Inr c \<Rightarrow> 0 < c \<and> unat c = v_count (view k) fd)"
    and closes: "view (p_close K fd k) = (view k)\<lparr>v_opened := removeAll fd (v_opened (view k)),
        v_watched := (v_watched (view k))(fd := None), v_woken := removeAll fd (v_woken (view k))\<rparr>"

begin

text \<open>The same laws, for the calls as the environments have them\<close>

lemma write_kernel:
  assumes "fd \<in> set (v_opened (view (kernel w)))" "v_count (view (kernel w)) fd + unat v < 2 ^ 64 - 1"
  shows "\<exists>w'. on_kernel (p_write K fd v) w = (8, w') \<and> eventCount w' = eventCount w \<and> notifier w' = notifier w \<and>
    view (kernel w') = (view (kernel w))\<lparr>v_count := (v_count (view (kernel w)))(fd := v_count (view (kernel w)) fd + unat v),
      v_woken := (if v_watched (view (kernel w)) fd = None then v_woken (view (kernel w))
                  else List.insert fd (v_woken (view (kernel w))))\<rparr>"
  using writes [OF assms] by (auto simp: on_kernel_def)

end

section \<open>Notifying up to the limit\<close>

text \<open>
  The state before \<open>epoll_wait\<close> after \<open>c\<close> calls of the callback, with the notifier notified once
  more: its node, its counter, and the descriptors watched.
\<close>

definition stop_event :: epoll_event where
  "stop_event = \<lparr>events = EPOLLIN OR EPOLLET, data_ptr = None\<rparr>"

definition set_up :: "('k \<Rightarrow> kernel_view) \<Rightarrow> addr \<Rightarrow> fd list \<Rightarrow> (unit, 'k perf) loop \<Rightarrow> bool" where
  "set_up view a opened l \<longleftrightarrow>
     (let v = view (kernel (world l)); fd = n_fd (notifier (world l)) in
      m_eventInfos l = [(fd, a)] \<and> heap l = [a \<mapsto> \<lparr>inEvent = Some (), outEvent = None\<rparr>] \<and>
      n_handler (notifier (world l)) = Some (User ()) \<and> fd \<noteq> m_stopFd l \<and>
      v_opened v = opened \<and> fd \<in> set opened \<and> m_stopFd l \<in> set opened \<and>
      v_count v (m_stopFd l) \<le> 1 \<and> v_watched v (m_stopFd l) = Some stop_event \<and>
      (\<exists>e. v_watched v fd = Some \<lparr>events = e, data_ptr = Some a\<rparr>))"

definition notified_state :: "('k \<Rightarrow> kernel_view) \<Rightarrow> nat \<Rightarrow> addr \<Rightarrow> fd list \<Rightarrow> (unit, 'k perf) loop \<Rightarrow> bool" where
  "notified_state view c a opened l \<longleftrightarrow>
     (let v = view (kernel (world l)); fd = n_fd (notifier (world l)) in
      set_up view a opened l \<and> eventCount (world l) = c \<and>
      v_count v fd = 1 \<and> v_count v (m_stopFd l) = 0 \<and> v_woken v = [fd])"

text \<open>
  An event loop without notifiers: it watches the descriptor that stops it, its descriptors are
  open besides \<open>opened\<close>, and nothing is to be reported.
\<close>

definition empty_loop :: "('k \<Rightarrow> kernel_view) \<Rightarrow> fd list \<Rightarrow> (unit, 'k perf) loop \<Rightarrow> bool" where
  "empty_loop view opened l \<longleftrightarrow>
     (let v = view (kernel (world l)); ep = m_epollfd l; st = m_stopFd l in
      m_eventInfos l = [] \<and> heap l = Map.empty \<and> m_eventCount l = 0 \<and>
      v_opened v = st # ep # opened \<and> st \<noteq> ep \<and> st \<notin> set opened \<and> ep \<notin> set opened \<and>
      v_count v st = 0 \<and> v_watched v = [st \<mapsto> stop_event] \<and> v_woken v = [])"

lemma perf_env_simps [simp]:
  "k_epoll_create (perf_env K) = on_kernel (p_epoll_create K)"
  "k_eventfd (perf_env K) w = (case on_kernel (p_eventfd K) w of (r, w) \<Rightarrow> (case r of Inl e \<Rightarrow> -1 | Inr fd \<Rightarrow> fd, w))"
  "k_epoll_ctl (perf_env K) ep op fd ev = on_kernel (p_ctl K ep op fd ev)"
  "k_epoll_wait (perf_env K) ep n = on_kernel (p_wait K ep n)"
  "k_write (perf_env K) fd v w = snd (on_kernel (p_write K fd v) w)"
  "k_close (perf_env K) fd w = w\<lparr>kernel := p_close K fd (kernel w)\<rparr>"
  "run (perf_env K) = run_process K" "alloc (perf_env K) = first_free"
  "k_write (loop_calls K) fd v w = snd (on_kernel (p_write K fd v) w)"
  by (simp_all add: perf_env_def loop_calls_def)

lemma notifier_calls_simps [simp]:
  "k_write8 (notifier_calls K) fd v = on_kernel (p_write K fd v)"
  "k_count (notifier_calls K) fd = on_kernel (p_read K fd)"
  by (simp_all add: notifier_calls_def)

context event_kernel
begin

lemma process_notified:
  assumes h: "n_handler (notifier (world l)) = Some (User ())" and fd: "fd = n_fd (notifier (world l))"
    and v: "v = view (kernel (world l))" "fd \<in> set (v_opened v)" "v_count v fd = 1"
    and st: "m_stopFd l \<in> set (v_opened v)" "v_count v (m_stopFd l) = 0" "fd \<noteq> m_stopFd l"
      "v_watched v fd \<noteq> None" "v_watched v (m_stopFd l) \<noteq> None"
  shows "\<exists>w'. run_process K () l = (Returns 0, l\<lparr>world := w'\<rparr>) \<and> eventCount w' = Suc (eventCount (world l)) \<and>
    notifier w' = notifier (world l) \<and>
    view (kernel w') =
      (if EVENTLIMIT \<le> Suc (eventCount (world l))
       then v\<lparr>v_count := (v_count v)(fd := 0, m_stopFd l := 1), v_woken := List.insert (m_stopFd l) (v_woken v)\<rparr>
       else v\<lparr>v_woken := List.insert fd (v_woken v)\<rparr>)"
proof -
  let ?w = "world l"
  obtain r k1 where rd: "p_read K fd (kernel ?w) = (r, k1)" "view k1 = v\<lparr>v_count := (v_count v)(fd := 0)\<rparr>"
    "case r of Inl e \<Rightarrow> v_count v fd = 0 | Inr c \<Rightarrow> 0 < c \<and> unat c = v_count v fd"
    using reads [of fd "kernel ?w"] v by auto
  then obtain c where c: "r = Inr c" "unat c = 1" using v(3) by (cases r) auto
  define w1 where "w1 = ?w\<lparr>kernel := k1, eventCount := Suc (eventCount ?w)\<rparr>"
  have count: "on_kernel (p_read K fd) ?w = (Inr c, ?w\<lparr>kernel := k1\<rparr>)" using rd(1) c by (simp add: on_kernel_def)
  let ?t = "\<lparr>n_fd = fd, n_handler = Some (User ()), n_world = w1\<rparr>"
  have run: "run_process K () l = (Returns 0, l\<lparr>world := n_world (notifierCb K l (?t\<lparr>n_world := ?w\<lparr>kernel := k1\<rparr>\<rparr>))\<rparr>)"
    using h fd count c(2)
    by (simp add: run_process_def notifier_in_def Notifier_process_def call_notified_def)
  show ?thesis
  proof (cases "EVENTLIMIT \<le> Suc (eventCount ?w)")
    case True
    have "m_stopFd l \<in> set (v_opened (view (kernel w1)))"
      "v_count (view (kernel w1)) (m_stopFd l) + unat (1 :: u64) < 2 ^ 64 - 1"
      using st rd(2) by (simp_all add: w1_def)
    from write_kernel [OF this] st rd(2) obtain w' where
      w': "on_kernel (p_write K (m_stopFd l) 1) w1 = (8, w')" "eventCount w' = eventCount w1" "notifier w' = notifier w1"
      "view (kernel w') = v\<lparr>v_count := (v_count v)(fd := 0, m_stopFd l := 1), v_woken := List.insert (m_stopFd l) (v_woken v)\<rparr>"
      by (auto simp: w1_def)
    have "n_world (notifierCb K l (?t\<lparr>n_world := ?w\<lparr>kernel := k1\<rparr>\<rparr>)) = w'"
      using True w'(1) by (simp add: notifierCb_def stop_def Let_def w1_def)
    with run w' True show ?thesis by (auto simp: w1_def)
  next
    case False
    have "fd \<in> set (v_opened (view (kernel w1)))"
      "v_count (view (kernel w1)) fd + unat (1 :: u64) < 2 ^ 64 - 1"
      using v rd(2) by (simp_all add: w1_def)
    from write_kernel [OF this] st rd(2) v(3) obtain w' where
      w': "on_kernel (p_write K fd 1) w1 = (8, w')" "eventCount w' = eventCount w1" "notifier w' = notifier w1"
      "view (kernel w') = v\<lparr>v_woken := List.insert fd (v_woken v)\<rparr>"
      by (auto simp: w1_def fun_upd_idem)
    have "n_world (notifierCb K l (?t\<lparr>n_world := ?w\<lparr>kernel := k1\<rparr>\<rparr>)) = w'"
      using False w'(1) by (simp add: notifierCb_def notify_def Let_def w1_def)
    with run w' False show ?thesis by (auto simp: w1_def)
  qed
qed

text \<open>One event: its callback is called once, and the event is done with.\<close>

lemma rounds_once:
  assumes ev: "m_events l = \<lparr>events = EPOLLIN, data_ptr = Some a\<rparr> # es" "m_eventCount l = 1"
    and node: "heap l a = Some \<lparr>inEvent = Some (), outEvent = None\<rparr>"
    and run: "run_process K () l = (Returns 0, l\<lparr>world := w'\<rparr>)"
  shows "rounds (perf_env K) l =
    Some (Next 0 (l\<lparr>world := w', m_events := \<lparr>events = EPOLLIN AND NOT EPOLLIN, data_ptr = Some a\<rparr> # es\<rparr>))"
proof -
  have bits: "EPOLLIN AND EPOLLIN \<noteq> 0" "EPOLLIN AND NOT EPOLLIN AND EPOLLOUT = 0"
    by (simp_all add: EPOLLIN_def EPOLLOUT_def)
  have "dispatch_half (perf_env K) inEvent EPOLLIN a 0 l = Next 0 (clear_flag 0 EPOLLIN (l\<lparr>world := w'\<rparr>))"
    using ev node run bits by (simp add: dispatch_half_def call_def)
  moreover have "clear_flag 0 EPOLLIN (l\<lparr>world := w'\<rparr>) =
      l\<lparr>world := w', m_events := \<lparr>events = EPOLLIN AND NOT EPOLLIN, data_ptr = Some a\<rparr> # es\<rparr>"
    using ev by (simp add: clear_flag_def)
  ultimately have "dispatch_one (perf_env K) 0 l =
      Next 0 (l\<lparr>world := w', m_events := \<lparr>events = EPOLLIN AND NOT EPOLLIN, data_ptr = Some a\<rparr> # es\<rparr>)"
    using ev bits by (simp add: dispatch_one_def dispatch_half_def)
  then show ?thesis using ev(2) by (subst rounds.simps) simp
qed

lemma rounds_stop:
  assumes "m_events l = \<lparr>events = EPOLLIN, data_ptr = None\<rparr> # es" "m_eventCount l = 1"
  shows "rounds (perf_env K) l = Some (Stopped l)"
  using assms by (subst rounds.simps) (simp add: dispatch_one_def)

text \<open>Waking up for the only descriptor that has something to report\<close>

lemma wake:
  assumes "v = view (kernel (world l))" "v_woken v = [fd]" "v_watched v fd = Some ev" "0 < v_count v fd"
  shows "\<exists>k. view k = v\<lparr>v_woken := []\<rparr> \<and>
    execute (perf_env K) l =
      Option.bind (rounds (perf_env K) (l\<lparr>m_events := \<lparr>events = EPOLLIN, data_ptr = data_ptr ev\<rparr> # drop 1 (m_events l),
          world := (world l)\<lparr>kernel := k\<rparr>, m_eventCount := 1\<rparr>))
        (\<lambda>d. case d of
               Next _ l' \<Rightarrow> execute (perf_env K) l'
             | Stopped l' \<Rightarrow> Some (Some 0, l')
             | Crashed l' \<Rightarrow> Some (None, l'))"
proof -
  have "0 < MAXEVENTS" by (simp add: MAXEVENTS_def)
  from wait [of "kernel (world l)" fd ev, OF _ _ _ this] assms obtain k where
    k: "p_wait K (m_epollfd l) MAXEVENTS (kernel (world l)) = (Inr [\<lparr>events = EPOLLIN, data_ptr = data_ptr ev\<rparr>], k)"
      "view k = v\<lparr>v_woken := []\<rparr>" by blast
  then have "on_kernel (p_wait K (m_epollfd l) MAXEVENTS) (world l) =
      (Inr [\<lparr>events = EPOLLIN, data_ptr = data_ptr ev\<rparr>], (world l)\<lparr>kernel := k\<rparr>)" by (simp add: on_kernel_def)
  with k(2) show ?thesis by (subst execute.simps) (auto simp: fill_events_def Let_def intro!: exI [of _ k])
qed

lemma execute_turn:
  assumes n: "notified_state view c a opened l"
  shows "\<exists>l'. (if EVENTLIMIT \<le> Suc c then execute (perf_env K) l = Some (Some 0, l') \<and> eventCount (world l') = Suc c
       else execute (perf_env K) l = execute (perf_env K) l' \<and> notified_state view (Suc c) a opened l') \<and>
     set_up view a opened l' \<and> m_epollfd l' = m_epollfd l \<and> m_stopFd l' = m_stopFd l \<and>
     notifier (world l') = notifier (world l)"
proof -
  define v where "v = view (kernel (world l))"
  define fd where "fd = n_fd (notifier (world l))"
  have u: "m_eventInfos l = [(fd, a)]" "heap l = [a \<mapsto> \<lparr>inEvent = Some (), outEvent = None\<rparr>]"
    "n_handler (notifier (world l)) = Some (User ())" "fd \<noteq> m_stopFd l" "v_opened v = opened" "fd \<in> set opened"
    "m_stopFd l \<in> set opened" "v_watched v (m_stopFd l) = Some stop_event"
    "v_count v fd = 1" "v_count v (m_stopFd l) = 0" "v_woken v = [fd]" "eventCount (world l) = c"
    using n by (simp_all add: notified_state_def set_up_def Let_def v_def fd_def)
  obtain e where e: "v_watched v fd = Some \<lparr>events = e, data_ptr = Some a\<rparr>"
    using n by (auto simp: notified_state_def set_up_def Let_def v_def fd_def)
  obtain k where k: "view k = v\<lparr>v_woken := []\<rparr>"
    "execute (perf_env K) l =
      Option.bind (rounds (perf_env K) (l\<lparr>m_events := \<lparr>events = EPOLLIN, data_ptr = Some a\<rparr> # drop 1 (m_events l),
          world := (world l)\<lparr>kernel := k\<rparr>, m_eventCount := 1\<rparr>))
        (\<lambda>d. case d of
               Next _ l' \<Rightarrow> execute (perf_env K) l'
             | Stopped l' \<Rightarrow> Some (Some 0, l')
             | Crashed l' \<Rightarrow> Some (None, l'))"
    using wake [OF v_def u(11) e] u(9) by auto
  define l1 where "l1 = l\<lparr>m_events := \<lparr>events = EPOLLIN, data_ptr = Some a\<rparr> # drop 1 (m_events l),
          world := (world l)\<lparr>kernel := k\<rparr>, m_eventCount := 1\<rparr>"
  have "\<exists>w'. run_process K () l1 = (Returns 0, l1\<lparr>world := w'\<rparr>) \<and> eventCount w' = Suc (eventCount (world l1)) \<and>
    notifier w' = notifier (world l1) \<and>
    view (kernel w') =
      (if EVENTLIMIT \<le> Suc (eventCount (world l1))
       then (view k)\<lparr>v_count := (v_count (view k))(fd := 0, m_stopFd l1 := 1), v_woken := List.insert (m_stopFd l1) (v_woken (view k))\<rparr>
       else (view k)\<lparr>v_woken := List.insert fd (v_woken (view k))\<rparr>)"
    by (rule process_notified) (simp_all add: l1_def k(1) u e flip: fd_def)
  then obtain w' where w': "run_process K () l1 = (Returns 0, l1\<lparr>world := w'\<rparr>)" "eventCount w' = Suc c"
    "notifier w' = notifier (world l)"
    "view (kernel w') = (if EVENTLIMIT \<le> Suc c
       then v\<lparr>v_count := (v_count v)(fd := 0, m_stopFd l := 1), v_woken := [m_stopFd l]\<rparr>
       else v\<lparr>v_woken := [fd]\<rparr>)"
    by (auto simp: l1_def k(1) u List.insert_def)
  define l2 where "l2 = l1\<lparr>world := w', m_events := \<lparr>events = EPOLLIN AND NOT EPOLLIN, data_ptr = Some a\<rparr> # drop 1 (m_events l)\<rparr>"
  have "rounds (perf_env K) l1 = Some (Next 0 l2)"
    unfolding l2_def by (rule rounds_once [OF _ _ _ w'(1)]) (simp_all add: l1_def u)
  then have ex: "execute (perf_env K) l = execute (perf_env K) l2" using k(2) by (simp add: l1_def)
  have keep: "m_epollfd l2 = m_epollfd l" "m_stopFd l2 = m_stopFd l" "world l2 = w'" "m_eventInfos l2 = m_eventInfos l"
    "heap l2 = heap l"
    by (simp_all add: l2_def l1_def)
  have up: "set_up view a opened l2"
    using u e w'(3,4) keep by (auto simp: set_up_def Let_def simp flip: fd_def)
  show ?thesis
  proof (cases "EVENTLIMIT \<le> Suc c")
    case False
    then have "notified_state view (Suc c) a opened l2"
      using up u w'(2,3,4) keep by (simp add: notified_state_def Let_def flip: fd_def)
    with False ex up keep w'(3) show ?thesis by auto
  next
    case True
    let ?v = "v\<lparr>v_count := (v_count v)(fd := 0, m_stopFd l := 1), v_woken := [m_stopFd l]\<rparr>"
    have v2: "?v = view (kernel (world l2))" using True w'(4) keep by simp
    obtain k3 where k3: "view k3 = ?v\<lparr>v_woken := []\<rparr>"
      "execute (perf_env K) l2 =
      Option.bind (rounds (perf_env K) (l2\<lparr>m_events := \<lparr>events = EPOLLIN, data_ptr = None\<rparr> # drop 1 (m_events l2),
          world := (world l2)\<lparr>kernel := k3\<rparr>, m_eventCount := 1\<rparr>))
        (\<lambda>d. case d of
               Next _ l' \<Rightarrow> execute (perf_env K) l'
             | Stopped l' \<Rightarrow> Some (Some 0, l')
             | Crashed l' \<Rightarrow> Some (None, l'))"
      using wake [OF v2, of "m_stopFd l" stop_event] u(8) by (auto simp: stop_event_def)
    define l3 where "l3 = l2\<lparr>m_events := \<lparr>events = EPOLLIN, data_ptr = None\<rparr> # drop 1 (m_events l2),
          world := (world l2)\<lparr>kernel := k3\<rparr>, m_eventCount := 1\<rparr>"
    have "rounds (perf_env K) l3 = Some (Stopped l3)" by (rule rounds_stop) (simp_all add: l3_def)
    then have "execute (perf_env K) l = Some (Some 0, l3)" using ex k3(2) by (simp add: l3_def)
    moreover have "set_up view a opened l3"
      using up k3(1) by (simp add: set_up_def Let_def l3_def flip: v2)
    moreover have "eventCount (world l3) = Suc c" "notifier (world l3) = notifier (world l)"
      "m_epollfd l3 = m_epollfd l" "m_stopFd l3 = m_stopFd l"
      using w'(2,3) keep by (simp_all add: l3_def)
    ultimately show ?thesis using True by auto
  qed
qed

lemma execute_counts:
  "notified_state view c a opened l \<Longrightarrow> c < EVENTLIMIT \<Longrightarrow>
   \<exists>l'. execute (perf_env K) l = Some (Some 0, l') \<and> eventCount (world l') = EVENTLIMIT \<and>
     set_up view a opened l' \<and> m_epollfd l' = m_epollfd l \<and> m_stopFd l' = m_stopFd l \<and>
     notifier (world l') = notifier (world l)"
proof (induction "EVENTLIMIT - c" arbitrary: c l)
  case (Suc n)
  from execute_turn [OF Suc.prems(1)] obtain l1 where l1:
    "if EVENTLIMIT \<le> Suc c then execute (perf_env K) l = Some (Some 0, l1) \<and> eventCount (world l1) = Suc c
       else execute (perf_env K) l = execute (perf_env K) l1 \<and> notified_state view (Suc c) a opened l1"
    "set_up view a opened l1" "m_epollfd l1 = m_epollfd l" "m_stopFd l1 = m_stopFd l" "notifier (world l1) = notifier (world l)"
    by blast
  show ?case
  proof (cases "EVENTLIMIT \<le> Suc c")
    case True
    with Suc.prems(2) have "Suc c = EVENTLIMIT" by simp
    with True l1 show ?thesis by auto
  next
    case False
    with l1(1) have "execute (perf_env K) l = execute (perf_env K) l1" "notified_state view (Suc c) a opened l1" by simp_all
    with Suc.hyps(1) [of "Suc c" l1] Suc.hyps(2) False l1 show ?thesis by auto
  qed
qed simp

end

section \<open>Making and destroying\<close>

text \<open>What the constructor of a notifier leaves in a loop without others\<close>

definition registered :: "('k \<Rightarrow> kernel_view) \<Rightarrow> fd \<Rightarrow> (unit, 'k perf) loop \<Rightarrow> (unit, 'k perf) loop \<Rightarrow> bool" where
  "registered view fd l l' \<longleftrightarrow>
     (let v = view (kernel (world l)); v' = view (kernel (world l')); a = first_free [] in
      fd \<notin> set (v_opened v) \<and> m_eventInfos l' = [(fd, a)] \<and> heap l' = [a \<mapsto> \<lparr>inEvent = Some (), outEvent = None\<rparr>] \<and>
      m_epollfd l' = m_epollfd l \<and> m_stopFd l' = m_stopFd l \<and> m_eventCount l' = m_eventCount l \<and>
      eventCount (world l') = eventCount (world l) \<and> notifier (world l') = \<lparr>n_fd = fd, n_handler = Some nop\<rparr> \<and>
      v' = v\<lparr>v_opened := fd # v_opened v, v_count := (v_count v)(fd := 0),
        v_watched := (v_watched v)(fd \<mapsto> \<lparr>events = EPOLLIN OR EPOLLET, data_ptr = Some a\<rparr>)\<rparr>)"

context event_kernel
begin

lemma loop_made:
  assumes "length (v_opened (view (kernel w))) + 2 \<le> fd_limit"
  shows "\<exists>l w'. EventLoop_init (perf_env K) loopEvents w = (Inr l, w') \<and>
    empty_loop view (v_opened (view (kernel w))) l"
proof -
  let ?v = "view (kernel w)"
  obtain ep k1 where k1: "p_epoll_create K (kernel w) = (Inr ep, k1)" "ep \<notin> set (v_opened ?v)"
    "view k1 = ?v\<lparr>v_opened := ep # v_opened ?v, v_watched := Map.empty, v_woken := []\<rparr>"
    using epoll_create [of "kernel w"] assms by auto
  obtain st k2 where k2: "p_eventfd K k1 = (Inr st, k2)" "st \<notin> set (ep # v_opened ?v)"
    "view k2 = (view k1)\<lparr>v_opened := st # ep # v_opened ?v, v_count := (v_count ?v)(st := 0)\<rparr>"
    using eventfd [of k1] k1(3) assms by auto
  obtain k3 where k3: "p_ctl K ep CTL_ADD st stop_event k2 = (True, k3)"
    "view k3 = (view k2)\<lparr>v_watched := [st \<mapsto> stop_event]\<rparr>"
    using ctl_add [of st k2 ep stop_event] k1(3) k2(3) by auto
  have "EventLoop_init (perf_env K) loopEvents w =
      (Inr \<lparr>m_epollfd = ep, m_stopFd = st, m_eventInfos = [], heap = Map.empty, m_events = loopEvents,
         m_eventCount = 0, world = w\<lparr>kernel := k3\<rparr>\<rparr>, w\<lparr>kernel := k3\<rparr>)"
    using k1(1) k2(1) k3(1)
    by (simp add: EventLoop_init_def on_kernel_def Let_def stop_event_def)
  then show ?thesis using k1(2,3) k2(2,3) k3(2) by (auto simp: empty_loop_def Let_def)
qed

lemma notifier_made:
  assumes e: "empty_loop view opened l" and lim: "length opened + 3 \<le> fd_limit"
  shows "\<exists>fd l'. Notifier_init (make_eventfd K) (perf_env K) () l =
      Some (Inr \<lparr>n_fd = fd, n_handler = Some (nop :: unit handler)\<rparr>, l') \<and>
    registered view fd l l'"
proof -
  define v where "v = view (kernel (world l))"
  have v: "v_opened v = m_stopFd l # m_epollfd l # opened" "v_watched v = [m_stopFd l \<mapsto> stop_event]"
    "m_eventInfos l = []" "heap l = Map.empty"
    using e by (simp_all add: empty_loop_def Let_def v_def)
  obtain fd k1 where k1: "p_eventfd K (kernel (world l)) = (Inr fd, k1)" "fd \<notin> set (v_opened v)" "0 \<le> fd"
    "view k1 = v\<lparr>v_opened := fd # v_opened v, v_count := (v_count v)(fd := 0)\<rparr>"
    using eventfd [of "kernel (world l)"] lim v(1) by (auto simp: v_def)
  let ?ev = "\<lparr>events = EPOLLIN OR EPOLLET, data_ptr = Some (first_free [])\<rparr>"
  have "v_watched (view k1) fd = None" using k1(2,4) v by auto
  then obtain k2 where k2: "p_ctl K (m_epollfd l) CTL_ADD fd ?ev k1 = (True, k2)"
    "view k2 = (view k1)\<lparr>v_watched := (v_watched (view k1))(fd \<mapsto> ?ev)\<rparr>"
    using ctl_add [of fd k1 "m_epollfd l" ?ev] k1(4) by auto
  obtain r k3 where k3: "p_read K fd k2 = (r, k3)" "view k3 = (view k2)\<lparr>v_count := (v_count (view k2))(fd := 0)\<rparr>"
    "case r of Inl e \<Rightarrow> v_count (view k2) fd = 0 | Inr c \<Rightarrow> 0 < c \<and> unat c = v_count (view k2) fd"
    using reads [of fd k2] k1(4) k2(2) by auto
  have "v_count (view k2) fd = 0" using k1(4) k2(2) by simp
  with k3(3) obtain er where er: "r = Inl er" by (cases r) (auto simp: word_neq_0_conv unat_eq_zero)
  let ?n = "\<lparr>n_fd = fd, n_handler = Some (nop :: unit handler)\<rparr>"
  define l1 where "l1 = l\<lparr>m_eventInfos := [(fd, first_free [])],
      heap := [first_free [] \<mapsto> \<lparr>inEvent = Some (), outEvent = None\<rparr>],
      world := (world l)\<lparr>notifier := ?n, kernel := k2\<rparr>\<rparr>"
  have "run_process K () l1 = (Returns (-1), l1\<lparr>world := (world l1)\<lparr>kernel := k3\<rparr>\<rparr>)"
    using k3(1) er by (simp add: run_process_def notifier_in_def Notifier_process_def l1_def on_kernel_def)
  then have "call_until (perf_env K) () l1 = Some (Returns 0, l1\<lparr>world := (world l1)\<lparr>kernel := k3\<rparr>\<rparr>)"
    by (subst call_until.simps) simp
  moreover have "register_in (perf_env K) fd () (l\<lparr>world := (world l)\<lparr>notifier := ?n, kernel := k1\<rparr>\<rparr>) = (True, l1)"
    using k2(1) v(3,4) by (simp add: loop_simps on_kernel_def l1_def Let_def)
  moreover have "make_eventfd K (world l) = (Inr fd, (world l)\<lparr>notifier := ?n, kernel := k1\<rparr>)"
    using k1(1) by (simp add: make_eventfd_def on_kernel_def)
  ultimately have "Notifier_init (make_eventfd K) (perf_env K) () l = Some (Inr ?n, l1\<lparr>world := (world l1)\<lparr>kernel := k3\<rparr>\<rparr>)"
    using k1(3) by (simp add: Notifier_init_def addEvent_def)
  moreover have "registered view fd l (l1\<lparr>world := (world l1)\<lparr>kernel := k3\<rparr>\<rparr>)"
    using k1(2,4) k2(2) k3(2) by (simp add: registered_def Let_def l1_def flip: v_def)
  ultimately show ?thesis by blast
qed

text \<open>Destroying the only notifier\<close>

lemma notifier_gone:
  assumes "m_eventInfos l = [(n_fd n, a)]" "heap l = [a \<mapsto> \<lparr>inEvent = Some (), outEvent = None\<rparr>]"
    and "v = view (kernel (world l))" "v_watched v (n_fd n) \<noteq> None"
  shows "\<exists>l'. Notifier_destroy (perf_env K) n l = l' \<and> m_eventInfos l' = [] \<and> heap l' = Map.empty \<and>
    m_epollfd l' = m_epollfd l \<and> m_stopFd l' = m_stopFd l \<and> m_eventCount l' = m_eventCount l \<and>
    eventCount (world l') = eventCount (world l) \<and>
    view (kernel (world l')) = v\<lparr>v_opened := removeAll (n_fd n) (v_opened v),
      v_watched := (v_watched v)(n_fd n := None), v_woken := removeAll (n_fd n) (v_woken v)\<rparr>"
proof -
  obtain k where k: "p_ctl K (m_epollfd l) CTL_DEL (n_fd n) no_event (kernel (world l)) = (True, k)"
    "view k = v\<lparr>v_watched := (v_watched v)(n_fd n := None), v_woken := removeAll (n_fd n) (v_woken v)\<rparr>"
    using ctl_del [of "kernel (world l)" "n_fd n" "m_epollfd l" no_event] assms(3,4) by auto
  have "view (p_close K (n_fd n) k) = v\<lparr>v_opened := removeAll (n_fd n) (v_opened v),
      v_watched := (v_watched v)(n_fd n := None), v_woken := removeAll (n_fd n) (v_woken v)\<rparr>"
    using closes [of "n_fd n" k] k(2) by simp
  with k(1) assms(1,2) show ?thesis
    by (simp add: Notifier_destroy_def eraseEvent_def node_def epoll_ctl_def on_kernel_def erase_info_def
        clear_pending_def Let_def)
qed

text \<open>Destroying the loop closes its two descriptors.\<close>

lemma loop_gone:
  assumes "v = view (kernel (world l))" "m_stopFd l \<in> set (v_opened v)" "v_count v (m_stopFd l) \<le> 1"
  shows "v_opened (view (kernel (EventLoop_destroy (perf_env K) l))) =
      removeAll (m_stopFd l) (removeAll (m_epollfd l) (v_opened v)) \<and>
    eventCount (EventLoop_destroy (perf_env K) l) = eventCount (world l)"
proof -
  have "v_count (view (kernel (world l))) (m_stopFd l) + unat (1 :: u64) < 2 ^ 64 - 1" using assms by simp
  from write_kernel [OF _ this] assms obtain w' where
    "on_kernel (p_write K (m_stopFd l) 1) (world l) = (8, w')" "eventCount w' = eventCount (world l)"
    "v_opened (view (kernel w')) = v_opened v" by auto
  then show ?thesis
    by (simp add: EventLoop_destroy_def stop_def Let_def closes)
qed

lemma add_remove_keeps:
  "empty_loop view opened l \<Longrightarrow> length opened + 3 \<le> fd_limit \<Longrightarrow>
   \<exists>l'. add_remove K turns l = Some (True, l') \<and> empty_loop view opened l' \<and> eventCount (world l') = eventCount (world l)"
proof (induction turns arbitrary: l)
  case (Suc turns)
  define v where "v = view (kernel (world l))"
  obtain fd l1 where l1: "Notifier_init (make_eventfd K) (perf_env K) () l =
      Some (Inr \<lparr>n_fd = fd, n_handler = Some (nop :: unit handler)\<rparr>, l1)" "registered view fd l l1"
    using notifier_made [OF Suc.prems] by blast
  let ?n = "\<lparr>n_fd = fd, n_handler = Some (nop :: unit handler)\<rparr>" and ?a = "first_free []"
  let ?ev = "\<lparr>events = EPOLLIN OR EPOLLET, data_ptr = Some ?a\<rparr>"
  have e: "v_opened v = m_stopFd l # m_epollfd l # opened" "v_watched v = [m_stopFd l \<mapsto> stop_event]" "v_woken v = []"
    "m_stopFd l \<noteq> m_epollfd l" "m_stopFd l \<notin> set opened" "m_epollfd l \<notin> set opened" "v_count v (m_stopFd l) = 0"
    "m_eventCount l = 0"
    using Suc.prems(1) by (simp_all add: empty_loop_def Let_def v_def)
  have r: "fd \<notin> set (v_opened v)" "m_eventInfos l1 = [(fd, ?a)]" "heap l1 = [?a \<mapsto> \<lparr>inEvent = Some (), outEvent = None\<rparr>]"
    "m_epollfd l1 = m_epollfd l" "m_stopFd l1 = m_stopFd l" "m_eventCount l1 = m_eventCount l"
    "eventCount (world l1) = eventCount (world l)"
    "view (kernel (world l1)) = v\<lparr>v_opened := fd # v_opened v, v_count := (v_count v)(fd := 0),
        v_watched := (v_watched v)(fd \<mapsto> ?ev)\<rparr>"
    using l1(2) by (simp_all add: registered_def Let_def v_def)
  obtain l2 where l2: "Notifier_destroy (perf_env K) ?n l1 = l2" "m_eventInfos l2 = []" "heap l2 = Map.empty"
    "m_epollfd l2 = m_epollfd l1" "m_stopFd l2 = m_stopFd l1" "m_eventCount l2 = m_eventCount l1"
    "eventCount (world l2) = eventCount (world l1)"
    "view (kernel (world l2)) = (view (kernel (world l1)))\<lparr>v_opened := removeAll fd (v_opened (view (kernel (world l1)))),
      v_watched := (v_watched (view (kernel (world l1))))(fd := None),
      v_woken := removeAll fd (v_woken (view (kernel (world l1))))\<rparr>"
    using notifier_gone [of l1 ?n ?a, OF _ _ refl] r(2,3,8) by auto
  have "empty_loop view opened l2"
    using e r(1,4,5,6,8) l2(2-6,8) by (auto simp: empty_loop_def Let_def)
  from Suc.IH [OF this Suc.prems(2)] l1(1) l2(1,7) r(7) show ?case by auto
qed simp

lemma perf_notify_counts:
  assumes lim: "length (v_opened (view (kernel w))) + 3 \<le> fd_limit"
  shows "\<exists>w'. perf_notify K loopEvents w = Some (Some EVENTLIMIT, w') \<and>
    v_opened (view (kernel w')) = v_opened (view (kernel w))"
proof -
  define opened where "opened = v_opened (view (kernel w))"
  have lim2: "length (v_opened (view (kernel w))) + 2 \<le> fd_limit" and lim3: "length opened + 3 \<le> fd_limit"
    using lim by (simp_all add: opened_def)
  obtain l w0 where l: "EventLoop_init (perf_env K) loopEvents w = (Inr l, w0)" "empty_loop view opened l"
    using loop_made [OF lim2] unfolding opened_def by blast
  define v where "v = view (kernel (world l))"
  obtain fd l1 where l1: "Notifier_init (make_eventfd K) (perf_env K) () l =
      Some (Inr \<lparr>n_fd = fd, n_handler = Some (nop :: unit handler)\<rparr>, l1)" "registered view fd l l1"
    using notifier_made [OF l(2) lim3] by blast
  let ?n = "\<lparr>n_fd = fd, n_handler = Some (nop :: unit handler)\<rparr>" and ?a = "first_free []"
  let ?ev = "\<lparr>events = EPOLLIN OR EPOLLET, data_ptr = Some ?a\<rparr>"
  have e: "v_opened v = m_stopFd l # m_epollfd l # opened" "v_watched v = [m_stopFd l \<mapsto> stop_event]" "v_woken v = []"
    "m_stopFd l \<noteq> m_epollfd l" "m_stopFd l \<notin> set opened" "m_epollfd l \<notin> set opened" "v_count v (m_stopFd l) = 0"
    using l(2) by (simp_all add: empty_loop_def Let_def v_def)
  have r: "fd \<notin> set (v_opened v)" "m_eventInfos l1 = [(fd, ?a)]" "heap l1 = [?a \<mapsto> \<lparr>inEvent = Some (), outEvent = None\<rparr>]"
    "m_epollfd l1 = m_epollfd l" "m_stopFd l1 = m_stopFd l" "notifier (world l1) = ?n"
    "view (kernel (world l1)) = v\<lparr>v_opened := fd # v_opened v, v_count := (v_count v)(fd := 0),
        v_watched := (v_watched v)(fd \<mapsto> ?ev)\<rparr>"
    using l1(2) by (simp_all add: registered_def Let_def v_def)
  \<comment> \<open>setting the callback and the first notification\<close>
  define w1 where "w1 = (world l1)\<lparr>eventCount := 0, notifier := \<lparr>n_fd = fd, n_handler = Some (User ())\<rparr>\<rparr>"
  have "fd \<in> set (v_opened (view (kernel w1)))" "v_count (view (kernel w1)) fd + unat (1 :: u64) < 2 ^ 64 - 1"
    by (simp_all add: w1_def r(7))
  from write_kernel [OF this] obtain w2 where w2: "on_kernel (p_write K fd 1) w1 = (8, w2)" "eventCount w2 = 0"
    "notifier w2 = \<lparr>n_fd = fd, n_handler = Some (User ())\<rparr>"
    "view (kernel w2) = v\<lparr>v_opened := fd # v_opened v, v_count := (v_count v)(fd := 1),
        v_watched := (v_watched v)(fd \<mapsto> ?ev), v_woken := [fd]\<rparr>"
    by (auto simp: w1_def r(7) e(3))
  have sn: "set_and_notify K ((world l1)\<lparr>eventCount := 0\<rparr>) = w2"
    using w2(1) r(6) by (simp add: set_and_notify_def Notifier_set_def notify_def notifier_in_def w1_def Let_def)
  let ?l2 = "l1\<lparr>world := w2\<rparr>" and ?opened = "fd # m_stopFd l # m_epollfd l # opened"
  have "notified_state view 0 ?a ?opened ?l2"
    using r(1-5) e w2(2-4) by (auto simp: notified_state_def set_up_def Let_def)
  from execute_counts [OF this] obtain l3 where l3: "execute (perf_env K) ?l2 = Some (Some 0, l3)"
    "eventCount (world l3) = EVENTLIMIT" "set_up view ?a ?opened l3" "m_epollfd l3 = m_epollfd l" "m_stopFd l3 = m_stopFd l"
    "n_fd (notifier (world l3)) = fd"
    using r(4,5) w2(3) by (auto simp: EVENTLIMIT_def)
  define v3 where "v3 = view (kernel (world l3))"
  have u: "m_eventInfos l3 = [(fd, ?a)]" "heap l3 = [?a \<mapsto> \<lparr>inEvent = Some (), outEvent = None\<rparr>]"
    "v_opened v3 = ?opened" "v_watched v3 fd \<noteq> None" "v_count v3 (m_stopFd l) \<le> 1"
    using l3(3,5,6) by (auto simp: set_up_def Let_def v3_def)
  obtain l4 where l4: "Notifier_destroy (perf_env K) ?n l3 = l4" "m_epollfd l4 = m_epollfd l3" "m_stopFd l4 = m_stopFd l3"
    "view (kernel (world l4)) = v3\<lparr>v_opened := removeAll fd (v_opened v3),
      v_watched := (v_watched v3)(fd := None), v_woken := removeAll fd (v_woken v3)\<rparr>"
    using notifier_gone [of l3 ?n ?a, OF _ _ v3_def] u by auto
  have "v_opened (view (kernel (EventLoop_destroy (perf_env K) l4))) = opened"
    using loop_gone [of _ l4, OF refl] l3(4,5) l4(2-4) u(3,5) e(1,4-6) r(1) by auto
  moreover have "perf_notify K loopEvents w = Some (Some EVENTLIMIT, EventLoop_destroy (perf_env K) l4)"
    using l(1) l1(1) sn l3(1,2) l4(1) by (simp add: perf_notify_def Let_def)
  ultimately show ?thesis by (simp add: opened_def)
qed

lemma addRemove_ends:
  assumes lim: "length (v_opened (view (kernel w))) + 3 \<le> fd_limit"
  shows "\<exists>w'. addRemove K loopEvents w = Some (True, w') \<and> v_opened (view (kernel w')) = v_opened (view (kernel w))"
proof -
  define opened where "opened = v_opened (view (kernel w))"
  have lim2: "length (v_opened (view (kernel w))) + 2 \<le> fd_limit" and lim3: "length opened + 3 \<le> fd_limit"
    using lim by (simp_all add: opened_def)
  obtain l w0 where l: "EventLoop_init (perf_env K) loopEvents w = (Inr l, w0)" "empty_loop view opened l"
    using loop_made [OF lim2] unfolding opened_def by blast
  obtain l' where l': "add_remove K EVENTLIMIT l = Some (True, l')" "empty_loop view opened l'"
    using add_remove_keeps [OF l(2) lim3] by blast
  have "v_opened (view (kernel (EventLoop_destroy (perf_env K) l'))) = opened"
    using loop_gone [of _ l', OF refl] l'(2) by (auto simp: empty_loop_def Let_def)
  with l l' show ?thesis by (simp add: addRemove_def opened_def)
qed

lemma perf_main_ends:
  assumes "length (v_opened (view (kernel w))) + 3 \<le> fd_limit"
  shows "\<exists>w'. perf_main K loopEvents loopEvents2 w = Some (Some EVENTLIMIT, True, w') \<and>
    v_opened (view (kernel w')) = v_opened (view (kernel w))"
proof -
  obtain w1 where w1: "perf_notify K loopEvents w = Some (Some EVENTLIMIT, w1)"
    "v_opened (view (kernel w1)) = v_opened (view (kernel w))"
    using perf_notify_counts [OF assms] by blast
  from addRemove_ends [of w1 loopEvents2] assms w1(2) obtain w2 where
    "addRemove K loopEvents2 w1 = Some (True, w2)" "v_opened (view (kernel w2)) = v_opened (view (kernel w))" by auto
  with w1(1) show ?thesis by (simp add: perf_main_def)
qed

end

section \<open>A kernel that computes\<close>

text \<open>The kernel is what is seen of it, with room for \<open>fd_limit\<close> descriptors.\<close>

definition unused_fd :: "fd list \<Rightarrow> fd" where
  "unused_fd opened = Max (set (-1 # opened)) + 1"

lemma unused_fd: "unused_fd opened \<notin> set opened" "0 \<le> unused_fd opened"
proof -
  have le: "x < unused_fd opened" if "x \<in> set (-1 # opened)" for x
    using Max_ge [OF finite_set that] unfolding unused_fd_def by linarith
  from le [of "unused_fd opened"] le [of "-1"] have "unused_fd opened \<notin> set opened \<and> -1 < unused_fd opened" by auto
  then show "unused_fd opened \<notin> set opened" "0 \<le> unused_fd opened" by simp_all
qed

lemma u64_of_count: "0 < n \<Longrightarrow> n < 2 ^ 64 \<Longrightarrow> 0 < (of_nat n :: u64) \<and> unat (of_nat n :: u64) = n"
proof -
  assume n: "0 < n" "n < 2 ^ 64"
  then have u: "unat (of_nat n :: u64) = n" by (simp add: unsigned_of_nat take_bit_nat_eq_self)
  with n(1) have "(of_nat n :: u64) \<noteq> 0" by (metis unsigned_0 less_numeral_extra(3))
  with u show ?thesis by (simp add: word_neq_0_conv)
qed

definition counter_write :: "fd \<Rightarrow> u64 \<Rightarrow> kernel_view \<Rightarrow> int \<times> kernel_view" where
  "counter_write fd v k =
     (if fd \<in> set (v_opened k) \<and> v_count k fd + unat v < 2 ^ 64 - 1
      then (8, k\<lparr>v_count := (v_count k)(fd := v_count k fd + unat v),
               v_woken := (if v_watched k fd = None then v_woken k else List.insert fd (v_woken k))\<rparr>)
      else (-1, k))"

definition counter_read :: "fd \<Rightarrow> kernel_view \<Rightarrow> u64 sysres \<times> kernel_view" where
  "counter_read fd k =
     (if v_count k fd = 0 then (Inl EAGAIN, k) else (Inr (of_nat (v_count k fd)), k\<lparr>v_count := (v_count k)(fd := 0)\<rparr>))"

fun watch :: "ctl_op \<Rightarrow> fd \<Rightarrow> epoll_event \<Rightarrow> kernel_view \<Rightarrow> bool \<times> kernel_view" where
  "watch CTL_ADD fd ev k =
     (if fd \<in> set (v_opened k) \<and> v_watched k fd = None
      then (True, k\<lparr>v_watched := (v_watched k)(fd \<mapsto> ev),
               v_woken := (if v_count k fd = 0 then v_woken k else List.insert fd (v_woken k))\<rparr>)
      else (False, k))"
| "watch CTL_MOD fd ev k =
     (if v_watched k fd \<noteq> None then (True, k\<lparr>v_watched := (v_watched k)(fd \<mapsto> ev)\<rparr>) else (False, k))"
| "watch CTL_DEL fd ev k =
     (if v_watched k fd \<noteq> None
      then (True, k\<lparr>v_watched := (v_watched k)(fd := None), v_woken := removeAll fd (v_woken k)\<rparr>) else (False, k))"

text \<open>Where the program would wait for ever, waiting fails.\<close>

definition watch_wait :: "nat \<Rightarrow> kernel_view \<Rightarrow> epoll_event list sysres \<times> kernel_view" where
  "watch_wait n k =
     (case filter (\<lambda>fd. v_watched k fd \<noteq> None \<and> 0 < v_count k fd) (v_woken k) of
        [] \<Rightarrow> (Inl (EOTHER 0), k)
      | fds \<Rightarrow> (Inr (map (\<lambda>fd. \<lparr>events = EPOLLIN, data_ptr = data_ptr (the (v_watched k fd))\<rparr>) (take n fds)),
                 k\<lparr>v_woken := drop n fds\<rparr>))"

definition open_fd :: "nat \<Rightarrow> kernel_view \<Rightarrow> fd sysres \<times> kernel_view" where
  "open_fd limit k =
     (let fd = unused_fd (v_opened k) in
      if length (v_opened k) < limit
      then (Inr fd, k\<lparr>v_opened := fd # v_opened k, v_count := (v_count k)(fd := 0)\<rparr>) else (Inl (EOTHER 24), k))"

definition view_calls :: "nat \<Rightarrow> kernel_view event_calls" where
  "view_calls limit = \<lparr>
     p_epoll_create = (\<lambda>k. if length (v_opened k) < limit
       then (Inr (unused_fd (v_opened k)), k\<lparr>v_opened := unused_fd (v_opened k) # v_opened k, v_watched := Map.empty, v_woken := []\<rparr>)
       else (Inl (EOTHER 24), k)),
     p_eventfd = open_fd limit, p_ctl = (\<lambda>ep. watch), p_wait = (\<lambda>ep. watch_wait),
     p_write = counter_write, p_read = counter_read,
     p_close = (\<lambda>fd k. k\<lparr>v_opened := removeAll fd (v_opened k), v_watched := (v_watched k)(fd := None),
       v_woken := removeAll fd (v_woken k)\<rparr>)\<rparr>"

lemma view_calls_simps [kernel_calls]:
  "p_eventfd (view_calls limit) = open_fd limit" "p_ctl (view_calls limit) ep = watch"
  "p_wait (view_calls limit) ep = watch_wait" "p_write (view_calls limit) = counter_write"
  "p_read (view_calls limit) = counter_read"
  by (simp_all add: view_calls_def)

interpretation counters: event_kernel "view_calls limit" "\<lambda>k. k" limit
proof
  fix fd ev ep n v and k :: kernel_view
  show "length (v_opened k) < limit \<Longrightarrow> \<exists>fd k'. p_epoll_create (view_calls limit) k = (Inr fd, k') \<and>
      fd \<notin> set (v_opened k) \<and> 0 \<le> fd \<and> k' = k\<lparr>v_opened := fd # v_opened k, v_watched := Map.empty, v_woken := []\<rparr>"
    by (simp add: view_calls_def unused_fd)
  show "length (v_opened k) < limit \<Longrightarrow> \<exists>fd k'. p_eventfd (view_calls limit) k = (Inr fd, k') \<and>
      fd \<notin> set (v_opened k) \<and> 0 \<le> fd \<and> k' = k\<lparr>v_opened := fd # v_opened k, v_count := (v_count k)(fd := 0)\<rparr>"
    by (simp add: kernel_calls open_fd_def Let_def unused_fd)
  show "fd \<in> set (v_opened k) \<Longrightarrow> v_watched k fd = None \<Longrightarrow> v_count k fd = 0 \<Longrightarrow>
      \<exists>k'. p_ctl (view_calls limit) ep CTL_ADD fd ev k = (True, k') \<and> k' = k\<lparr>v_watched := (v_watched k)(fd \<mapsto> ev)\<rparr>"
    by (simp add: kernel_calls)
  show "v_watched k fd \<noteq> None \<Longrightarrow> \<exists>k'. p_ctl (view_calls limit) ep CTL_DEL fd ev k = (True, k') \<and>
      k' = k\<lparr>v_watched := (v_watched k)(fd := None), v_woken := removeAll fd (v_woken k)\<rparr>"
    by (simp add: kernel_calls)
  show "v_woken k = [fd] \<Longrightarrow> v_watched k fd = Some ev \<Longrightarrow> 0 < v_count k fd \<Longrightarrow> 0 < n \<Longrightarrow>
      \<exists>k'. p_wait (view_calls limit) ep n k = (Inr [\<lparr>events = EPOLLIN, data_ptr = data_ptr ev\<rparr>], k') \<and> k' = k\<lparr>v_woken := []\<rparr>"
    by (simp add: kernel_calls watch_wait_def)
  show "fd \<in> set (v_opened k) \<Longrightarrow> v_count k fd + unat v < 2 ^ 64 - 1 \<Longrightarrow>
      \<exists>k'. p_write (view_calls limit) fd v k = (8, k') \<and>
        k' = k\<lparr>v_count := (v_count k)(fd := v_count k fd + unat v),
          v_woken := (if v_watched k fd = None then v_woken k else List.insert fd (v_woken k))\<rparr>"
    by (simp add: kernel_calls counter_write_def)
  show "fd \<in> set (v_opened k) \<Longrightarrow> v_count k fd < 2 ^ 64 \<Longrightarrow>
      \<exists>r k'. p_read (view_calls limit) fd k = (r, k') \<and> k' = k\<lparr>v_count := (v_count k)(fd := 0)\<rparr> \<and>
        (case r of Inl e \<Rightarrow> v_count k fd = 0 | Inr c \<Rightarrow> 0 < c \<and> unat c = v_count k fd)"
    by (auto simp: kernel_calls counter_read_def fun_upd_idem u64_of_count)
  show "p_close (view_calls limit) fd k = k\<lparr>v_opened := removeAll fd (v_opened k),
        v_watched := (v_watched k)(fd := None), v_woken := removeAll fd (v_woken k)\<rparr>"
    by (simp add: view_calls_def)
qed

section \<open>Properties\<close>

text \<open>
  C40: With room for three more descriptors the program comes to its end: the event loop has called
  the callback exactly \<open>EVENTLIMIT\<close> times when it returns, as many notifiers are made and destroyed,
  and at the end the descriptors that are open are those that were open at first.
\<close>

theorem perf_tool_ends:
  assumes "event_kernel K view fd_limit" and "length (v_opened (view (kernel w))) + 3 \<le> fd_limit"
  shows "\<exists>w'. perf_main K loopEvents loopEvents2 w = Some (Some EVENTLIMIT, True, w') \<and>
    v_opened (view (kernel w')) = v_opened (view (kernel w))"
  by (rule event_kernel.perf_main_ends [OF assms])

theorem perf_tool_ends_witness:
  "\<exists>w'. perf_main (view_calls 6) [] [] \<lparr>eventCount = 7, notifier = \<lparr>n_fd = -1, n_handler = None\<rparr>,
       kernel = \<lparr>v_opened = [2, 1, 0], v_count = (\<lambda>_. 0), v_watched = Map.empty, v_woken = []\<rparr>\<rparr> =
     Some (Some 100000, True, w') \<and> v_opened (kernel w') = [2, 1, 0]"
  using perf_tool_ends [OF counters.event_kernel_axioms, of "\<lparr>eventCount = 7, notifier = \<lparr>n_fd = -1, n_handler = None\<rparr>,
       kernel = \<lparr>v_opened = [2, 1, 0], v_count = (\<lambda>_. 0), v_watched = Map.empty, v_woken = []\<rparr>\<rparr>" 6 "[]" "[]"]
  by (simp add: EVENTLIMIT_def)

end
