(* ===== verification/Spec2Isabelle.thy ===== *)
theory Spec2Isabelle
  imports Str_Split Str_Replace Str_Trim Time_Convert Ipv4_Address Ipv6_Address Event_Loop_Props Timer_Notifier
    Tcp_Server Win_Event_Loop Netadapter_List Multicast_Props Netlink_Props
    Win_Socket_Props Win_Tcp_Server Win_Multicast_Props Route_Table Wmi_Objects Win_Netlink
    Pid_File Execute_Command Echo_Tools Net_Tools Perf_Tool
begin

text \<open>
  Verification development of libhbk, a C++ library for event driven communication under Linux and
  Windows, and of its tools. Paths are below \<^verbatim>\<open>src/\<close>; a definition has the name of the function it
  models, with the class or \<open>win_\<close> in front where two of them would clash.

  \<^bold>\<open>The program.\<close> Everything that waits goes through an event loop: a map from descriptors (Linux) or
  handles (Windows) to callbacks for input and output, and a loop that waits for the kernel and calls
  them again and again until they have nothing left to do. Timers, notifiers, sockets, servers,
  multicast servers and the observer of the network (netlink) are objects that own a descriptor,
  register a callback for it and erase it again; sockets transfer data, on top of a reader that fetches
  more than was asked for. The list of network adapters is read from the kernel and is updated by
  netlink; the multicast server joins its group on the adapters of this list. Beside them stand
  functions on strings, times and addresses, exceptions, the pid file and the running of commands.

  \<^bold>\<open>How it is modelled.\<close> An object is a record with the members of its class, and an operation a
  function that returns the new object, with the event loop where it uses one; the system calls are the
  fields of an environment record and act on a type \<open>'w\<close>, the world, which the loop carries. What the
  code relies on of the kernel, of COM, of \<open>inet_pton\<close> and the like are the laws of a locale; the lemmas
  about the code are proved in it, and an interpretation on an environment that computes shows that
  the laws can hold. Exceptions and returned errors are values. Numbers have the width they have in the
  code. Uninitialised memory is an argument. Loops that wait for others are partial functions into
  \<open>option\<close>, with \<^term>\<open>None\<close> for a call that never comes back, so that coming back is part of what is
  proved; no fuel is used. The other loops are total, with a measure where they do not follow the data.

  \<^bold>\<open>Basis.\<close>
  \<^item> \<open>Prelude\<close>: widths, error numbers, the collections \<open>std_string_simps\<close>, \<open>loop_simps\<close> and
    \<open>kernel_calls\<close>, and generic lemmas.
  \<^item> \<open>Std_String\<close>: \<open>std::string\<close> and the conversions of numbers, with the exceptions they throw.

  \<^bold>\<open>Strings\<close> (\<^verbatim>\<open>lib/string\<close>).
  \<^item> \<open>Str_Split\<close> (\<^verbatim>\<open>split.cpp\<close>): both overloads; the tokens give the text back and contain no separator.
  \<^item> \<open>Str_Replace\<close> (\<^verbatim>\<open>replace.cpp\<close>): replacing as splitting and joining; where the loop never ends.
  \<^item> \<open>Str_Trim\<close> (\<^verbatim>\<open>trim.cpp\<close>, \<^verbatim>\<open>readlinefromfile.cpp\<close>): exactly the white space at the ends is cut.

  \<^bold>\<open>Times and addresses.\<close>
  \<^item> \<open>Time_Convert\<close> (\<^verbatim>\<open>lib/sys/timeconvert.cpp\<close>): NTP times at their widths, round trips and their order.
    A \<open>double\<close> is the rational number it stands for; one rounding is a parameter.
  \<^item> \<open>Ipv4_Address\<close>, \<open>Ipv6_Address\<close> (\<^verbatim>\<open>lib/communication/ipv4address.cpp\<close>, \<^verbatim>\<open>ipv6address.cpp\<close>): prefixes and
    netmasks, subnets, the link local address of a MAC address. Locales \<open>inet4\<close> and \<open>inet6\<close>.

  \<^bold>\<open>Event loop, Linux\<close> (\<^verbatim>\<open>lib/sys/linux/eventloop.cpp\<close>).
  \<^item> \<open>Event_Loop\<close>: the code, with the nodes of the map on a heap and the raw pointers that \<open>epoll\<close> holds.
  \<^item> \<open>Event_Loop_Safety\<close>: the locale \<open>epoll\<close> and the invariant \<open>loop_inv\<close>, which every operation keeps:
    what is watched is what is registered, and each pending event points to a node that is alive.
  \<^item> \<open>Event_Loop_Run\<close>: the step relation \<open>loop_step\<close> of the thread in the loop and of the other threads,
    and the invariant along its steps.
  \<^item> \<open>Event_Registry\<close>: the contract of registering, the locale \<open>event_registry\<close>, which both kinds of
    callbacks under Linux and the loop under Windows provide.
  \<^item> \<open>Event_Loop_Script\<close>, \<open>Event_Loop_Props\<close>: an environment of scripted callbacks, and the properties.
  \<^item> \<open>Timer_Notifier\<close> (\<^verbatim>\<open>timer.cpp\<close>, \<^verbatim>\<open>notifier.cpp\<close>): how often the callbacks are called; locales \<open>timerfd\<close>
    and \<open>eventfd\<close>.

  \<^bold>\<open>Sockets and servers, Linux\<close> (\<^verbatim>\<open>lib/communication/linux\<close>).
  \<^item> \<open>Buffered_Reader\<close> (\<^verbatim>\<open>bufferedreader.cpp\<close>, both systems): for which requests it is a stream of bytes
    (locales \<open>byte_source\<close>, \<open>wsa_source\<close>, \<open>stream_recv\<close>), and which lose bytes.
  \<^item> \<open>Socket_Io\<close>, \<open>Socket_Object\<close> (\<^verbatim>\<open>socketnonblocking.cpp\<close>): the blocking transfers (locales \<open>wire\<close>,
    \<open>blocking_recv\<close>); options, connecting, callbacks, disconnecting. A bound on the calls that fail for
    the time being, \<open>patience\<close>, is the measure by which the transfers return.
  \<^item> \<open>Tcp_Server\<close> (\<^verbatim>\<open>tcpserver.cpp\<close>): starting, accepting, stopping; locale \<open>listening_net\<close>.
  \<^item> \<open>Multicast_Server\<close>, \<open>Multicast_Props\<close> (\<^verbatim>\<open>multicastserver.cpp\<close>): membership, descriptors, where datagrams
    go; locales \<open>group_kernel\<close> and \<open>datagram_kernel\<close>.
  \<^item> \<open>Netadapter_List\<close>, \<open>Route_Table\<close> (\<^verbatim>\<open>netadapterlist.cpp\<close>, \<^verbatim>\<open>netadapter.cpp\<close>): the list after an update and
    the queries on it; the default gateway, read from the text of the routing table.
  \<^item> \<open>Netlink\<close>, \<open>Netlink_Props\<close> (\<^verbatim>\<open>netlink.cpp\<close>): the parsing of telegrams on their bytes; it refines the
    reaction \<open>react\<close> to the messages as data.

  \<^bold>\<open>Windows\<close> (\<^verbatim>\<open>lib/sys/windows\<close>, \<^verbatim>\<open>lib/communication/windows\<close>).
  \<^item> \<open>Win_Event_Loop\<close>: the loop on a completion port, timers and notifiers; locales \<open>completion_port\<close>, \<open>timer_queue\<close>.
  \<^item> \<open>Win_Socket\<close>, \<open>Win_Socket_Props\<close>, \<open>Win_Tcp_Server\<close>, \<open>Win_Multicast\<close>, \<open>Win_Multicast_Props\<close>: the same
    classes on Winsock; locales \<open>win_stream\<close>, \<open>win_healthy\<close>, \<open>accept_kernel\<close>.
  \<^item> \<open>Wmi\<close>, \<open>Wmi_Objects\<close> (\<^verbatim>\<open>wmi.cpp\<close>): every call of COM, and which objects are given back (locale
    \<open>com_objects\<close>).
  \<^item> \<open>Win_Netadapter\<close>, \<open>Win_Netlink\<close>: the list of adapters, with the locale \<open>adapter_list\<close> that the lists of
    both systems provide, and the orders for notifications (locale \<open>addr_orders\<close>).

  \<^bold>\<open>Processes and errors.\<close>
  \<^item> \<open>Exceptions\<close> (\<^verbatim>\<open>lib/exception\<close>), \<open>Pid_File\<close> (\<^verbatim>\<open>lib/sys/pidfile.cpp\<close>), \<open>Execute_Command\<close>
    (\<^verbatim>\<open>executecommand.cpp\<close> of both systems; locales \<open>printing_command\<close>, \<open>process_pipe\<close>).

  \<^bold>\<open>Tools\<close> (\<^verbatim>\<open>tool\<close>), which put the components together.
  \<^item> \<open>Echo_Tools\<close> (\<^verbatim>\<open>Server.cpp\<close>, \<^verbatim>\<open>Client.cpp\<close>): sockets, server and event loop. The locale \<open>peer\<close> extends
    \<open>wire\<close> by what the other side answers; \<open>quiet_peer\<close> and \<open>echo_peer\<close> are the peers of the server and
    of the client. The server gives back what it was sent, and the client is content with that.
  \<^item> \<open>Net_Tools\<close> (\<^verbatim>\<open>netadapterview.cpp\<close>, \<^verbatim>\<open>netlinkview.cpp\<close>): the list of adapters and netlink. The loop over a
    map that grows meanwhile ends, since the keys it comes by increase and have 32 bits.
  \<^item> \<open>Perf_Tool\<close> (\<^verbatim>\<open>eventloopperformance.cpp\<close>): event loop and notifier, from their construction to their
    destruction, for the 100000 events of the code; locale \<open>event_kernel\<close>.

  \<^bold>\<open>Properties.\<close> The theorems with a number C1 to C40 are the properties of the program; each is proved
  for every environment with the laws it names, and where it has hypotheses its witness applies it to a
  concrete run.
  Lemmas stated like them without a number are of the same kind. Several say how the code departs from
  what it means to do, such as bytes that get lost after a failing read (C11).

  \<^bold>\<open>Not modelled.\<close>
  \<^item> The mutexes: an operation that holds one is a single step. Between the steps other threads are in
    \<open>loop_step\<close>; races within an object that has no mutex are not considered.
  \<^item> Signals and their handlers; what is written to standard output and error, to \<open>syslog\<close> and to the event
    log, unless it is the purpose of the tool; measured times; the names in stack traces.
  \<^item> Memory: allocation succeeds. Buffers of fixed size are modelled where the code can leave them.
  \<^item> An interrupted \<open>epoll_wait\<close> in \<open>Perf_Tool\<close>; errors of reading \<^verbatim>\<open>/proc/net/route\<close> in its middle.
  \<^item> \<open>sendmsgFake\<close>, which is compiled for a test of the sending only (\<open>WRITEV_TEST\<close>), the tests, the build
    files, and the constants of \<^verbatim>\<open>jsonrpc_defines.h\<close>, which nothing uses.
  \<^item> The tools under Windows: they are modelled on the Linux half of the library.
\<close>

end
